(* ===== verification/Prelude.thy ===== *)
theory Prelude
  imports
    Complex_Main
    "HOL-Library.AList"
    "HOL-Library.Word"
    "HOL-Library.Multiset"
    "HOL-Library.Char_ord"
    "HOL-Library.List_Lexorder"
    "HOL-Library.Product_Lexorder"
begin

section \<open>Shared types, Python values and generic lemmas\<close>

text \<open>
  What every component theory of the peerq development shares: the exceptions the Python
  modules raise, the representation of Python containers, the collections of simplification
  rules, and generic lemmas on association lists, sorted lists and multisets.

  \<^item> A Python \<^verbatim>\<open>dict\<close> or \<^verbatim>\<open>OrderedDict\<close> is an association list in insertion order:
    \<open>AList.update\<close> overwrites a present key in place and appends a new key at the end,
    \<open>AList.delete\<close> removes a key, \<open>map_of\<close> is \<^verbatim>\<open>dict.get\<close>, \<open>tl\<close> is
    \<^verbatim>\<open>popitem(last=False)\<close>.
  \<^item> A Python \<^verbatim>\<open>str\<close> is a \<open>string\<close> whose characters are the code points up to
    U+00FF; its order is the code point order of \<open>Char_ord\<close> and \<open>List_Lexorder\<close>.
  \<^item> \<^verbatim>\<open>bytes\<close> is a list of 8-bit words.
  \<^item> A finite \<^verbatim>\<open>float\<close> is a \<open>real\<close>: comparisons are exact, and sums and differences are
    taken without rounding. The type \<open>pyfloat\<close> adds the values that are not finite.
\<close>

subsection \<open>Exceptions and results\<close>

datatype py_error =
    ValueError
  | TypeError
  | KeyError
  | IndexError
  | QueueFull
  | QueueEmpty
  | InsufficientCredits
  | MessageDecodeError
  | WalError
  | WalCorruptError
  | InvalidKeyError
  | PermissionError
  | ConnectionError
  | RuntimeError
  | OverflowError
  | StructError
  | ZeroDivisionError
  | AttributeError
  | TimeoutError
  | OSError
  | IncompleteReadError

type_synonym 'a result = "py_error + 'a"

text \<open>Sequencing of code that may raise.\<close>

fun rbind :: "'a result \<Rightarrow> ('a \<Rightarrow> 'b result) \<Rightarrow> 'b result" where
  "rbind (Inl e) f = Inl e"
| "rbind (Inr x) f = f x"

definition require :: "bool \<Rightarrow> py_error \<Rightarrow> unit result" where
  "require b e = (if b then Inr () else Inl e)"

lemma rbind_Inr_iff: "rbind m f = Inr y \<longleftrightarrow> (\<exists>x. m = Inr x \<and> f x = Inr y)"
  by (cases m) auto

lemma rbindE: "rbind m f = Inr y \<Longrightarrow> (\<And>x. m = Inr x \<Longrightarrow> f x = Inr y \<Longrightarrow> P) \<Longrightarrow> P"
  by (auto simp: rbind_Inr_iff)

lemma require_Inr_iff [simp]: "require b e = Inr u \<longleftrightarrow> b"
  by (simp add: require_def)

lemma require_True [simp]: "require True e = Inr ()"
  by (simp add: require_def)

text \<open>The exceptions a computation can raise.\<close>

definition raises_only :: "py_error set \<Rightarrow> 'a result \<Rightarrow> bool" where
  "raises_only E m \<longleftrightarrow> (\<forall>e. m = Inl e \<longrightarrow> e \<in> E)"

lemma raises_only_rules:
  "raises_only E (Inr x)"
  "raises_only E m \<Longrightarrow> (\<And>x. raises_only E (f x)) \<Longrightarrow> raises_only E (rbind m f)"
  by (cases m; auto simp: raises_only_def)+

type_synonym byte = "8 word"
type_synonym bytes = "byte list"

type_synonym ('k, 'v) dict = "('k \<times> 'v) list"

text \<open>IEEE values: a finite float, the two infinities, not-a-number.\<close>

datatype pyfloat = Fin real | PosInf | NegInf | NaN

fun isfinite :: "pyfloat \<Rightarrow> bool" where
  "isfinite (Fin _) = True"
| "isfinite _ = False"

text \<open>Python's \<^verbatim>\<open>a >= b\<close> on floats, for a finite right operand.\<close>

fun float_ge :: "pyfloat \<Rightarrow> real \<Rightarrow> bool" where
  "float_ge (Fin x) y = (y \<le> x)"
| "float_ge PosInf _ = True"
| "float_ge NegInf _ = False"
| "float_ge NaN _ = False"

text \<open>The state of an \<^verbatim>\<open>asyncio.Future\<close>.\<close>

datatype future_state = Pending | Done | Cancelled

lemma future_not_alive [simp]: "f \<noteq> Cancelled \<and> f \<noteq> Done \<longleftrightarrow> f = Pending"
  by (cases f) auto

text \<open>Rule collections of the development.\<close>

named_theorems dict_simps \<open>lookups, keys and sizes of Python dictionaries\<close>
named_theorems node_defs \<open>definitions of the handlers of a peer node\<close>

subsection \<open>Dictionaries\<close>

abbreviation keys :: "('k, 'v) dict \<Rightarrow> 'k list" where
  "keys d \<equiv> map fst d"

definition has_key :: "('k, 'v) dict \<Rightarrow> 'k \<Rightarrow> bool" where
  "has_key d k \<longleftrightarrow> map_of d k \<noteq> None"

definition get_default :: "('k, 'v) dict \<Rightarrow> 'k \<Rightarrow> 'v \<Rightarrow> 'v" where
  "get_default d k v = (case map_of d k of None \<Rightarrow> v | Some x \<Rightarrow> x)"

text \<open>\<^verbatim>\<open>OrderedDict.move_to_end\<close> of a present key.\<close>

definition move_to_end :: "'k \<Rightarrow> ('k, 'v) dict \<Rightarrow> ('k, 'v) dict" where
  "move_to_end k d = (case map_of d k of None \<Rightarrow> d | Some v \<Rightarrow> AList.delete k d @ [(k, v)])"

lemma has_key_iff [dict_simps]: "has_key d k \<longleftrightarrow> k \<in> set (keys d)"
  by (auto simp: has_key_def map_of_eq_None_iff)

lemma map_of_update [dict_simps]:
  "map_of (AList.update k v d) k' = (if k' = k then Some v else map_of d k')"
  by (simp add: AList.update_conv')

lemma get_default_update [dict_simps]:
  "get_default (AList.update k v d) k' x = (if k' = k then v else get_default d k' x)"
  by (simp add: get_default_def map_of_update)

lemma set_keys_update [dict_simps]:
  "set (keys (AList.update k v d)) = insert k (set (keys d))"
  by (simp add: AList.dom_update)

lemma distinct_keys_update [dict_simps]:
  "distinct (keys d) \<Longrightarrow> distinct (keys (AList.update k v d))"
  by (rule AList.distinct_update)

lemma length_update [dict_simps]:
  "length (AList.update k v d) = (if has_key d k then length d else Suc (length d))"
  by (induction d) (auto simp: has_key_def)

lemma update_new [dict_simps]: "\<not> has_key d k \<Longrightarrow> AList.update k v d = d @ [(k, v)]"
  by (induction d) (auto simp: has_key_def split: if_splits)

lemma length_delete_present:
  "distinct (keys d) \<Longrightarrow> k \<in> set (keys d) \<Longrightarrow> length (AList.delete k d) = length d - 1"
proof (induction d)
  case (Cons a d)
  show ?case
  proof (cases "fst a = k")
    case True
    with Cons.prems have "k \<notin> fst ` set d" by auto
    with True show ?thesis by (cases a) simp
  next
    case False
    with Cons show ?thesis by (cases a; cases d) auto
  qed
qed simp

lemma length_move_to_end [dict_simps]:
  assumes "distinct (keys d)"
  shows "length (move_to_end k d) = length d"
proof (cases "map_of d k")
  case (Some v)
  then have k: "k \<in> set (keys d)" by (force dest: map_of_SomeD)
  then have "0 < length d" by (cases d) auto
  with Some length_delete_present [OF assms k] show ?thesis
    by (simp add: move_to_end_def)
qed (simp add: move_to_end_def)

lemma distinct_move_to_end [dict_simps]:
  "distinct (keys d) \<Longrightarrow> distinct (keys (move_to_end k d))"
  using AList.distinct_delete [of d k] AList.delete_notin_dom [of k d]
  by (auto simp: move_to_end_def split: option.splits)

lemma map_of_move_to_end [dict_simps]: "map_of (move_to_end k d) = map_of d"
  by (rule ext)
     (auto simp: move_to_end_def map_add_def AList.delete_conv' split: option.splits)

lemma fst_set_update [dict_simps]: "fst ` set (AList.update k v d) = insert k (fst ` set d)"
  using set_keys_update [of k v d] by simp

lemma set_update_pairs: "set (AList.update k v d) \<subseteq> insert (k, v) (set d)"
  by (induction d) auto

lemma snd_set_update: "snd ` set (AList.update k v d) \<subseteq> insert v (snd ` set d)"
  by (induction d) auto

lemma fst_set_move_to_end [dict_simps]: "fst ` set (move_to_end k d) = fst ` set d"
  using map_of_move_to_end [of k d] by (metis dom_map_of_conv_image_fst)

subsection \<open>Sorted lists\<close>

lemma dict_eq_map_keys:
  "distinct (keys d) \<Longrightarrow> map (\<lambda>k. (k, the (map_of d k))) (keys d) = d"
  by (induction d) (auto intro!: map_idI simp: rev_image_eqI)

lemma sorted_key_list_unique:
  fixes xs ys :: "('k::linorder \<times> 'v) list"
  assumes "sorted (keys xs)" "distinct (keys xs)" "sorted (keys ys)" "distinct (keys ys)"
    and m: "map_of xs = map_of ys"
  shows "xs = ys"
proof -
  have "set (keys xs) = set (keys ys)"
    using m by (simp add: dom_map_of_conv_image_fst [symmetric])
  with assms(1-4) have "keys xs = keys ys"
    by (intro sorted_distinct_set_unique)
  then show ?thesis
    using dict_eq_map_keys [OF assms(2)] dict_eq_map_keys [OF assms(4)] m by simp
qed

lemma fst_le_lex: "x \<le> y \<Longrightarrow> fst x \<le> fst (y :: 'a::order \<times> 'b::ord)"
  by (auto simp: less_eq_prod_def)

lemma sort_key_absorb: "sort_key f (sort_key f xs @ ys) = sort_key f (xs @ ys)"
proof (rule properties_for_sort_key)
  fix k
  have "filter (\<lambda>x. f k = f x) zs = filter (\<lambda>x. f x = f k) zs" for zs
    by (intro filter_cong refl) auto
  then show "filter (\<lambda>x. f k = f x) (sort_key f (xs @ ys)) = filter (\<lambda>x. f k = f x) (sort_key f xs @ ys)"
    by (simp add: sort_key_stable)
qed simp_all

subsection \<open>Dictionaries in key order\<close>

lemma keys_map_snd [dict_simps]: "keys (map (\<lambda>(k, v). (k, f v)) d) = keys d"
  by (induction d) auto

lemma fst_comp_map_snd [dict_simps]: "map (fst \<circ> (\<lambda>(k, v). (k, f v))) d = keys d"
  by (induction d) auto

lemma snd_map_snd: "snd ` set (map (\<lambda>(k, v). (k, f v)) d) = f ` snd ` set d"
  by force

lemma keys_sort_key_fst [dict_simps]: "keys (sort_key fst d) = sort (keys d)"
  by (rule properties_for_sort [symmetric]) simp_all

lemma map_of_map_snd [dict_simps]:
  "map_of (map (\<lambda>(k, v). (k, f v)) d) k = map_option f (map_of d k)"
  by (induction d) auto

lemma map_of_sort_key_fst [dict_simps]:
  assumes "distinct (keys d)"
  shows "map_of (sort_key fst d) = map_of d"
proof -
  have "set (sort_key fst d) = set d" by simp
  moreover have "distinct (keys (sort_key fst d))" using assms by (simp add: keys_sort_key_fst)
  ultimately show ?thesis using assms map_of_inject_set by blast
qed

end
