(* ===== verification/Heapq.thy ===== *)
theory Heapq
  imports Prelude
begin

section \<open>The binary heap of heapq and the priority queue interface\<close>

text \<open>
  \<^verbatim>\<open>peerq/clock.py\<close> and \<^verbatim>\<open>peerq/queue.py\<close> keep their entries in a Python list ordered by
  \<^verbatim>\<open>heapq\<close>. This theory holds the interface both rely on, the locale
  \<open>min_heap\<close>, and the array heap of the standard library with its two sifting
  loops, which is shown to satisfy the interface.
\<close>

subsection \<open>The interface\<close>

locale min_heap =
  fixes push :: "'h \<Rightarrow> 'a::linorder \<Rightarrow> 'h"
    and pop :: "'h \<Rightarrow> ('a \<times> 'h) option"
    and elems :: "'h \<Rightarrow> 'a multiset"
    and invar :: "'h \<Rightarrow> bool"
  assumes elems_push: "elems (push h x) = add_mset x (elems h)"
    and invar_push: "invar h \<Longrightarrow> invar (push h x)"
    and pop_empty: "pop h = None \<longleftrightarrow> elems h = {#}"
    and elems_pop: "pop h = Some (x, h') \<Longrightarrow> elems h = add_mset x (elems h')"
    and invar_pop: "invar h \<Longrightarrow> pop h = Some (x, h') \<Longrightarrow> invar h'"
    and pop_least: "invar h \<Longrightarrow> pop h = Some (x, h') \<Longrightarrow> y \<in># elems h \<Longrightarrow> x \<le> y"
begin

lemma pop_Some_iff: "(\<exists>x h'. pop h = Some (x, h')) \<longleftrightarrow> elems h \<noteq> {#}"
  using pop_empty [of h] by (cases "pop h") auto

lemma pop_mem: "pop h = Some (x, h') \<Longrightarrow> x \<in># elems h"
  by (auto dest: elems_pop)

lemma size_pop: "pop h = Some (x, h') \<Longrightarrow> size (elems h) = Suc (size (elems h'))"
  by (auto dest: elems_pop)

lemma pop_is_Min:
  assumes "invar h" "pop h = Some (x, h')"
  shows "x = Min_mset (elems h)"
proof (rule Min_eqI [symmetric])
  show "x \<in> set_mset (elems h)" using assms(2) by (auto dest: pop_mem)
qed (use assms in \<open>auto dest: pop_least\<close>)

text \<open>Popping until the heap is empty lists its entries in order.\<close>

lemma pop_order:
  assumes "invar h" "pop h = Some (x, h')" "pop h' = Some (y, h'')"
  shows "x \<le> y"
  using assms elems_pop [of h x h'] pop_mem [of h' y h''] by (auto intro: pop_least)

lemma pop_sorted:
  assumes "invar h" "pop h = Some (x, h')"
  shows "sorted_list_of_multiset (elems h) = x # sorted_list_of_multiset (elems h')"
proof -
  have "\<forall>y \<in> set (sorted_list_of_multiset (elems h')). x \<le> y"
    using assms pop_least elems_pop by fastforce
  then show ?thesis
    using assms elems_pop [of h x h'] by (cases "sorted_list_of_multiset (elems h')") simp_all
qed

end

subsection \<open>The array heap\<close>

text \<open>
  \<^verbatim>\<open>_siftdown(heap, startpos, pos)\<close>: the item \<open>x\<close> taken from position \<open>p\<close> moves towards the
  root while its parent is larger; parents move down into the hole.
\<close>

function siftdown_loop :: "'a::linorder list \<Rightarrow> 'a \<Rightarrow> nat \<Rightarrow> nat \<Rightarrow> 'a list" where
  "siftdown_loop h x startpos pos =
     (if startpos < pos then
        let parentpos = (pos - 1) div 2; parent = h ! parentpos
        in if x < parent then siftdown_loop (h[pos := parent]) x startpos parentpos
           else h[pos := x]
      else h[pos := x])"
  by pat_completeness auto
termination
  by (relation "measure (\<lambda>(h, x, startpos, pos). pos)") auto

definition siftdown :: "'a::linorder list \<Rightarrow> nat \<Rightarrow> nat \<Rightarrow> 'a list" where
  "siftdown h startpos pos = siftdown_loop h (h ! pos) startpos pos"

text \<open>
  \<^verbatim>\<open>_siftup(heap, pos)\<close>: the smaller child moves up into the hole until a leaf is reached;
  the item then sifts down from there. The loop returns the list and the leaf position.
\<close>

definition smaller_child :: "'a::linorder list \<Rightarrow> nat \<Rightarrow> nat" where
  "smaller_child h childpos =
     (let rightpos = childpos + 1
      in if rightpos < length h \<and> \<not> h ! childpos < h ! rightpos then rightpos else childpos)"

lemma smaller_child_cases:
  "smaller_child h c = c \<or> smaller_child h c = Suc c \<and> Suc c < length h"
  by (simp add: smaller_child_def)

lemma smaller_child_gt: "c \<le> smaller_child h c"
  using smaller_child_cases [of h c] by auto

function siftup_loop :: "'a::linorder list \<Rightarrow> nat \<Rightarrow> 'a list \<times> nat" where
  "siftup_loop h pos =
     (if 2 * pos + 1 < length h
      then siftup_loop (h[pos := h ! smaller_child h (2 * pos + 1)]) (smaller_child h (2 * pos + 1))
      else (h, pos))"
  by pat_completeness auto
termination
proof (relation "measure (\<lambda>(h, pos). length h - pos)", goal_cases)
  case (2 h pos)
  then show ?case using smaller_child_gt [of "2 * pos + 1" h] by simp
qed simp

declare siftdown_loop.simps [simp del] siftup_loop.simps [simp del]

definition siftup :: "'a::linorder list \<Rightarrow> nat \<Rightarrow> 'a list" where
  "siftup h pos =
     (let newitem = h ! pos; (h', leaf) = siftup_loop h pos
      in siftdown (h'[leaf := newitem]) pos leaf)"

definition heappush :: "'a::linorder list \<Rightarrow> 'a \<Rightarrow> 'a list" where
  "heappush h x = siftdown (h @ [x]) 0 (length h)"

text \<open>\<^verbatim>\<open>heappop\<close> of an empty list raises \<^verbatim>\<open>IndexError\<close>: the result \<open>None\<close>.\<close>

definition heappop :: "'a::linorder list \<Rightarrow> ('a \<times> 'a list) option" where
  "heappop h =
     (if h = [] then None
      else let lastelt = last h; h' = butlast h
           in if h' \<noteq> [] then Some (h' ! 0, siftup (h'[0 := lastelt]) 0)
              else Some (lastelt, []))"

subsection \<open>Lengths and contents\<close>

lemma mset_move_hole:
  assumes "p < length h" "q < length h" "p \<noteq> q"
  shows "mset ((h[p := h ! q])[q := x]) = mset (h[p := x])"
proof -
  let ?g = "h[p := x]"
  have "?g[q := ?g ! p, p := ?g ! q] = h[p := h ! q, q := x]"
    using assms by (simp add: list_update_swap [of q p])
  then have "mset ((h[p := h ! q])[q := x]) = mset (?g[q := ?g ! p, p := ?g ! q])"
    by simp
  also have "\<dots> = mset ?g"
    using assms by (intro mset_swap) simp_all
  finally show ?thesis .
qed

lemma length_siftdown_loop [simp]: "length (siftdown_loop h x s p) = length h"
  by (induction h x s p rule: siftdown_loop.induct)
     (subst siftdown_loop.simps, simp add: Let_def)

lemma mset_siftdown_loop: "p < length h \<Longrightarrow> mset (siftdown_loop h x s p) = mset (h[p := x])"
proof (induction h x s p rule: siftdown_loop.induct)
  case (1 h x s p)
  let ?q = "(p - 1) div 2"
  show ?case
  proof (cases "s < p \<and> x < h ! ?q")
    case True
    then have "siftdown_loop h x s p = siftdown_loop (h[p := h ! ?q]) x s ?q"
      by (subst siftdown_loop.simps) (simp add: Let_def)
    with True 1 have "mset (siftdown_loop h x s p) = mset ((h[p := h ! ?q])[?q := x])"
      by (simp add: less_imp_diff_less)
    also have "\<dots> = mset (h[p := x])"
      using True "1.prems" by (intro mset_move_hole) auto
    finally show ?thesis .
  next
    case False
    then show ?thesis by (subst siftdown_loop.simps) (auto simp: Let_def)
  qed
qed

lemma siftup_loop_step:
  "2 * p + 1 < length h \<Longrightarrow>
   siftup_loop h p
     = siftup_loop (h[p := h ! smaller_child h (2 * p + 1)]) (smaller_child h (2 * p + 1))"
  by (subst siftup_loop.simps) simp

lemma siftup_loop_stop: "\<not> 2 * p + 1 < length h \<Longrightarrow> siftup_loop h p = (h, p)"
  by (subst siftup_loop.simps) simp

lemma smaller_child_less:
  "c < length h \<Longrightarrow> smaller_child h c < length h"
  using smaller_child_cases [of h c] by auto

lemma siftup_loop_facts:
  "siftup_loop h p = (h', p') \<Longrightarrow> p < length h \<Longrightarrow>
   length h' = length h \<and> p' < length h \<and> length h \<le> 2 * p' + 1
   \<and> mset (h'[p' := x]) = mset (h[p := x])"
proof (induction h p arbitrary: h' p' rule: siftup_loop.induct)
  case (1 h p)
  let ?c = "smaller_child h (2 * p + 1)"
  show ?case
  proof (cases "2 * p + 1 < length h")
    case True
    note c = smaller_child_less [OF True] smaller_child_gt [of "2 * p + 1" h]
    from True "1.prems" have "siftup_loop (h[p := h ! ?c]) ?c = (h', p')"
      by (simp only: siftup_loop_step)
    with True c "1.IH" [OF True] have "length h' = length h \<and> p' < length h \<and> length h \<le> 2 * p' + 1
        \<and> mset (h'[p' := x]) = mset ((h[p := h ! ?c])[?c := x])"
      by simp
    then show ?thesis using mset_move_hole [of p h ?c x] c "1.prems" by simp
  next
    case False
    with "1.prems" show ?thesis by (simp add: siftup_loop_stop)
  qed
qed

lemma mset_siftdown [simp]: "p < length h \<Longrightarrow> mset (siftdown h s p) = mset h"
  by (simp add: siftdown_def mset_siftdown_loop)

lemma length_siftdown [simp]: "length (siftdown h s p) = length h"
  by (simp add: siftdown_def)

lemma mset_siftup [simp]:
  assumes "p < length h"
  shows "mset (siftup h p) = mset h"
proof -
  obtain h' q where q: "siftup_loop h p = (h', q)" by fastforce
  note facts = siftup_loop_facts [OF q assms, of "h ! p"]
  have "mset (siftup h p) = mset (h'[q := h ! p])"
    using facts q by (simp add: siftup_def)
  also have "\<dots> = mset h" using facts by simp
  finally show ?thesis .
qed

lemma mset_heappush [simp]: "mset (heappush h x) = add_mset x (mset h)"
  by (simp add: heappush_def)

lemma length_heappush [simp]: "length (heappush h x) = Suc (length h)"
  by (simp add: heappush_def)

lemma heappush_Nil [simp]: "heappush [] x = [x]"
  by (simp add: heappush_def siftdown_def siftdown_loop.simps)

lemma heappop_single [simp]: "heappop [x] = Some (x, [])"
  by (simp add: heappop_def)

lemma heappop_None [simp]: "heappop h = None \<longleftrightarrow> h = []"
  by (simp add: heappop_def Let_def)

lemma heappop_Nil [simp]: "heappop [] = None"
  by simp

lemma mset_heappop:
  assumes "heappop h = Some (x, h')"
  shows "mset h = add_mset x (mset h')"
proof (cases "butlast h = []")
  case True
  with assms show ?thesis
    by (cases h) (auto simp: heappop_def split: if_splits)
next
  case False
  define g where "g = butlast h"
  from assms have ne: "h \<noteq> []" by auto
  then have h: "mset h = add_mset (last h) (mset g)"
    by (metis append_butlast_last_id g_def mset.simps mset_append add_mset_add_single)
  from False assms ne have x: "x = g ! 0" and h': "h' = siftup (g[0 := last h]) 0"
    by (auto simp: heappop_def Let_def g_def)
  from False have "0 < length g" unfolding g_def by (rule length_greater_0_conv [THEN iffD2])
  then show ?thesis
    using h x h' by (simp add: mset_update)
qed

lemma length_heappop: "heappop h = Some (x, h') \<Longrightarrow> length h = Suc (length h')"
  by (metis mset_heappop size_add_mset size_mset)

subsection \<open>The heap order\<close>

text \<open>
  \<open>is_heap\<close>: every entry is at least its parent. \<open>hole_at p h\<close>: the same for every edge that
  does not touch position \<open>p\<close>, and the children of \<open>p\<close> are at least the parent of \<open>p\<close>.
\<close>

definition is_heap :: "'a::linorder list \<Rightarrow> bool" where
  "is_heap h \<longleftrightarrow> (\<forall>i < length h. 0 < i \<longrightarrow> h ! ((i - 1) div 2) \<le> h ! i)"

definition hole_at :: "nat \<Rightarrow> 'a::linorder list \<Rightarrow> bool" where
  "hole_at p h \<longleftrightarrow>
     (\<forall>i < length h. 0 < i \<longrightarrow> i \<noteq> p \<longrightarrow> (i - 1) div 2 \<noteq> p \<longrightarrow> h ! ((i - 1) div 2) \<le> h ! i) \<and>
     (\<forall>i < length h. 0 < i \<longrightarrow> 0 < p \<longrightarrow> (i - 1) div 2 = p \<longrightarrow> h ! ((p - 1) div 2) \<le> h ! i)"

definition below_hole :: "'a::linorder \<Rightarrow> nat \<Rightarrow> 'a list \<Rightarrow> bool" where
  "below_hole x p h \<longleftrightarrow> (\<forall>i < length h. 0 < i \<longrightarrow> (i - 1) div 2 = p \<longrightarrow> x \<le> h ! i)"

lemma hole_atD:
  "hole_at p h \<Longrightarrow> i < length h \<Longrightarrow> 0 < i \<Longrightarrow> i \<noteq> p \<Longrightarrow> (i - 1) div 2 \<noteq> p \<Longrightarrow>
   h ! ((i - 1) div 2) \<le> h ! i"
  "hole_at p h \<Longrightarrow> i < length h \<Longrightarrow> 0 < i \<Longrightarrow> 0 < p \<Longrightarrow> (i - 1) div 2 = p \<Longrightarrow>
   h ! ((p - 1) div 2) \<le> h ! i"
  by (auto simp: hole_at_def)

lemma below_holeD:
  "below_hole x p h \<Longrightarrow> i < length h \<Longrightarrow> 0 < i \<Longrightarrow> (i - 1) div 2 = p \<Longrightarrow> x \<le> h ! i"
  by (auto simp: below_hole_def)

lemma parent_less: "0 < i \<Longrightarrow> ((i::nat) - 1) div 2 < i"
  by auto

lemma is_heap_hole_at: "is_heap h \<Longrightarrow> hole_at p h"
proof -
  assume h: "is_heap h"
  have "h ! ((p - 1) div 2) \<le> h ! i"
    if i: "i < length h" "0 < i" "0 < p" "(i - 1) div 2 = p" for i
  proof -
    from i have "p < length h" using parent_less [of i] by simp
    with h i have "h ! ((p - 1) div 2) \<le> h ! p" by (simp add: is_heap_def)
    also from h i have "h ! p \<le> h ! i" by (auto simp: is_heap_def)
    finally show ?thesis .
  qed
  with h show ?thesis by (simp add: hole_at_def is_heap_def)
qed

lemma fill_hole:
  assumes "hole_at p h" "below_hole x p h" "p < length h"
    and "0 < p \<Longrightarrow> h ! ((p - 1) div 2) \<le> x"
  shows "is_heap (h[p := x])"
  unfolding is_heap_def
proof (intro allI impI)
  fix i assume i: "i < length (h[p := x])" "0 < i"
  let ?q = "(i - 1) div 2"
  have "?q < i" using i by (simp add: parent_less)
  consider "i = p" | "i \<noteq> p" "?q = p" | "i \<noteq> p" "?q \<noteq> p" by blast
  then show "h[p := x] ! ?q \<le> h[p := x] ! i"
  proof cases
    case 1
    with assms i \<open>?q < i\<close> show ?thesis by simp
  next
    case 2
    with assms i below_holeD [of x p h i] show ?thesis by simp
  next
    case 3
    with assms i hole_atD(1) [of p h i] show ?thesis by simp
  qed
qed

lemma hole_moves_up:
  assumes hole: "hole_at p h" and p: "p < length h" "0 < p"
    and x: "x < h ! ((p - 1) div 2)"
  defines "q \<equiv> (p - 1) div 2"
  shows "hole_at q (h[p := h ! q])" "below_hole x q (h[p := h ! q])"
proof -
  have qp: "q < p" using p by (simp add: q_def parent_less)
  have above_q: "h ! ((q - 1) div 2) \<le> h ! q" if "0 < q"
    using hole_atD(1) [OF hole, of q] that qp p parent_less [of q] by simp
  have below_q: "h ! q \<le> h ! i"
    if "i < length h" "0 < i" "i \<noteq> p" "(i - 1) div 2 = q" for i
    using hole_atD(1) [OF hole, of i] that qp by simp
  show "below_hole x q (h[p := h ! q])"
    unfolding below_hole_def
  proof (intro allI impI)
    fix i assume i: "i < length (h[p := h ! q])" "0 < i" "(i - 1) div 2 = q"
    show "x \<le> h[p := h ! q] ! i"
      using x p i below_q [of i] by (cases "i = p") (auto simp: q_def)
  qed
  have edge: "h[p := h ! q] ! ((i - 1) div 2) \<le> h[p := h ! q] ! i"
    if i: "i < length h" "0 < i" "i \<noteq> q" "(i - 1) div 2 \<noteq> q" for i
  proof -
    from i(4) have ip: "i \<noteq> p" by (auto simp: q_def)
    show ?thesis
    proof (cases "(i - 1) div 2 = p")
      case True
      with hole_atD(2) [OF hole i(1,2) p(2) True] ip p show ?thesis by (simp add: q_def)
    next
      case False
      with hole_atD(1) [OF hole i(1,2) ip False] ip show ?thesis by simp
    qed
  qed
  have grand: "h[p := h ! q] ! ((q - 1) div 2) \<le> h[p := h ! q] ! i"
    if i: "i < length h" "0 < i" "0 < q" "(i - 1) div 2 = q" for i
  proof -
    have "(q - 1) div 2 \<noteq> p" using qp parent_less [OF i(3)] by simp
    then show ?thesis
      using above_q [OF i(3)] below_q [of i] i p by (cases "i = p") auto
  qed
  show "hole_at q (h[p := h ! q])"
    unfolding hole_at_def using edge grand by simp
qed

lemma siftdown_loop_heap:
  "hole_at p h \<Longrightarrow> below_hole x p h \<Longrightarrow> p < length h \<Longrightarrow> is_heap (siftdown_loop h x 0 p)"
proof (induction h x "0::nat" p rule: siftdown_loop.induct)
  case (1 h x p)
  let ?q = "(p - 1) div 2"
  show ?case
  proof (cases "0 < p \<and> x < h ! ?q")
    case True
    then have "siftdown_loop h x 0 p = siftdown_loop (h[p := h ! ?q]) x 0 ?q"
      by (subst siftdown_loop.simps) (simp add: Let_def)
    with True "1.prems" "1.hyps" hole_moves_up [of p h x] show ?thesis
      by (simp add: less_imp_diff_less)
  next
    case False
    then have "siftdown_loop h x 0 p = h[p := x]"
      by (subst siftdown_loop.simps) (auto simp: Let_def)
    with False "1.prems" show ?thesis by (auto intro!: fill_hole)
  qed
qed

lemma is_heap_heappush:
  assumes "is_heap h"
  shows "is_heap (heappush h x)"
proof -
  have parent: "(i - Suc 0) div 2 < length h" if "i \<le> length h" "0 < i" for i
    using that by auto
  from parent [of "length h"] have "(length h - Suc 0) div 2 \<noteq> length h" if "h \<noteq> []"
    using that by auto
  then have "hole_at (length h) (h @ [x])"
    using assms parent by (auto simp: hole_at_def is_heap_def nth_append less_Suc_eq)
  moreover have "below_hole x (length h) (h @ [x])"
    using parent by (auto simp: below_hole_def less_Suc_eq)
  ultimately show ?thesis
    using siftdown_loop_heap [of "length h" "h @ [x]" x] by (simp add: heappush_def siftdown_def)
qed

lemma smaller_child_least:
  assumes "2 * p + 1 < length h" "i < length h" "0 < i" "(i - 1) div 2 = p"
  shows "h ! smaller_child h (2 * p + 1) \<le> h ! i"
proof -
  from assms(3,4) have "i = 2 * p + 1 \<or> i = 2 * p + 2" by auto
  with assms(1,2) show ?thesis
    by (auto simp: smaller_child_def Let_def)
qed

lemma hole_moves_down:
  assumes hole: "hole_at p h" and l: "2 * p + 1 < length h"
  defines "c \<equiv> smaller_child h (2 * p + 1)"
  shows "hole_at c (h[p := h ! c])"
proof -
  have c: "c < length h" "p < c" "(c - 1) div 2 = p" "0 < c"
    using smaller_child_less [OF l] smaller_child_cases [of h "2 * p + 1"]
    by (auto simp: c_def)
  have edge: "h[p := h ! c] ! ((i - 1) div 2) \<le> h[p := h ! c] ! i"
    if i: "i < length h" "0 < i" "i \<noteq> c" "(i - 1) div 2 \<noteq> c" for i
  proof -
    have "(i - 1) div 2 < i" using i(2) by (rule parent_less)
    consider "i = p" | "i \<noteq> p" "(i - 1) div 2 = p" | "i \<noteq> p" "(i - 1) div 2 \<noteq> p" by blast
    then show ?thesis
    proof cases
      case 1
      with hole_atD(2) [OF hole c(1,4) _ c(3)] i \<open>(i - 1) div 2 < i\<close> show ?thesis by simp
    next
      case 2
      with smaller_child_least [OF l i(1,2)] i show ?thesis by (simp add: c_def)
    next
      case 3
      with hole_atD(1) [OF hole i(1,2)] show ?thesis by simp
    qed
  qed
  have "h[p := h ! c] ! ((c - 1) div 2) \<le> h[p := h ! c] ! i"
    if i: "i < length h" "0 < i" "(i - 1) div 2 = c" for i
  proof -
    from i have "i \<noteq> p" using c(2) parent_less [OF i(2)] by simp
    with hole_atD(1) [OF hole i(1,2)] i c show ?thesis by simp
  qed
  with edge show ?thesis by (simp add: hole_at_def)
qed

lemma siftup_loop_hole:
  "hole_at p h \<Longrightarrow> siftup_loop h p = (h', p') \<Longrightarrow> hole_at p' h'"
proof (induction h p arbitrary: h' p' rule: siftup_loop.induct)
  case (1 h p)
  show ?case
  proof (cases "2 * p + 1 < length h")
    case True
    with 1 hole_moves_down [OF "1.prems"(1) True] show ?thesis
      by (simp only: siftup_loop_step)
  next
    case False
    with "1.prems" show ?thesis by (simp add: siftup_loop_stop)
  qed
qed

lemma hole_at_update: "hole_at p (h[p := x]) = hole_at p h"
proof -
  have "(h[p := x]) ! ((i - 1) div 2) = h ! ((i - 1) div 2)" if "(i - 1) div 2 \<noteq> p" for i
    using that by simp
  moreover have "h[p := x] ! i = h ! i" if "(i - 1) div 2 = p" "0 < i" for i
    using that parent_less [of i] by auto
  moreover have "h[p := x] ! ((p - 1) div 2) = h ! ((p - 1) div 2)" if "0 < p"
    using that parent_less [of p] by auto
  ultimately show ?thesis by (auto simp: hole_at_def)
qed

lemma is_heap_siftup:
  assumes "hole_at 0 h" "h \<noteq> []"
  shows "is_heap (siftup h 0)"
proof -
  obtain h' q where q: "siftup_loop h 0 = (h', q)" by fastforce
  with assms(2) have facts: "q < length h'" "length h' \<le> 2 * q + 1"
    using siftup_loop_facts [OF q] by auto
  have "hole_at q (h'[q := h ! 0])"
    using siftup_loop_hole [OF assms(1) q] by (simp add: hole_at_update)
  moreover have "below_hole (h ! 0) q (h'[q := h ! 0])"
    using facts by (auto simp: below_hole_def)
  ultimately show ?thesis
    using facts q siftdown_loop_heap [of q "h'[q := h ! 0]" "h ! 0"]
    by (simp add: siftup_def siftdown_def Let_def)
qed

lemma is_heap_butlast: "is_heap h \<Longrightarrow> is_heap (butlast h)"
  by (auto simp: is_heap_def nth_butlast)

lemma is_heap_heappop:
  assumes "is_heap h" "heappop h = Some (x, h')"
  shows "is_heap h'"
proof (cases "butlast h = []")
  case True
  with assms(2) show ?thesis by (auto simp: heappop_def is_heap_def split: if_splits)
next
  case False
  with assms(2) have "h' = siftup ((butlast h)[0 := last h]) 0"
    by (auto simp: heappop_def Let_def split: if_splits)
  moreover have "hole_at 0 ((butlast h)[0 := last h])"
    using assms(1) by (simp add: hole_at_update is_heap_hole_at is_heap_butlast)
  ultimately show ?thesis
    using False is_heap_siftup by (metis list_update_nonempty)
qed

lemma is_heap_root:
  assumes "is_heap h" "i < length h"
  shows "h ! 0 \<le> h ! i"
  using assms(2)
proof (induction i rule: less_induct)
  case (less i)
  show ?case
  proof (cases "i = 0")
    case False
    then have "(i - 1) div 2 < i" by (simp add: parent_less)
    with less have "h ! 0 \<le> h ! ((i - 1) div 2)" by simp
    also have "\<dots> \<le> h ! i" using assms(1) less.prems False by (simp add: is_heap_def)
    finally show ?thesis .
  qed simp
qed

lemma heappop_root: "heappop h = Some (x, h') \<Longrightarrow> x = h ! 0"
  by (cases h) (auto simp: heappop_def Let_def nth_butlast split: if_splits)

lemma is_heap_Nil [simp]: "is_heap []"
  by (simp add: is_heap_def)

interpretation hq: min_heap heappush heappop mset is_heap
proof
  fix h h' :: "'a list" and x y
  assume "is_heap h" "heappop h = Some (x, h')" "y \<in># mset h"
  then show "x \<le> y" by (auto dest!: heappop_root simp: in_set_conv_nth is_heap_root)
qed (auto simp: is_heap_heappush mset_heappop is_heap_heappop)

text \<open>The entry the code reads as \<^verbatim>\<open>heap[0]\<close> is the one \<^verbatim>\<open>heappop\<close> returns.\<close>

lemma heappop_Some_head: "h \<noteq> [] \<Longrightarrow> \<exists>h'. heappop h = Some (hd h, h')"
  using heappop_None [of h] heappop_root [of h] hd_conv_nth [of h] by fastforce

end
