(* ===== verification/Sim_Clock.thy ===== *)
theory Sim_Clock
  imports Heapq
begin

section \<open>The virtual clock (peerq/clock.py)\<close>

text \<open>
  \<^verbatim>\<open>SimClock\<close>: virtual time, the heap of sleeping coroutines, and the operations that
  register a sleeper and advance time. An asyncio future is a number; its state is kept in
  \<open>futures\<close>, and \<open>ready\<close> lists the futures handed to the event loop in the order in which
  their results were set, which is the order in which their coroutines resume.
  \<^verbatim>\<open>RealClock\<close> only forwards to the operating system and is not modelled.
\<close>

type_synonym sleeper = "real \<times> nat \<times> nat"

record sim_clock =
  now_time :: real
  sleepers :: "sleeper list"
  counter :: nat
  futures :: "nat \<Rightarrow> future_state"
  next_future :: nat
  ready :: "nat list"

abbreviation deadline_of :: "sleeper \<Rightarrow> real" where
  "deadline_of e \<equiv> fst e"

abbreviation future_of :: "sleeper \<Rightarrow> nat" where
  "future_of e \<equiv> snd (snd e)"

definition init_clock :: "real \<Rightarrow> sim_clock" where
  "init_clock initial_time =
     \<lparr>now_time = initial_time, sleepers = [], counter = 0,
      futures = (\<lambda>_. Pending), next_future = 0, ready = []\<rparr>"

definition clock_now :: "sim_clock \<Rightarrow> real" where
  "clock_now c = now_time c"

definition clock_wall_now :: "sim_clock \<Rightarrow> real" where
  "clock_wall_now c = now_time c"

text \<open>\<^verbatim>\<open>future.set_result(None)\<close>: the future is done and its coroutine is scheduled.\<close>

definition set_result :: "nat \<Rightarrow> sim_clock \<Rightarrow> sim_clock" where
  "set_result f c = c\<lparr>futures := (futures c)(f := Done), ready := ready c @ [f]\<rparr>"

text \<open>\<^verbatim>\<open>future.cancel()\<close>, issued when the sleeping task is cancelled.\<close>

definition cancel_future :: "nat \<Rightarrow> sim_clock \<Rightarrow> sim_clock" where
  "cancel_future f c =
     (if futures c f = Pending then c\<lparr>futures := (futures c)(f := Cancelled)\<rparr> else c)"

text \<open>
  \<^verbatim>\<open>SimClock.sleep\<close> up to its \<^verbatim>\<open>await\<close>: the new state and the future that is awaited.
\<close>

definition sleep :: "sim_clock \<Rightarrow> real \<Rightarrow> sim_clock \<times> nat" where
  "sleep c delay =
     (let f = next_future c;
          c1 = c\<lparr>next_future := Suc f, futures := (futures c)(f := Pending)\<rparr>
      in if delay \<le> 0 then (set_result f c1, f)
         else let deadline = now_time c + delay
              in (c1\<lparr>sleepers := heappush (sleepers c) (deadline, counter c, f),
                    counter := Suc (counter c)\<rparr>, f))"

text \<open>The loop that discards cancelled sleepers from the top of the heap.\<close>

function drop_cancelled :: "(nat \<Rightarrow> future_state) \<Rightarrow> sleeper list \<Rightarrow> sleeper list" where
  "drop_cancelled fs h =
     (case heappop h of
        None \<Rightarrow> h
      | Some (_, h') \<Rightarrow>
          if fs (future_of (h ! 0)) = Cancelled then drop_cancelled fs h' else h)"
  by pat_completeness auto
termination
  by (relation "measure (\<lambda>(fs, h). length h)") (auto dest: length_heappop)

definition has_pending_sleepers :: "sim_clock \<Rightarrow> sim_clock \<times> bool" where
  "has_pending_sleepers c =
     (let h = drop_cancelled (futures c) (sleepers c)
      in (c\<lparr>sleepers := h\<rparr>, 0 < length h))"

definition next_deadline :: "sim_clock \<Rightarrow> sim_clock \<times> real option" where
  "next_deadline c =
     (let h = drop_cancelled (futures c) (sleepers c)
      in (c\<lparr>sleepers := h\<rparr>, if h = [] then None else Some (deadline_of (h ! 0))))"

text \<open>The loop of \<^verbatim>\<open>advance_to\<close>; the accumulator counts the sleepers woken.\<close>

function wake_loop :: "real \<Rightarrow> sim_clock \<Rightarrow> nat \<Rightarrow> sim_clock \<times> nat" where
  "wake_loop target c woken =
     (case heappop (sleepers c) of
        None \<Rightarrow> (c, woken)
      | Some ((deadline, n, f), h') \<Rightarrow>
          if target < deadline then (c, woken)
          else if futures c f \<noteq> Cancelled \<and> futures c f \<noteq> Done
          then wake_loop target
                 (set_result f (c\<lparr>sleepers := h', now_time := deadline\<rparr>)) (Suc woken)
          else wake_loop target (c\<lparr>sleepers := h'\<rparr>) woken)"
  by pat_completeness auto
termination
  by (relation "measure (\<lambda>(target, c, woken). length (sleepers c))")
     (auto simp: set_result_def dest: length_heappop)

definition advance_to :: "sim_clock \<Rightarrow> real \<Rightarrow> (sim_clock \<times> nat) result" where
  "advance_to c target =
     (if target < now_time c then Inl ValueError
      else let (c', woken) = wake_loop target c 0
           in Inr (c'\<lparr>now_time := target\<rparr>, woken))"

definition advance :: "sim_clock \<Rightarrow> real \<Rightarrow> (sim_clock \<times> nat) result" where
  "advance c duration =
     (if duration < 0 then Inl ValueError else advance_to c (now_time c + duration))"

definition step :: "sim_clock \<Rightarrow> (sim_clock \<times> real option) result" where
  "step c =
     (let h = drop_cancelled (futures c) (sleepers c); c1 = c\<lparr>sleepers := h\<rparr>
      in if h = [] then Inr (c1, None)
         else case advance_to c1 (deadline_of (h ! 0)) of
                Inl e \<Rightarrow> Inl e
              | Inr (c2, _) \<Rightarrow> Inr (c2, Some (now_time c2)))"

declare drop_cancelled.simps [simp del] wake_loop.simps [simp del]

subsection \<open>The invariant of the sleeper heap\<close>

text \<open>
  Sleepers form a heap, wait for different futures, carry different sequence numbers below
  the counter, and every deadline lies in the future.
\<close>

definition clock_wf :: "sim_clock \<Rightarrow> bool" where
  "clock_wf c \<longleftrightarrow>
     is_heap (sleepers c) \<and>
     distinct (map future_of (sleepers c)) \<and>
     (\<forall>e \<in> set (sleepers c). now_time c < deadline_of e) \<and>
     (\<forall>e \<in> set (sleepers c). fst (snd e) < counter c \<and> future_of e < next_future c)"

text \<open>The sleepers due at \<open>target\<close>, in deadline order, whose futures are still pending.\<close>

definition due :: "sim_clock \<Rightarrow> real \<Rightarrow> sleeper list" where
  "due c target =
     filter (\<lambda>e. deadline_of e \<le> target \<and> futures c (future_of e) = Pending) (sort (sleepers c))"

lemma sort_pop:
  assumes "is_heap h" "heappop h = Some (x, h')"
  shows "sort h = x # sort h'"
  using hq.pop_sorted [OF assms] by simp

lemma mset_map_eq: "mset xs = mset ys \<Longrightarrow> mset (map f xs) = mset (map f ys)"
  by simp

lemma pop_futures:
  assumes "heappop h = Some (x, h')" "distinct (map future_of h)"
  shows "distinct (map future_of h')" "future_of x \<notin> set (map future_of h')"
proof -
  have "mset (map future_of h) = mset (map future_of (x # h'))"
    using mset_heappop [OF assms(1)] by simp
  then have "distinct (map future_of (x # h'))"
    using assms(2) mset_eq_imp_distinct_iff by blast
  then show "distinct (map future_of h')" "future_of x \<notin> set (map future_of h')"
    by auto
qed

lemma pop_set: "heappop h = Some (x, h') \<Longrightarrow> set h = insert x (set h')"
  by (metis mset_heappop set_mset_add_mset_insert set_mset_mset)

lemma pop_deadline_least:
  assumes "is_heap h" "heappop h = Some (x, h')" "e \<in> set h"
  shows "deadline_of x \<le> deadline_of e"
  using hq.pop_least [OF assms(1,2), of e] assms(3) by (simp add: fst_le_lex)

lemma due_none:
  assumes "is_heap (sleepers c)" "heappop (sleepers c) = Some (x, h')" "target < deadline_of x"
  shows "due c target = []"
  using pop_deadline_least [OF assms(1,2)] assms(3) by (fastforce simp: due_def filter_empty_conv)

lemma due_pop:
  assumes "is_heap (sleepers c)" "distinct (map future_of (sleepers c))"
    and "heappop (sleepers c) = Some (x, h')" "deadline_of x \<le> target"
    and c': "sleepers c' = h'" "\<And>f. f \<noteq> future_of x \<Longrightarrow> futures c' f = futures c f"
  shows "due c target = (if futures c (future_of x) = Pending then [x] else []) @ due c' target"
proof -
  have "futures c' (future_of e) = futures c (future_of e)" if "e \<in> set h'" for e
    using pop_futures(2) [OF assms(3,2)] that by (intro c'(2)) (auto simp: image_iff)
  then have "filter (\<lambda>e. deadline_of e \<le> target \<and> futures c (future_of e) = Pending) (sort h')
      = filter (\<lambda>e. deadline_of e \<le> target \<and> futures c' (future_of e) = Pending) (sort h')"
    by (intro filter_cong refl) simp
  then show ?thesis
    using assms by (simp add: due_def sort_pop)
qed

lemma wake_loop_empty: "sleepers c = [] \<Longrightarrow> wake_loop t c w = (c, w)"
  by (subst wake_loop.simps) simp

lemma wake_loop_future:
  "heappop (sleepers c) = Some (x, h') \<Longrightarrow> t < deadline_of x \<Longrightarrow> wake_loop t c w = (c, w)"
  by (subst wake_loop.simps) (cases x, simp)

lemma wake_loop_wake:
  "heappop (sleepers c) = Some (x, h') \<Longrightarrow> deadline_of x \<le> t \<Longrightarrow> futures c (future_of x) = Pending \<Longrightarrow>
   wake_loop t c w
     = wake_loop t (set_result (future_of x) (c\<lparr>sleepers := h', now_time := deadline_of x\<rparr>)) (Suc w)"
  by (subst wake_loop.simps) (cases x, simp)

lemma wake_loop_skip:
  "heappop (sleepers c) = Some (x, h') \<Longrightarrow> deadline_of x \<le> t \<Longrightarrow> futures c (future_of x) \<noteq> Pending \<Longrightarrow>
   wake_loop t c w = wake_loop t (c\<lparr>sleepers := h'\<rparr>) w"
  by (subst wake_loop.simps) (cases x, simp)

lemmas wake_loop_cases = wake_loop_empty wake_loop_future wake_loop_wake wake_loop_skip

definition woken_by :: "real \<Rightarrow> sim_clock \<Rightarrow> nat \<Rightarrow> sim_clock \<Rightarrow> nat \<Rightarrow> bool" where
  "woken_by t c w c' w' \<longleftrightarrow>
     w' = w + length (due c t) \<and>
     ready c' = ready c @ map future_of (due c t) \<and>
     futures c' = (\<lambda>f. if f \<in> future_of ` set (due c t) then Done else futures c f) \<and>
     mset (sleepers c') = filter_mset (\<lambda>e. t < deadline_of e) (mset (sleepers c)) \<and>
     is_heap (sleepers c') \<and> counter c' = counter c \<and> next_future c' = next_future c"

lemma wake_loop_spec:
  "is_heap (sleepers c) \<Longrightarrow> distinct (map future_of (sleepers c)) \<Longrightarrow>
   case wake_loop t c w of (c', w') \<Rightarrow> woken_by t c w c' w'"
proof (induction "length (sleepers c)" arbitrary: c w rule: less_induct)
  case less
  note hp = less.prems(1) and ds = less.prems(2)
  show ?case
  proof (cases "heappop (sleepers c)")
    case None
    with hp show ?thesis by (simp add: wake_loop_empty woken_by_def due_def)
  next
    case (Some r)
    obtain x h' where pop: "heappop (sleepers c) = Some (x, h')"
      using Some by (cases r) simp
    have hp': "is_heap h'" using hq.invar_pop [OF hp pop] .
    have ds': "distinct (map future_of h')" using pop_futures(1) [OF pop ds] .
    have len: "length h' < length (sleepers c)" using length_heappop [OF pop] by simp
    have ms: "mset (sleepers c) = add_mset x (mset h')" using mset_heappop [OF pop] .
    consider "t < deadline_of x"
      | "deadline_of x \<le> t" "futures c (future_of x) = Pending"
      | "deadline_of x \<le> t" "futures c (future_of x) \<noteq> Pending"
      by fastforce
    then show ?thesis
    proof cases
      case 1
      have "filter_mset (\<lambda>e. t < deadline_of e) (mset (sleepers c)) = mset (sleepers c)"
        using pop_deadline_least [OF hp pop] 1 by (fastforce simp: filter_mset_eq_conv)
      with 1 hp show ?thesis
        using due_none [OF hp pop 1] by (simp add: wake_loop_future [OF pop 1] woken_by_def)
    next
      case 2
      let ?c = "set_result (future_of x) (c\<lparr>sleepers := h', now_time := deadline_of x\<rparr>)"
      have "case wake_loop t ?c (Suc w) of (c', w') \<Rightarrow> woken_by t ?c (Suc w) c' w'"
        using len hp' ds' by (intro less.hyps) (simp_all add: set_result_def)
      moreover have "due c t = x # due ?c t"
        using due_pop [OF hp ds pop 2(1), of ?c] 2 by (simp add: set_result_def)
      ultimately show ?thesis
        using ms 2 by (auto simp: wake_loop_wake [OF pop 2] woken_by_def set_result_def fun_eq_iff
          split: prod.splits)
    next
      case 3
      let ?c = "c\<lparr>sleepers := h'\<rparr>"
      have "case wake_loop t ?c w of (c', w') \<Rightarrow> woken_by t ?c w c' w'"
        using len hp' ds' by (intro less.hyps) simp_all
      moreover have "due c t = due ?c t"
        using due_pop [OF hp ds pop 3(1), of ?c] 3 by simp
      ultimately show ?thesis
        using ms 3 by (auto simp: wake_loop_skip [OF pop 3] woken_by_def split: prod.splits)
    qed
  qed
qed

lemma drop_cancelled_spec:
  "is_heap h \<Longrightarrow>
   is_heap (drop_cancelled fs h) \<and> mset (drop_cancelled fs h) \<subseteq># mset h \<and>
   filter_mset (\<lambda>e. fs (future_of e) \<noteq> Cancelled) (mset (drop_cancelled fs h))
     = filter_mset (\<lambda>e. fs (future_of e) \<noteq> Cancelled) (mset h) \<and>
   (drop_cancelled fs h \<noteq> [] \<longrightarrow> fs (future_of (drop_cancelled fs h ! 0)) \<noteq> Cancelled)"
proof (induction "length h" arbitrary: h rule: less_induct)
  case less
  show ?case
  proof (cases "heappop h")
    case None
    then show ?thesis by (subst (1 2 3 4 5) drop_cancelled.simps) simp
  next
    case (Some r)
    obtain x h' where pop: "heappop h = Some (x, h')" using Some by (cases r) simp
    note facts = hq.invar_pop [OF less.prems pop] length_heappop [OF pop] mset_heappop [OF pop]
      heappop_root [OF pop]
    show ?thesis
    proof (cases "fs (future_of (h ! 0)) = Cancelled")
      case True
      then have "drop_cancelled fs h = drop_cancelled fs h'"
        by (subst drop_cancelled.simps) (simp add: pop)
      with less.hyps [of h'] facts True show ?thesis
        by (auto intro: subset_mset.order_trans)
    next
      case False
      then have "drop_cancelled fs h = h"
        by (subst drop_cancelled.simps) (simp add: pop)
      with False less.prems show ?thesis by simp
    qed
  qed
qed

lemmas drop_cancelled_facts =
  drop_cancelled_spec [THEN conjunct1]
  drop_cancelled_spec [THEN conjunct2, THEN conjunct1]
  drop_cancelled_spec [THEN conjunct2, THEN conjunct2, THEN conjunct1]
  drop_cancelled_spec [THEN conjunct2, THEN conjunct2, THEN conjunct2, THEN mp]

lemma distinct_map_subseteq_mset:
  assumes "mset xs \<subseteq># mset ys" "distinct (map f ys)"
  shows "distinct (map f xs)"
proof -
  obtain zs where "mset ys = mset (xs @ zs)"
    using assms(1) by (metis ex_mset mset_append subset_mset.add_diff_inverse)
  then have "distinct (map f (xs @ zs))"
    using assms(2) mset_map_eq mset_eq_imp_distinct_iff by metis
  then show ?thesis by simp
qed

text \<open>Every operation keeps the invariant of the sleeper heap.\<close>

lemma clock_wf_shrink:
  assumes "clock_wf c" "is_heap h" "mset h \<subseteq># mset (sleepers c)"
  shows "clock_wf (c\<lparr>sleepers := h\<rparr>)"
  using assms set_mset_mono [OF assms(3)] distinct_map_subseteq_mset [OF assms(3)]
  by (auto simp: clock_wf_def)

lemma clock_wf_init: "clock_wf (init_clock t)"
  by (simp add: clock_wf_def init_clock_def)

lemma clock_wf_sleep:
  assumes "clock_wf c"
  shows "clock_wf (fst (sleep c delay))"
proof (cases "delay \<le> 0")
  case True
  with assms show ?thesis
    by (fastforce simp: clock_wf_def sleep_def set_result_def Let_def)
next
  case False
  let ?e = "(now_time c + delay, counter c, next_future c)"
  let ?h = "heappush (sleepers c) ?e"
  have m: "mset ?h = mset (?e # sleepers c)" by simp
  have set: "set ?h = set (?e # sleepers c)" using mset_eq_setD [OF m] .
  have "next_future c \<notin> future_of ` set (sleepers c)"
    using assms by (force simp: clock_wf_def)
  then have "distinct (map future_of ?h)"
    using mset_eq_imp_distinct_iff [OF mset_map_eq [OF m, of future_of]] assms by (simp add: clock_wf_def)
  moreover have "is_heap ?h" using assms by (simp add: clock_wf_def is_heap_heappush)
  moreover have "\<forall>e \<in> set ?h. now_time c < deadline_of e"
    using False assms unfolding set by (simp add: clock_wf_def)
  moreover have "\<forall>e \<in> set ?h. fst (snd e) < Suc (counter c) \<and> future_of e < Suc (next_future c)"
    using assms unfolding set by (auto simp: clock_wf_def)
  ultimately show ?thesis
    using False by (simp add: clock_wf_def sleep_def Let_def)
qed

lemma clock_wf_cancel: "clock_wf c \<Longrightarrow> clock_wf (cancel_future f c)"
  by (simp add: clock_wf_def cancel_future_def)

lemma clock_wf_drop_cancelled:
  "clock_wf c \<Longrightarrow> clock_wf (c\<lparr>sleepers := drop_cancelled fs (sleepers c)\<rparr>)"
  by (rule clock_wf_shrink) (simp_all add: drop_cancelled_facts clock_wf_def)

lemma advance_to_spec:
  assumes "clock_wf c" "now_time c \<le> target"
  obtains c' where "advance_to c target = Inr (c'\<lparr>now_time := target\<rparr>, length (due c target))"
    and "woken_by target c 0 c' (length (due c target))"
    and "clock_wf (c'\<lparr>now_time := target\<rparr>)"
proof -
  obtain c' w where loop: "wake_loop target c 0 = (c', w)" by fastforce
  with wake_loop_spec [of c target 0] assms(1) have w: "woken_by target c 0 c' w"
    by (simp add: clock_wf_def)
  then have sub: "mset (sleepers c') \<subseteq># mset (sleepers c)" by (simp add: woken_by_def)
  have deadlines: "target < deadline_of e" if "e \<in> set (sleepers c')" for e
  proof -
    from w that have "e \<in># filter_mset (\<lambda>e. target < deadline_of e) (mset (sleepers c))"
      by (metis woken_by_def set_mset_mset)
    then show ?thesis by simp
  qed
  have "set (sleepers c') \<subseteq> set (sleepers c)" using set_mset_mono [OF sub] by simp
  with assms(1) have
    "\<forall>e \<in> set (sleepers c'). fst (snd e) < counter c \<and> future_of e < next_future c"
    unfolding clock_wf_def by blast
  then have "clock_wf (c'\<lparr>now_time := target\<rparr>)"
    using w assms(1) deadlines distinct_map_subseteq_mset [OF sub, of future_of]
    by (simp add: clock_wf_def woken_by_def)
  with w loop assms(2) that show thesis
    by (auto simp: advance_to_def woken_by_def)
qed

subsection \<open>Runs of the clock\<close>

inductive clock_step :: "sim_clock \<Rightarrow> sim_clock \<Rightarrow> bool" where
  sleep: "clock_step c (fst (sleep c delay))"
| cancel: "clock_step c (cancel_future f c)"
| has_pending: "clock_step c (fst (has_pending_sleepers c))"
| next_deadline: "clock_step c (fst (next_deadline c))"
| advance: "advance c d = Inr (c', n) \<Longrightarrow> clock_step c c'"
| advance_to: "advance_to c t = Inr (c', n) \<Longrightarrow> clock_step c c'"
| step: "step c = Inr (c', r) \<Longrightarrow> clock_step c c'"

inductive clock_reachable :: "real \<Rightarrow> sim_clock \<Rightarrow> bool" for t0 where
  start: "clock_reachable t0 (init_clock t0)"
| move: "clock_reachable t0 c \<Longrightarrow> clock_step c c' \<Longrightarrow> clock_reachable t0 c'"

lemma advance_to_wf:
  assumes "clock_wf c" "advance_to c t = Inr (c', n)"
  shows "clock_wf c' \<and> now_time c \<le> now_time c' \<and> now_time c' = t"
proof -
  from assms(2) have "now_time c \<le> t" by (auto simp: advance_to_def split: if_splits)
  moreover obtain c1 where "advance_to c t = Inr (c1\<lparr>now_time := t\<rparr>, length (due c t))"
    and "clock_wf (c1\<lparr>now_time := t\<rparr>)"
    using advance_to_spec [OF assms(1) calculation] .
  ultimately show ?thesis using assms(2) by simp
qed

lemma step_wf:
  assumes "clock_wf c" "step c = Inr (c', r)"
  shows "clock_wf c' \<and> now_time c \<le> now_time c'"
proof -
  let ?c = "c\<lparr>sleepers := drop_cancelled (futures c) (sleepers c)\<rparr>"
  have "clock_wf ?c" using assms(1) by (rule clock_wf_drop_cancelled)
  then show ?thesis
  proof (cases "sleepers ?c = []")
    case True
    with \<open>clock_wf ?c\<close> assms(2) show ?thesis by (auto simp: step_def)
  next
    case False
    with assms(2) obtain n where "advance_to ?c (deadline_of (sleepers ?c ! 0)) = Inr (c', n)"
      by (auto simp: step_def Let_def split: sum.splits)
    from advance_to_wf [OF \<open>clock_wf ?c\<close> this] show ?thesis by simp
  qed
qed

lemma clock_step_wf:
  "clock_step c c' \<Longrightarrow> clock_wf c \<Longrightarrow> clock_wf c' \<and> now_time c \<le> now_time c'"
proof (induction rule: clock_step.induct)
  case (sleep c delay)
  then show ?case using clock_wf_sleep [of c delay]
    by (simp add: sleep_def set_result_def Let_def)
next
  case (cancel c f)
  then show ?case using clock_wf_cancel by (simp add: cancel_future_def)
next
  case (has_pending c)
  then show ?case by (simp add: has_pending_sleepers_def Let_def clock_wf_drop_cancelled)
next
  case (next_deadline c)
  then show ?case by (simp add: next_deadline_def Let_def clock_wf_drop_cancelled)
next
  case (advance c d c' n)
  then show ?case using advance_to_wf by (auto simp: advance_def split: if_splits)
next
  case (advance_to c t c' n)
  then show ?case using advance_to_wf by auto
next
  case (step c c' r)
  then show ?case using step_wf by auto
qed

text \<open>
  In every state reachable from a fresh \<^verbatim>\<open>SimClock\<close> the sleeper list is a heap whose
  entries wait for different futures and whose deadlines all lie after the current time, so
  virtual time never moves backwards.
\<close>

theorem sim_clock_invariant:
  "clock_reachable t0 c \<Longrightarrow> clock_wf c \<and> t0 \<le> now_time c"
proof (induction rule: clock_reachable.induct)
  case start
  show ?case by (simp add: clock_wf_init) (simp add: init_clock_def)
next
  case (move c c')
  then show ?case using clock_step_wf by fastforce
qed

theorem sim_clock_invariant_witness:
  "clock_wf (fst (sleep (init_clock 5) 2)) \<and> 5 \<le> now_time (fst (sleep (init_clock 5) 2))"
  by (rule sim_clock_invariant, rule clock_reachable.move, rule clock_reachable.start,
      rule clock_step.sleep)

text \<open>
  \<^verbatim>\<open>advance_to\<close> to a time that is not in the past returns the number of sleepers whose
  deadline has arrived and whose future is still pending, resumes exactly these in deadline
  order (ties in the order of the \<^verbatim>\<open>sleep\<close> calls), leaves exactly the sleepers with a later
  deadline in the heap, and sets the clock to the target.
\<close>

theorem advance_to_wakes_due:
  assumes "clock_wf c" "now_time c \<le> target"
  shows "\<exists>c'. advance_to c target = Inr (c', length (due c target)) \<and>
      now_time c' = target \<and>
      ready c' = ready c @ map future_of (due c target) \<and>
      sorted (due c target) \<and>
      set (due c target)
        = {e \<in> set (sleepers c). deadline_of e \<le> target \<and> futures c (future_of e) = Pending} \<and>
      set (sleepers c') = {e \<in> set (sleepers c). target < deadline_of e} \<and>
      (\<forall>f. futures c' f = (if f \<in> future_of ` set (due c target) then Done else futures c f))"
proof -
  obtain c' where c': "advance_to c target = Inr (c'\<lparr>now_time := target\<rparr>, length (due c target))"
    "woken_by target c 0 c' (length (due c target))"
    using advance_to_spec [OF assms] .
  have "set (sleepers c') = {e \<in> set (sleepers c). target < deadline_of e}"
    using c'(2) by (metis woken_by_def set_mset_filter set_mset_mset)
  moreover have "sorted (due c target)" by (simp add: due_def sorted_wrt_filter)
  moreover have "set (due c target)
      = {e \<in> set (sleepers c). deadline_of e \<le> target \<and> futures c (future_of e) = Pending}"
    by (auto simp: due_def)
  ultimately show ?thesis
    using c' by (intro exI [of _ "c'\<lparr>now_time := target\<rparr>"]) (simp add: woken_by_def)
qed

definition two_sleepers :: sim_clock where
  "two_sleepers = fst (sleep (fst (sleep (init_clock 0) 3)) 1)"

theorem advance_to_wakes_due_witness:
  "\<exists>c'. advance_to two_sleepers 2 = Inr (c', 1) \<and> ready c' = [1] \<and> now_time c' = 2"
proof -
  have wf: "clock_wf two_sleepers"
    by (simp add: two_sleepers_def clock_wf_sleep clock_wf_init)
  have "due two_sleepers 2 = [(1, 1, 1)]" and r: "ready two_sleepers = []"
    by (simp_all add: two_sleepers_def sleep_def init_clock_def due_def heappush_def siftdown_def
        siftdown_loop.simps Let_def)
  with advance_to_wakes_due [OF wf, of 2] show ?thesis
    by (auto simp: two_sleepers_def sleep_def init_clock_def)
qed

text \<open>
  \<^verbatim>\<open>step\<close> moves the clock to the earliest deadline among the sleepers that were not
  cancelled and returns it; with no such sleeper it returns \<^verbatim>\<open>None\<close> and time stands still.
\<close>

theorem step_earliest_deadline:
  assumes "clock_wf c"
  defines "live \<equiv> {e \<in> set (sleepers c). futures c (future_of e) \<noteq> Cancelled}"
  shows "if live = {} then \<exists>c'. step c = Inr (c', None) \<and> now_time c' = now_time c
         else \<exists>c'. step c = Inr (c', Some (Min (deadline_of ` live))) \<and>
                   now_time c' = Min (deadline_of ` live)"
proof -
  let ?h = "drop_cancelled (futures c) (sleepers c)"
  let ?c = "c\<lparr>sleepers := ?h\<rparr>"
  have hp: "is_heap (sleepers c)" using assms(1) by (simp add: clock_wf_def)
  note facts = drop_cancelled_facts [OF hp, of "futures c"]
  have live: "live = {e \<in> set ?h. futures c (future_of e) \<noteq> Cancelled}"
    using arg_cong [OF facts(3), of set_mset] by (simp add: live_def)
  show ?thesis
  proof (cases "?h = []")
    case True
    with live show ?thesis by (simp add: step_def)
  next
    case False
    then have root: "?h ! 0 \<in> live" using facts(4) live by simp
    have "deadline_of (?h ! 0) \<le> deadline_of e" if "e \<in> live" for e
      using is_heap_root [OF facts(1)] that live
      by (auto simp: in_set_conv_nth intro: fst_le_lex)
    then have m: "Min (deadline_of ` live) = deadline_of (?h ! 0)"
      using root live by (intro Min_eqI) auto
    have wf: "clock_wf ?c" using assms(1) by (rule clock_wf_drop_cancelled)
    moreover have "?h ! 0 \<in> set ?h" using False by simp
    ultimately have "now_time ?c \<le> deadline_of (?h ! 0)"
      by (simp add: clock_wf_def less_imp_le)
    then obtain c' where "advance_to ?c (deadline_of (?h ! 0))
        = Inr (c'\<lparr>now_time := deadline_of (?h ! 0)\<rparr>, length (due ?c (deadline_of (?h ! 0))))"
      using advance_to_spec [OF wf] by metis
    then have "\<exists>c'. step c = Inr (c', Some (deadline_of (?h ! 0)))
        \<and> now_time c' = deadline_of (?h ! 0)"
      using False by (simp add: step_def Let_def)
    with root show ?thesis by (auto simp: m)
  qed
qed

theorem step_earliest_deadline_witness:
  "\<exists>c'. step two_sleepers = Inr (c', Some 1) \<and> now_time c' = 1"
proof -
  have wf: "clock_wf two_sleepers"
    by (simp add: two_sleepers_def clock_wf_sleep clock_wf_init)
  have "{e \<in> set (sleepers two_sleepers). futures two_sleepers (future_of e) \<noteq> Cancelled}
      = {(1, 1, 1), (3, 0, 0)}"
    by (auto simp: two_sleepers_def sleep_def init_clock_def heappush_def siftdown_def
        siftdown_loop.simps Let_def)
  with step_earliest_deadline [OF wf] show ?thesis by simp
qed

end
