(* ===== verification/Backpressure_Queue.thy ===== *)
theory Backpressure_Queue
  imports Heapq
begin

section \<open>The priority queue (peerq/queue.py)\<close>

text \<open>
  \<^verbatim>\<open>BackpressurePriorityQueue\<close>: a heap of entries ordered by negated priority and sequence
  number, a capacity policy, and the \<^verbatim>\<open>asyncio.Condition\<close> on which producers and consumers
  wait. A coroutine inside \<^verbatim>\<open>put\<close> or \<^verbatim>\<open>get\<close> is a value of type \<open>coro\<close>; \<open>cond_waiters\<close> is the
  waiter list of the condition, \<open>notified\<close> the coroutines that were notified and have not run
  yet, \<open>pending_notify\<close> the number of scheduled \<^verbatim>\<open>_async_notify\<close> tasks.
\<close>

datatype queue_policy = REJECT_ON_FULL | BLOCK_ON_FULL

datatype 'a prioritized_item =
  PrioritizedItem (priority_neg: int) (seq: nat) (item: 'a)

text \<open>\<^verbatim>\<open>@dataclass(order=True)\<close> compares the fields as a tuple.\<close>

instantiation prioritized_item :: (linorder) linorder
begin

definition less_eq_prioritized_item :: "'a prioritized_item \<Rightarrow> 'a prioritized_item \<Rightarrow> bool" where
  "a \<le> b \<longleftrightarrow> (priority_neg a, seq a, item a) \<le> (priority_neg b, seq b, item b)"

definition less_prioritized_item :: "'a prioritized_item \<Rightarrow> 'a prioritized_item \<Rightarrow> bool" where
  "a < b \<longleftrightarrow> (priority_neg a, seq a, item a) < (priority_neg b, seq b, item b)"

instance
  by standard
     (auto simp: less_eq_prioritized_item_def less_prioritized_item_def
        intro: prioritized_item.expand)

end

datatype 'a coro = Getter nat | Putter nat 'a int

record 'a bp_queue =
  maxsize :: int
  policy :: queue_policy
  q_heap :: "'a prioritized_item list"
  next_seq :: nat
  cond_locked :: bool
  loop_running :: bool
  cond_waiters :: "'a coro list"
  notified :: "'a coro list"
  pending_notify :: nat

definition init_queue :: "int \<Rightarrow> queue_policy \<Rightarrow> 'a bp_queue" where
  "init_queue n p =
     \<lparr>maxsize = n, policy = p, q_heap = [], next_seq = 0, cond_locked = False,
      loop_running = True, cond_waiters = [], notified = [], pending_notify = 0\<rparr>"

definition qsize :: "'a bp_queue \<Rightarrow> nat" where
  "qsize q = length (q_heap q)"

definition empty_queue :: "'a bp_queue \<Rightarrow> bool" where
  "empty_queue q \<longleftrightarrow> length (q_heap q) = 0"

definition full :: "'a bp_queue \<Rightarrow> bool" where
  "full q = (if maxsize q \<le> 0 then False else maxsize q \<le> int (length (q_heap q)))"

text \<open>\<^verbatim>\<open>Condition.notify()\<close>: the longest waiting coroutine becomes runnable.\<close>

definition notify :: "'a bp_queue \<Rightarrow> 'a bp_queue" where
  "notify q =
     (case cond_waiters q of
        [] \<Rightarrow> q
      | w # ws \<Rightarrow> q\<lparr>cond_waiters := ws, notified := notified q @ [w]\<rparr>)"

text \<open>
  \<^verbatim>\<open>_notify_condition\<close>: notify at once when the condition's lock is held, otherwise schedule
  the task \<^verbatim>\<open>_async_notify\<close>; without a running loop \<^verbatim>\<open>get_running_loop\<close> raises and nothing
  happens.
\<close>

definition notify_condition :: "'a bp_queue \<Rightarrow> 'a bp_queue" where
  "notify_condition q =
     (if cond_locked q then notify q
      else if loop_running q then q\<lparr>pending_notify := Suc (pending_notify q)\<rparr>
      else q)"

definition async_notify :: "'a bp_queue \<Rightarrow> 'a bp_queue" where
  "async_notify q = notify q"

definition push_entry :: "'a::linorder bp_queue \<Rightarrow> 'a \<Rightarrow> int \<Rightarrow> 'a bp_queue" where
  "push_entry q x priority =
     q\<lparr>q_heap := heappush (q_heap q) (PrioritizedItem (- priority) (next_seq q) x),
       next_seq := Suc (next_seq q)\<rparr>"

definition put_nowait :: "'a::linorder bp_queue \<Rightarrow> 'a \<Rightarrow> int \<Rightarrow> 'a bp_queue result" where
  "put_nowait q x priority =
     (if full q then Inl QueueFull else Inr (notify_condition (push_entry q x priority)))"

text \<open>
  \<^verbatim>\<open>put\<close> from its entry, or from a return of \<^verbatim>\<open>wait()\<close>, to its next suspension or its end:
  the flag says whether the coroutine has finished.
\<close>

definition put :: "'a::linorder bp_queue \<Rightarrow> nat \<Rightarrow> 'a \<Rightarrow> int \<Rightarrow> ('a bp_queue \<times> bool) result" where
  "put q i x priority =
     (if policy q = REJECT_ON_FULL \<and> full q then Inl QueueFull
      else if policy q \<noteq> REJECT_ON_FULL \<and> full q
      then Inr (q\<lparr>cond_waiters := cond_waiters q @ [Putter i x priority]\<rparr>, False)
      else Inr (notify (push_entry q x priority), True))"

definition get_nowait :: "'a::linorder bp_queue \<Rightarrow> ((int \<times> 'a) \<times> 'a bp_queue) result" where
  "get_nowait q =
     (case heappop (q_heap q) of
        None \<Rightarrow> Inl QueueEmpty
      | Some (entry, h') \<Rightarrow>
          Inr ((- priority_neg entry, item entry), notify_condition (q\<lparr>q_heap := h'\<rparr>)))"

text \<open>\<^verbatim>\<open>get\<close> up to its next suspension (\<open>None\<close>) or its return.\<close>

definition get :: "'a::linorder bp_queue \<Rightarrow> nat \<Rightarrow> (int \<times> 'a) option \<times> 'a bp_queue" where
  "get q i =
     (case heappop (q_heap q) of
        None \<Rightarrow> (None, q\<lparr>cond_waiters := cond_waiters q @ [Getter i]\<rparr>)
      | Some (entry, h') \<Rightarrow>
          (Some (- priority_neg entry, item entry), notify (q\<lparr>q_heap := h'\<rparr>)))"

definition peek :: "'a bp_queue \<Rightarrow> (int \<times> 'a) option" where
  "peek q =
     (case q_heap q of
        [] \<Rightarrow> None
      | entry # _ \<Rightarrow> Some (- priority_neg entry, item entry))"

text \<open>A notified coroutine runs again from its \<^verbatim>\<open>wait()\<close>.\<close>

definition resume :: "'a::linorder bp_queue \<Rightarrow> 'a bp_queue" where
  "resume q =
     (case notified q of
        [] \<Rightarrow> q
      | Getter i # ws \<Rightarrow> snd (get (q\<lparr>notified := ws\<rparr>) i)
      | Putter i x p # ws \<Rightarrow>
          (case put (q\<lparr>notified := ws\<rparr>) i x p of Inl _ \<Rightarrow> q\<lparr>notified := ws\<rparr> | Inr (q', _) \<Rightarrow> q'))"

definition run_notify_task :: "'a bp_queue \<Rightarrow> 'a bp_queue" where
  "run_notify_task q =
     (case pending_notify q of
        0 \<Rightarrow> q
      | Suc n \<Rightarrow> async_notify (q\<lparr>pending_notify := n\<rparr>))"

subsection \<open>The interface a client relies on\<close>

text \<open>
  The promise of the queue: its contents, in the order in which they will be delivered, are a
  list of priorities and items. A successful \<open>put\<close> adds the item at the end and sorts by
  descending priority; the sort is stable, so equal priorities stay in arrival order.
\<close>

locale priority_fifo =
  fixes put_op :: "'q \<Rightarrow> 'a \<Rightarrow> int \<Rightarrow> 'q result"
    and get_op :: "'q \<Rightarrow> ((int \<times> 'a) \<times> 'q) result"
    and contents :: "'q \<Rightarrow> (int \<times> 'a) list"
    and invar :: "'q \<Rightarrow> bool"
  assumes contents_put: "invar q \<Longrightarrow> put_op q x p = Inr q' \<Longrightarrow>
      contents q' = sort_key (\<lambda>e. - fst e) (contents q @ [(p, x)])"
    and invar_put: "invar q \<Longrightarrow> put_op q x p = Inr q' \<Longrightarrow> invar q'"
    and contents_get: "invar q \<Longrightarrow> get_op q = Inr (e, q') \<Longrightarrow> contents q = e # contents q'"
    and invar_get: "invar q \<Longrightarrow> get_op q = Inr (e, q') \<Longrightarrow> invar q'"
    and contents_sorted: "invar q \<Longrightarrow> sorted (map (\<lambda>e. - fst e) (contents q))"
    and get_fails: "invar q \<Longrightarrow> (\<exists>err. get_op q = Inl err) \<longleftrightarrow> contents q = []"
begin

fun puts :: "'q \<Rightarrow> (int \<times> 'a) list \<Rightarrow> 'q result" where
  "puts q [] = Inr q"
| "puts q ((p, x) # xs) = (case put_op q x p of Inl e \<Rightarrow> Inl e | Inr q' \<Rightarrow> puts q' xs)"

fun drain :: "nat \<Rightarrow> 'q \<Rightarrow> (int \<times> 'a) list" where
  "drain 0 q = []"
| "drain (Suc n) q = (case get_op q of Inl _ \<Rightarrow> [] | Inr (e, q') \<Rightarrow> e # drain n q')"

lemma drain_contents: "invar q \<Longrightarrow> drain n q = take n (contents q)"
proof (induction n arbitrary: q)
  case (Suc n)
  show ?case
  proof (cases "get_op q")
    case (Inl e)
    with Suc.prems get_fails have "contents q = []" by blast
    with Inl show ?thesis by simp
  next
    case (Inr r)
    then obtain e q' where get: "get_op q = Inr (e, q')" by (cases r) simp
    with Suc invar_get contents_get show ?thesis by simp
  qed
qed simp

lemma contents_puts:
  "invar q \<Longrightarrow> puts q ps = Inr q' \<Longrightarrow>
   invar q' \<and> contents q' = sort_key (\<lambda>e. - fst e) (contents q @ ps)"
proof (induction ps arbitrary: q)
  case Nil
  then show ?case using contents_sorted by (simp add: sort_key_id_if_sorted)
next
  case (Cons e ps)
  obtain p x where e: "e = (p, x)" by fastforce
  with Cons.prems obtain q1 where q1: "put_op q x p = Inr q1" "puts q1 ps = Inr q'"
    by (auto split: sum.splits)
  then have "invar q1" "contents q1 = sort_key (\<lambda>e. - fst e) (contents q @ [e])"
    using Cons.prems invar_put contents_put e by auto
  then show ?case
    using Cons.IH [of q1] q1 sort_key_absorb [of "\<lambda>e. - fst e" "contents q @ [e]" ps] by simp
qed

text \<open>
  Items put into the queue and then taken out arrive by descending priority, in arrival order
  among equal priorities.
\<close>

lemma drain_after_puts:
  assumes "invar q" "puts q ps = Inr q'" "length (contents q) + length ps \<le> n"
  shows "drain n q' = sort_key (\<lambda>e. - fst e) (contents q @ ps)"
  using contents_puts [OF assms(1,2)] drain_contents [of q' n] assms(3) by simp

end

subsection \<open>The implementation keeps the promise\<close>

definition queue_contents :: "'a::linorder bp_queue \<Rightarrow> (int \<times> 'a) list" where
  "queue_contents q = map (\<lambda>e. (- priority_neg e, item e)) (sort (q_heap q))"

definition queue_wf :: "'a::linorder bp_queue \<Rightarrow> bool" where
  "queue_wf q \<longleftrightarrow>
     is_heap (q_heap q) \<and> distinct (map seq (q_heap q)) \<and>
     (\<forall>e \<in> set (q_heap q). seq e < next_seq q) \<and>
     (0 < maxsize q \<longrightarrow> int (length (q_heap q)) \<le> maxsize q)"

lemma notify_simps [simp]:
  "maxsize (notify q) = maxsize q" "policy (notify q) = policy q"
  "q_heap (notify q) = q_heap q" "next_seq (notify q) = next_seq q"
  "loop_running (notify q) = loop_running q" "pending_notify (notify q) = pending_notify q"
  "cond_locked (notify q) = cond_locked q"
  by (simp_all add: notify_def split: list.splits)

lemma notify_condition_simps [simp]:
  "maxsize (notify_condition q) = maxsize q" "policy (notify_condition q) = policy q"
  "q_heap (notify_condition q) = q_heap q" "next_seq (notify_condition q) = next_seq q"
  "loop_running (notify_condition q) = loop_running q"
  "cond_locked (notify_condition q) = cond_locked q"
  by (simp_all add: notify_condition_def)

lemma push_entry_simps [simp]:
  "maxsize (push_entry q x p) = maxsize q" "policy (push_entry q x p) = policy q"
  "next_seq (push_entry q x p) = Suc (next_seq q)"
  "loop_running (push_entry q x p) = loop_running q"
  "cond_locked (push_entry q x p) = cond_locked q"
  "cond_waiters (push_entry q x p) = cond_waiters q" "notified (push_entry q x p) = notified q"
  "pending_notify (push_entry q x p) = pending_notify q"
  "length (q_heap (push_entry q x p)) = Suc (length (q_heap q))"
  by (simp_all add: push_entry_def)

lemma queue_wf_cong:
  "q_heap q = q_heap q' \<Longrightarrow> next_seq q = next_seq q' \<Longrightarrow> maxsize q = maxsize q' \<Longrightarrow>
   queue_wf q = queue_wf q'"
  by (simp add: queue_wf_def)

lemma queue_wf_notify [simp]:
  "queue_wf (notify q) = queue_wf q" "queue_wf (notify_condition q) = queue_wf q"
  by (rule queue_wf_cong; simp)+

lemma queue_contents_notify [simp]:
  "queue_contents (notify q) = queue_contents q"
  "queue_contents (notify_condition q) = queue_contents q"
  by (simp_all add: queue_contents_def)

lemma mset_push_entry:
  "mset (q_heap (push_entry q x p))
     = mset (PrioritizedItem (- p) (next_seq q) x # q_heap q)"
  by (simp add: push_entry_def)

lemma queue_wf_push_entry:
  assumes "queue_wf q" "\<not> full q"
  shows "queue_wf (push_entry q x p)"
proof -
  note m = mset_push_entry [of q x p]
  have "next_seq q \<notin> seq ` set (q_heap q)"
    using assms(1) by (auto simp: queue_wf_def)
  then have "distinct (map seq (q_heap (push_entry q x p)))"
    using mset_eq_imp_distinct_iff [of "map seq (q_heap (push_entry q x p))"
        "map seq (PrioritizedItem (- p) (next_seq q) x # q_heap q)"] m assms(1)
    by (simp add: queue_wf_def)
  moreover have "\<forall>e \<in> set (q_heap (push_entry q x p)). seq e < Suc (next_seq q)"
    using mset_eq_setD [OF m] assms(1) by (auto simp: queue_wf_def less_Suc_eq)
  moreover have "is_heap (q_heap (push_entry q x p))"
    using assms(1) by (simp add: push_entry_def queue_wf_def is_heap_heappush)
  ultimately show ?thesis
    using assms by (auto simp: queue_wf_def full_def split: if_splits)
qed

lemma sort_cong_mset: "mset xs = mset ys \<Longrightarrow> sort xs = sort (ys :: 'a::linorder list)"
  by (metis sorted_list_of_multiset_mset)

lemma insort_last_seq:
  assumes "sorted xs" "\<forall>y \<in> set xs. seq y < seq e"
  shows "map (\<lambda>e. (- priority_neg e, item e)) (insort e xs)
    = sort_key (\<lambda>e. - fst e) (map (\<lambda>e. (- priority_neg e, item e)) xs @ [(- priority_neg e, item e)])"
    (is "map ?g _ = _")
  using assms
proof (induction xs)
  case (Cons x xs)
  then have IH: "map ?g (insort e xs) = sort_key (\<lambda>e. - fst e) (map ?g xs @ [?g e])" by simp
  have least: "\<forall>y \<in> set xs. priority_neg x \<le> priority_neg y"
    using Cons.prems(1) by (auto simp: less_eq_prioritized_item_def)
  have lt: "e \<le> x \<longleftrightarrow> priority_neg e < priority_neg x"
    using Cons.prems(2) by (auto simp: less_eq_prioritized_item_def)
  show ?case
  proof (cases "e \<le> x")
    case True
    then have "insort e xs = e # xs"
      using Cons.prems(1) by (intro insort_is_Cons) auto
    moreover have "insort_key (\<lambda>e. - fst e) (?g x) (map ?g xs) = ?g x # map ?g xs"
      using least by (intro insort_is_Cons) auto
    ultimately show ?thesis using IH True lt by (simp add: IH [symmetric])
  next
    case False
    have "insort_key (\<lambda>e. - fst e) (?g x) (map ?g (insort e xs)) = ?g x # map ?g (insort e xs)"
      using least False lt by (intro insort_is_Cons) (auto simp: set_insort_key)
    with False show ?thesis by (simp add: IH [symmetric])
  qed
qed simp

lemma queue_contents_push:
  assumes "queue_wf q"
  shows "queue_contents (push_entry q x p) = sort_key (\<lambda>e. - fst e) (queue_contents q @ [(p, x)])"
proof -
  let ?e = "PrioritizedItem (- p) (next_seq q) x"
  have "sort (q_heap (push_entry q x p)) = insort ?e (sort (q_heap q))"
    using sort_cong_mset [OF mset_push_entry [of q x p]] by simp
  with insort_last_seq [of "sort (q_heap q)" ?e] assms show ?thesis
    by (simp add: queue_contents_def queue_wf_def)
qed

lemma queue_pop:
  assumes "queue_wf q" "heappop (q_heap q) = Some (e, h')"
  shows "queue_wf (q\<lparr>q_heap := h'\<rparr>)"
    and "queue_contents q = (- priority_neg e, item e) # queue_contents (q\<lparr>q_heap := h'\<rparr>)"
proof -
  have m: "mset (q_heap q) = mset (e # h')" using mset_heappop [OF assms(2)] by simp
  have "distinct (map seq (e # h'))"
    using mset_eq_imp_distinct_iff [of "map seq (q_heap q)" "map seq (e # h')"] m assms(1)
    by (simp add: queue_wf_def)
  with assms mset_eq_setD [OF m] length_heappop [OF assms(2)]
  show "queue_wf (q\<lparr>q_heap := h'\<rparr>)"
    by (auto simp: queue_wf_def hq.invar_pop)
  show "queue_contents q = (- priority_neg e, item e) # queue_contents (q\<lparr>q_heap := h'\<rparr>)"
    using hq.pop_sorted [OF _ assms(2)] assms(1) by (simp add: queue_contents_def queue_wf_def)
qed

interpretation bq: priority_fifo put_nowait get_nowait queue_contents queue_wf
proof
  fix q q' :: "'a bp_queue" and x p and e :: "int \<times> 'a"
  assume wf: "queue_wf q"
  {
    assume put: "put_nowait q x p = Inr q'"
    then show "queue_contents q' = sort_key (\<lambda>e. - fst e) (queue_contents q @ [(p, x)])"
      using wf by (auto simp: put_nowait_def queue_contents_push split: if_splits)
    from put wf show "queue_wf q'"
      by (auto simp: put_nowait_def queue_wf_push_entry split: if_splits)
  next
    assume get: "get_nowait q = Inr (e, q')"
    then show "queue_contents q = e # queue_contents q'" "queue_wf q'"
      using queue_pop [OF wf] by (auto simp: get_nowait_def split: option.splits)
  next
    have "sorted (map priority_neg (sort (q_heap q)))"
      by (rule sorted_map_mono [OF sorted_sort]) (auto simp: mono_on_def less_eq_prioritized_item_def)
    then show "sorted (map (\<lambda>e. - fst e) (queue_contents q))"
      by (simp add: queue_contents_def comp_def)
  next
    show "(\<exists>err. get_nowait q = Inl err) = (queue_contents q = [])"
      by (auto simp: get_nowait_def queue_contents_def split: option.splits
          dest!: arg_cong [of _ _ length])
  }
qed

fun put_all :: "'a::linorder bp_queue \<Rightarrow> (int \<times> 'a) list \<Rightarrow> 'a bp_queue result" where
  "put_all q [] = Inr q"
| "put_all q ((p, x) # xs) = (case put_nowait q x p of Inl e \<Rightarrow> Inl e | Inr q' \<Rightarrow> put_all q' xs)"

fun drain_queue :: "nat \<Rightarrow> 'a::linorder bp_queue \<Rightarrow> (int \<times> 'a) list" where
  "drain_queue 0 q = []"
| "drain_queue (Suc n) q = (case get_nowait q of Inl _ \<Rightarrow> [] | Inr (e, q') \<Rightarrow> e # drain_queue n q')"

lemma put_all_eq: "put_all q ps = bq.puts q ps"
  by (induction q ps rule: put_all.induct) (auto split: sum.splits)

lemma drain_queue_eq: "drain_queue n q = bq.drain n q"
  by (induction n q rule: drain_queue.induct) (auto split: sum.splits)

text \<open>
  C35: Items put into the queue and then taken out until it is empty come out by descending
  priority, and items of equal priority in the order in which they were put (the stable sort of
  what the queue held followed by what was put).
\<close>

theorem queue_delivers_by_priority:
  assumes "queue_wf q" "put_all q ps = Inr q'"
  shows "drain_queue (qsize q') q' = sort_key (\<lambda>e. - fst e) (queue_contents q @ ps)"
proof -
  have "bq.puts q ps = Inr q'" using assms(2) by (simp add: put_all_eq)
  note facts = bq.contents_puts [OF assms(1) this] bq.drain_contents [of q' "qsize q'"]
  have "length (queue_contents q') = qsize q'" by (simp add: queue_contents_def qsize_def)
  with facts show ?thesis by (simp add: drain_queue_eq del: length_sort length_append)
qed

theorem queue_delivers_by_priority_witness:
  "\<exists>q'. put_all (init_queue 0 REJECT_ON_FULL) [(1, ''a''), (5, ''b''), (1, ''c''), (5, ''d'')] = Inr q' \<and>
     drain_queue (qsize q') q' = [(5, ''b''), (5, ''d''), (1, ''a''), (1, ''c'')]"
proof -
  let ?q = "init_queue 0 REJECT_ON_FULL :: string bp_queue"
  let ?ps = "[(1, ''a''), (5, ''b''), (1, ''c''), (5, ''d'')] :: (int \<times> string) list"
  have wf: "queue_wf ?q" and c: "queue_contents ?q = []"
    by (simp_all add: queue_wf_def init_queue_def queue_contents_def)
  obtain q' where q': "put_all ?q ?ps = Inr q'"
    by (simp add: put_nowait_def full_def init_queue_def)
  from queue_delivers_by_priority [OF wf q'] q' c show ?thesis by (intro exI [of _ q']) simp
qed

subsection \<open>Coroutines waiting on the condition\<close>

text \<open>
  One step of the system: a synchronous call, a coroutine entering \<^verbatim>\<open>put\<close> or \<^verbatim>\<open>get\<close>, a
  notified coroutine running on, or the loop running a scheduled notification.
\<close>

inductive queue_step :: "'a::linorder bp_queue \<Rightarrow> 'a bp_queue \<Rightarrow> bool" where
  put_now: "put_nowait q x p = Inr q' \<Longrightarrow> queue_step q q'"
| get_now: "get_nowait q = Inr (e, q') \<Longrightarrow> queue_step q q'"
| put_call: "put q i x p = Inr (q', b) \<Longrightarrow> queue_step q q'"
| get_call: "queue_step q (snd (get q i))"
| run: "queue_step q (resume q)"
| notify_task: "queue_step q (run_notify_task q)"

inductive queue_reachable :: "int \<Rightarrow> queue_policy \<Rightarrow> 'a::linorder bp_queue \<Rightarrow> bool" for n pol where
  start: "queue_reachable n pol (init_queue n pol)"
| move: "queue_reachable n pol q \<Longrightarrow> queue_step q q' \<Longrightarrow> queue_reachable n pol q'"

text \<open>Fields that no step changes, and the invariant of the heap, for each operation.\<close>

definition same_setup :: "'a bp_queue \<Rightarrow> 'a bp_queue \<Rightarrow> bool" where
  "same_setup q q' \<longleftrightarrow> maxsize q' = maxsize q \<and> policy q' = policy q \<and>
     loop_running q' = loop_running q \<and> cond_locked q' = cond_locked q"

lemma get_wf:
  assumes "queue_wf q"
  shows "queue_wf (snd (get q i)) \<and> same_setup q (snd (get q i))"
proof (cases "heappop (q_heap q)")
  case None
  with assms show ?thesis by (simp add: get_def same_setup_def queue_wf_def)
next
  case (Some r)
  with queue_pop(1) [OF assms] show ?thesis
    by (cases r) (simp add: get_def same_setup_def)
qed

lemma put_wf:
  assumes "queue_wf q" "put q i x p = Inr (q', b)"
  shows "queue_wf q' \<and> same_setup q q'"
proof (cases "full q")
  case True
  with assms show ?thesis
    by (auto simp: put_def same_setup_def queue_wf_def split: if_splits)
next
  case False
  with assms show ?thesis
    by (auto simp: put_def same_setup_def queue_wf_push_entry)
qed

lemma queue_wf_drop_notified: "queue_wf (q\<lparr>notified := ws\<rparr>) = queue_wf q"
  by (simp add: queue_wf_def)

lemma resume_wf:
  assumes "queue_wf q"
  shows "queue_wf (resume q) \<and> same_setup q (resume q)"
proof (cases "notified q")
  case (Cons w ws)
  let ?q = "q\<lparr>notified := ws\<rparr>"
  have wf: "queue_wf ?q" using assms by (simp add: queue_wf_drop_notified)
  show ?thesis
  proof (cases w)
    case (Getter i)
    with Cons get_wf [OF wf, of i] show ?thesis by (simp add: resume_def same_setup_def)
  next
    case (Putter i x p)
    show ?thesis
    proof (cases "put ?q i x p")
      case (Inl e)
      with Cons Putter wf show ?thesis by (simp add: resume_def same_setup_def)
    next
      case (Inr r)
      with Cons Putter put_wf [OF wf, of i x p] show ?thesis
        by (cases r) (simp add: resume_def same_setup_def)
    qed
  qed
qed (simp add: resume_def same_setup_def assms)

lemma run_notify_task_wf:
  "queue_wf q \<Longrightarrow> queue_wf (run_notify_task q) \<and> same_setup q (run_notify_task q)"
  by (simp add: run_notify_task_def async_notify_def same_setup_def queue_wf_def split: nat.splits)

lemma queue_step_wf: "queue_step q q' \<Longrightarrow> queue_wf q \<Longrightarrow> queue_wf q' \<and> same_setup q q'"
proof (induction rule: queue_step.induct)
  case (put_now q x p q')
  then show ?case
    by (auto simp: put_nowait_def same_setup_def queue_wf_push_entry split: if_splits)
next
  case (get_now q e q')
  then show ?case
    by (auto simp: get_nowait_def same_setup_def queue_pop(1) split: option.splits)
qed (simp_all add: get_wf put_wf resume_wf run_notify_task_wf)

text \<open>
  In every run of the queue, whatever the interleaving of calls and coroutines, the
  sequence numbers stay distinct, the entries form a heap, and a positive \<^verbatim>\<open>maxsize\<close> is never
  exceeded under either policy.
\<close>

theorem queue_capacity_invariant:
  "queue_reachable n pol q \<Longrightarrow> queue_wf q \<and> (0 < n \<longrightarrow> int (qsize q) \<le> n)"
proof -
  assume "queue_reachable n pol q"
  then have "queue_wf q \<and> maxsize q = n"
  proof (induction rule: queue_reachable.induct)
    case start
    show ?case by (simp add: queue_wf_def init_queue_def)
  next
    case (move q q')
    then show ?case using queue_step_wf by (fastforce simp: same_setup_def)
  qed
  then show ?thesis by (auto simp: queue_wf_def qsize_def)
qed

theorem queue_capacity_invariant_witness:
  "queue_wf (notify (push_entry (init_queue 1 BLOCK_ON_FULL) (7::nat) 0)) \<and>
   int (qsize (notify (push_entry (init_queue 1 BLOCK_ON_FULL) (7::nat) 0))) \<le> 1"
proof -
  have "put (init_queue 1 BLOCK_ON_FULL) 0 (7::nat) 0
      = Inr (notify (push_entry (init_queue 1 BLOCK_ON_FULL) 7 0), True)"
    by (simp add: put_def full_def init_queue_def)
  then have "queue_reachable 1 BLOCK_ON_FULL (notify (push_entry (init_queue 1 BLOCK_ON_FULL) (7::nat) 0))"
    by (intro queue_reachable.move [OF queue_reachable.start] queue_step.put_call)
  from queue_capacity_invariant [OF this] show ?thesis by simp
qed

text \<open>
  Under \<^verbatim>\<open>REJECT_ON_FULL\<close> only consumers wait, and while one waits every queued item has a
  notification on its way.
\<close>

fun is_getter :: "'a coro \<Rightarrow> bool" where
  "is_getter (Getter _) = True"
| "is_getter (Putter _ _ _) = False"

definition wakeup_inv :: "'a bp_queue \<Rightarrow> bool" where
  "wakeup_inv q \<longleftrightarrow>
     policy q = REJECT_ON_FULL \<and> loop_running q \<and>
     (\<forall>w \<in> set (cond_waiters q) \<union> set (notified q). is_getter w) \<and>
     (cond_waiters q = [] \<or> length (q_heap q) \<le> length (notified q) + pending_notify q)"

lemma wakeup_inv_notify:
  assumes "policy q = REJECT_ON_FULL" "loop_running q"
    and "\<forall>w \<in> set (cond_waiters q) \<union> set (notified q). is_getter w"
    and "cond_waiters q = [] \<or> length (q_heap q) \<le> Suc (length (notified q) + pending_notify q)"
  shows "wakeup_inv (notify q)"
  using assms by (cases "cond_waiters q") (auto simp: wakeup_inv_def notify_def)

lemma wakeup_inv_notify_condition:
  assumes "policy q = REJECT_ON_FULL" "loop_running q"
    and "\<forall>w \<in> set (cond_waiters q) \<union> set (notified q). is_getter w"
    and "cond_waiters q = [] \<or> length (q_heap q) \<le> Suc (length (notified q) + pending_notify q)"
  shows "wakeup_inv (notify_condition q)"
  using assms wakeup_inv_notify [OF assms] by (simp add: notify_condition_def wakeup_inv_def)

lemma wakeup_inv_get:
  assumes "policy q = REJECT_ON_FULL" "loop_running q"
    and "\<forall>w \<in> set (cond_waiters q) \<union> set (notified q). is_getter w"
    and "cond_waiters q = [] \<or> length (q_heap q) \<le> Suc (length (notified q) + pending_notify q)"
  shows "wakeup_inv (snd (get q i))"
proof (cases "heappop (q_heap q)")
  case None
  with assms show ?thesis by (simp add: get_def wakeup_inv_def)
next
  case (Some r)
  obtain e h' where pop: "heappop (q_heap q) = Some (e, h')" using Some by (cases r) simp
  have "wakeup_inv (notify (q\<lparr>q_heap := h'\<rparr>))"
    using assms length_heappop [OF pop] by (intro wakeup_inv_notify) auto
  with pop show ?thesis by (simp add: get_def)
qed

lemma queue_step_wakeup_inv: "queue_step q q' \<Longrightarrow> wakeup_inv q \<Longrightarrow> wakeup_inv q'"
proof (induction rule: queue_step.induct)
  case (put_now q x p q')
  then have q': "q' = notify_condition (push_entry q x p)"
    by (simp add: put_nowait_def split: if_splits)
  show ?case
    unfolding q' using put_now.prems [unfolded wakeup_inv_def]
    by (intro wakeup_inv_notify_condition) simp_all
next
  case (get_now q e q')
  then obtain x h' where pop: "heappop (q_heap q) = Some (x, h')"
    and q': "q' = notify_condition (q\<lparr>q_heap := h'\<rparr>)"
    by (auto simp: get_nowait_def split: option.splits)
  show ?case
    unfolding q' using get_now.prems [unfolded wakeup_inv_def] length_heappop [OF pop]
    by (intro wakeup_inv_notify_condition) auto
next
  case (put_call q i x p q' b)
  then have q': "q' = notify (push_entry q x p)"
    by (auto simp: put_def wakeup_inv_def split: if_splits)
  show ?case
    unfolding q' using put_call.prems [unfolded wakeup_inv_def]
    by (intro wakeup_inv_notify) simp_all
next
  case (get_call q i)
  then show ?case by (intro wakeup_inv_get) (auto simp: wakeup_inv_def)
next
  case (run q)
  show ?case
  proof (cases "notified q")
    case (Cons w ws)
    with run obtain i where "w = Getter i"
      by (cases w) (auto simp: wakeup_inv_def)
    with Cons have "resume q = snd (get (q\<lparr>notified := ws\<rparr>) i)" by (simp add: resume_def)
    with Cons run.prems [unfolded wakeup_inv_def] show ?thesis
      by (simp only:) (intro wakeup_inv_get; auto)
  qed (simp add: resume_def run)
next
  case (notify_task q)
  show ?case
  proof (cases "pending_notify q")
    case (Suc n)
    then have "run_notify_task q = notify (q\<lparr>pending_notify := n\<rparr>)"
      by (simp add: run_notify_task_def async_notify_def)
    with Suc notify_task.prems [unfolded wakeup_inv_def] show ?thesis
      by (simp only:) (intro wakeup_inv_notify; auto)
  qed (simp add: run_notify_task_def notify_task)
qed

text \<open>
  C36: With the policy \<^verbatim>\<open>REJECT_ON_FULL\<close>, the one every \<^verbatim>\<open>PeerNode\<close> uses, no wakeup is lost: in
  every run, if a consumer is parked on the condition while the queue holds an item, then a
  notified consumer or a scheduled notification is on its way.
\<close>

theorem reject_policy_no_lost_wakeup:
  assumes "queue_reachable n REJECT_ON_FULL q" "cond_waiters q \<noteq> []" "\<not> empty_queue q"
  shows "notified q \<noteq> [] \<or> 0 < pending_notify q"
proof -
  from assms(1) have "wakeup_inv q"
    by (induction rule: queue_reachable.induct)
       (simp_all add: queue_step_wakeup_inv, simp add: wakeup_inv_def init_queue_def)
  then have "length (q_heap q) \<le> length (notified q) + pending_notify q"
    using assms(2) by (simp add: wakeup_inv_def)
  moreover have "0 < length (q_heap q)" using assms(3) by (simp add: empty_queue_def)
  ultimately have "0 < length (notified q) + pending_notify q" by linarith
  then show ?thesis by auto
qed

definition waiting_pair :: "nat bp_queue" where
  "waiting_pair = snd (get (snd (get (init_queue 0 REJECT_ON_FULL) 0)) 1)"

theorem reject_policy_no_lost_wakeup_witness:
  "\<exists>q. put_nowait waiting_pair 7 0 = Inr q \<and> cond_waiters q = [Getter 0, Getter 1] \<and>
       (notified q \<noteq> [] \<or> 0 < pending_notify q)"
proof -
  let ?q = "notify_condition (push_entry waiting_pair 7 0)"
  have put: "put_nowait waiting_pair 7 0 = Inr ?q"
    by (simp add: waiting_pair_def put_nowait_def get_def init_queue_def full_def)
  have w: "cond_waiters ?q = [Getter 0, Getter 1]"
    by (simp add: notify_condition_def waiting_pair_def get_def init_queue_def)
  have ne: "\<not> empty_queue ?q" by (simp add: empty_queue_def del: length_0_conv)
  have "queue_reachable 0 REJECT_ON_FULL waiting_pair"
    unfolding waiting_pair_def
    by (rule queue_reachable.move [OF queue_reachable.move [OF queue_reachable.start]];
        rule queue_step.get_call)
  then have "queue_reachable 0 REJECT_ON_FULL ?q"
    by (rule queue_reachable.move [OF _ queue_step.put_now [OF put]])
  from reject_policy_no_lost_wakeup [OF this _ ne] w put show ?thesis by auto
qed

text \<open>
  With \<^verbatim>\<open>BLOCK_ON_FULL\<close> a wakeup can be lost, because producers and consumers share one
  condition and every operation notifies a single waiter: from an empty queue of capacity one,
  two consumers and two producers reach a state in which the queue is empty, a producer and a
  consumer are both parked, and nothing is on its way to wake either of them.
\<close>

theorem block_policy_lost_wakeup:
  "\<exists>q :: nat bp_queue. queue_reachable 1 BLOCK_ON_FULL q \<and> empty_queue q \<and> \<not> full q \<and>
     cond_waiters q = [Putter 3 20 0, Getter 1] \<and> notified q = [] \<and> pending_notify q = 0"
proof -
  define q0 :: "nat bp_queue" where "q0 = init_queue 1 BLOCK_ON_FULL"
  define q2 where "q2 = snd (get (snd (get q0 0)) 1)"
  define q3 where "q3 = notify (push_entry q2 10 0)"
  define q4 where "q4 = q3\<lparr>cond_waiters := cond_waiters q3 @ [Putter 3 20 0]\<rparr>"
  define q6 where "q6 = resume (resume q4)"
  have q2: "q2 = q0\<lparr>cond_waiters := [Getter 0, Getter 1]\<rparr>"
    by (simp add: q2_def q0_def init_queue_def get_def)
  have q3: "q3 = q0\<lparr>cond_waiters := [Getter 1], notified := [Getter 0],
      q_heap := [PrioritizedItem 0 0 10], next_seq := 1\<rparr>"
    by (simp add: q3_def q2 q0_def init_queue_def push_entry_def notify_def)
  have q4: "q4 = q3\<lparr>cond_waiters := [Getter 1, Putter 3 20 0]\<rparr>"
    by (simp add: q4_def q3)
  have q5: "resume q4 = q4\<lparr>cond_waiters := [Putter 3 20 0], notified := [Getter 1], q_heap := []\<rparr>"
    by (simp add: resume_def q4 q3 get_def notify_def)
  have q6: "q6 = q4\<lparr>cond_waiters := [Putter 3 20 0, Getter 1], notified := [], q_heap := []\<rparr>"
    unfolding q6_def q5 by (simp add: resume_def get_def)
  have "queue_reachable 1 BLOCK_ON_FULL q2"
    unfolding q2_def q0_def
    by (rule queue_reachable.move [OF queue_reachable.move [OF queue_reachable.start]];
        rule queue_step.get_call)
  moreover have "put q2 2 10 0 = Inr (q3, True)"
    by (simp add: put_def full_def q3_def) (simp add: q2 q0_def init_queue_def)
  ultimately have r3: "queue_reachable 1 BLOCK_ON_FULL q3"
    by (rule queue_reachable.move [OF _ queue_step.put_call])
  have "put q3 3 20 0 = Inr (q4, False)"
    by (simp add: put_def full_def q4_def) (simp add: q3 q0_def init_queue_def)
  then have "queue_reachable 1 BLOCK_ON_FULL q4"
    by (rule queue_reachable.move [OF r3 queue_step.put_call])
  then have "queue_reachable 1 BLOCK_ON_FULL q6"
    unfolding q6_def by (intro queue_reachable.move [OF _ queue_step.run])
  then show ?thesis
    by (intro exI [of _ q6] conjI) (simp_all add: q6 q4 q3 q0_def init_queue_def empty_queue_def full_def)
qed

end
