(* ===== verification/Credit_Flow.thy ===== *)
theory Credit_Flow
  imports Prelude
begin

section \<open>Credit windows (peerq/queue.py, CreditFlowController)\<close>

text \<open>
  One send window per peer. A coroutine that finds too few credits parks on a future in the
  peer's waiter list; \<^verbatim>\<open>replenish\<close> adds credits and wakes the waiters. Futures are numbers,
  their state is the map \<open>flow_futures\<close>.
\<close>

record credit_flow =
  default_initial_credits :: int
  credits :: "(string, int) dict"
  waiters :: "(string, nat list) dict"
  flow_futures :: "nat \<Rightarrow> future_state"

definition init_flow :: "int \<Rightarrow> credit_flow" where
  "init_flow initial_credits =
     \<lparr>default_initial_credits = initial_credits, credits = [], waiters = [],
      flow_futures = (\<lambda>_. Pending)\<rparr>"

definition init_peer :: "credit_flow \<Rightarrow> string \<Rightarrow> int option \<Rightarrow> credit_flow" where
  "init_peer fc p amount_opt =
     (let amount = (case amount_opt of None \<Rightarrow> default_initial_credits fc | Some a \<Rightarrow> a);
          fc1 = fc\<lparr>credits := AList.update p amount (credits fc)\<rparr>
      in if has_key (waiters fc) p then fc1
         else fc1\<lparr>waiters := AList.update p [] (waiters fc)\<rparr>)"

definition get_credits :: "credit_flow \<Rightarrow> string \<Rightarrow> int" where
  "get_credits fc p = get_default (credits fc) p (default_initial_credits fc)"

definition try_acquire :: "credit_flow \<Rightarrow> string \<Rightarrow> int \<Rightarrow> credit_flow \<times> bool" where
  "try_acquire fc p amount =
     (let current = get_default (credits fc) p (default_initial_credits fc)
      in if amount \<le> current
         then (fc\<lparr>credits := AList.update p (current - amount) (credits fc)\<rparr>, True)
         else (fc, False))"

text \<open>
  One turn of the loop of \<^verbatim>\<open>acquire\<close>, from its entry or from the resolution of the future it
  awaited: either the credits are taken (\<open>True\<close>) or the coroutine parks on the new future \<open>f\<close>.
\<close>

definition acquire :: "credit_flow \<Rightarrow> string \<Rightarrow> int \<Rightarrow> nat \<Rightarrow> credit_flow \<times> bool" where
  "acquire fc p amount f =
     (let fc1 = (if has_key (credits fc) p then fc
                 else fc\<lparr>credits := AList.update p (default_initial_credits fc) (credits fc)\<rparr>);
          current = get_default (credits fc1) p 0
      in if current < amount
         then (fc1\<lparr>waiters := AList.update p (get_default (waiters fc1) p [] @ [f]) (waiters fc1),
                    flow_futures := (flow_futures fc1)(f := Pending)\<rparr>, False)
         else (fc1\<lparr>credits := AList.update p (current - amount) (credits fc1)\<rparr>, True))"

text \<open>The \<^verbatim>\<open>CancelledError\<close> branch of \<^verbatim>\<open>acquire\<close>: the future leaves the waiter list.\<close>

definition acquire_cancelled :: "credit_flow \<Rightarrow> string \<Rightarrow> nat \<Rightarrow> credit_flow" where
  "acquire_cancelled fc p f =
     (let fc1 = fc\<lparr>flow_futures := (flow_futures fc)(f := Cancelled)\<rparr>
      in case map_of (waiters fc1) p of
           None \<Rightarrow> fc1
         | Some ws \<Rightarrow> if f \<in> set ws
             then fc1\<lparr>waiters := AList.update p (remove1 f ws) (waiters fc1)\<rparr> else fc1)"

text \<open>The loop of \<^verbatim>\<open>replenish\<close>: pop waiters from the front while credits are positive.\<close>

fun wake_waiters ::
  "int \<Rightarrow> nat list \<Rightarrow> (nat \<Rightarrow> future_state) \<Rightarrow> nat list \<times> (nat \<Rightarrow> future_state)" where
  "wake_waiters c [] fs = ([], fs)"
| "wake_waiters c (f # ws) fs =
     (if 0 < c
      then wake_waiters c ws
             (if fs f \<noteq> Cancelled \<and> fs f \<noteq> Done then fs(f := Done) else fs)
      else (f # ws, fs))"

definition replenish :: "credit_flow \<Rightarrow> string \<Rightarrow> int \<Rightarrow> credit_flow" where
  "replenish fc p amount =
     (if amount \<le> 0 then fc
      else let current = get_default (credits fc) p (default_initial_credits fc);
               fc1 = fc\<lparr>credits := AList.update p (current + amount) (credits fc)\<rparr>
           in case map_of (waiters fc1) p of
                None \<Rightarrow> fc1
              | Some ws \<Rightarrow>
                  let (ws', fs) = wake_waiters (current + amount) ws (flow_futures fc1)
                  in fc1\<lparr>waiters := AList.update p ws' (waiters fc1), flow_futures := fs\<rparr>)"

subsection \<open>Balances\<close>

lemma get_credits_init_peer [simp]:
  "get_credits (init_peer fc p a) p' =
     (if p' = p then (case a of None \<Rightarrow> default_initial_credits fc | Some n \<Rightarrow> n)
      else get_credits fc p')"
  by (simp add: get_credits_def init_peer_def Let_def dict_simps)

lemma get_credits_try_acquire:
  "try_acquire fc p a = (fc', b) \<Longrightarrow>
   b = (a \<le> get_credits fc p) \<and>
   get_credits fc' p' = (if b \<and> p' = p then get_credits fc p - a else get_credits fc p')"
  by (auto simp: try_acquire_def get_credits_def Let_def dict_simps split: if_splits)

lemma get_credits_acquire:
  "acquire fc p a f = (fc', b) \<Longrightarrow>
   b = (a \<le> get_credits fc p) \<and>
   get_credits fc' p' = (if b \<and> p' = p then get_credits fc p - a else get_credits fc p')"
  by (auto simp: acquire_def get_credits_def Let_def get_default_def has_key_def map_of_update
      split: if_splits option.splits)

lemma get_credits_replenish [simp]:
  "get_credits (replenish fc p a) p' =
     (if 0 < a \<and> p' = p then get_credits fc p + a else get_credits fc p')"
  by (auto simp: replenish_def get_credits_def Let_def get_default_def map_of_update
      split: option.splits prod.splits)

lemma get_credits_cancelled [simp]: "get_credits (acquire_cancelled fc p f) p' = get_credits fc p'"
  by (simp add: acquire_cancelled_def get_credits_def Let_def split: option.splits)

lemma wake_waiters_spec:
  "0 < c \<Longrightarrow> wake_waiters c ws fs =
     ([], \<lambda>f. if f \<in> set ws \<and> fs f = Pending then Done else fs f)"
  by (induction c ws fs rule: wake_waiters.induct) (auto simp: fun_eq_iff)

subsection \<open>Runs of the controller\<close>

inductive flow_step :: "credit_flow \<Rightarrow> credit_flow \<Rightarrow> bool" where
  init_peer: "(case a of None \<Rightarrow> True | Some n \<Rightarrow> 0 \<le> n) \<Longrightarrow> flow_step fc (init_peer fc p a)"
| try_acquire: "flow_step fc (fst (try_acquire fc p a))"
| acquire: "flow_step fc (fst (acquire fc p a f))"
| cancelled: "flow_step fc (acquire_cancelled fc p f)"
| replenish: "flow_step fc (replenish fc p a)"

inductive flow_reachable :: "int \<Rightarrow> credit_flow \<Rightarrow> bool" for n where
  start: "flow_reachable n (init_flow n)"
| move: "flow_reachable n fc \<Longrightarrow> flow_step fc fc' \<Longrightarrow> flow_reachable n fc'"

lemma flow_step_default: "flow_step fc fc' \<Longrightarrow> default_initial_credits fc' = default_initial_credits fc"
  by (induction rule: flow_step.induct)
     (auto simp: init_peer_def try_acquire_def acquire_def acquire_cancelled_def replenish_def Let_def
       split: option.splits prod.splits)

lemma flow_step_nonneg:
  assumes "flow_step fc fc'" "0 \<le> default_initial_credits fc" "\<forall>p. 0 \<le> get_credits fc p"
  shows "\<forall>p. 0 \<le> get_credits fc' p"
  using assms
proof (induction rule: flow_step.induct)
  case (init_peer a fc p)
  then show ?case by (auto split: option.splits)
next
  case (try_acquire fc p a)
  obtain fc' b where "try_acquire fc p a = (fc', b)" by fastforce
  with get_credits_try_acquire [OF this] try_acquire show ?case by simp
next
  case (acquire fc p a f)
  obtain fc' b where "acquire fc p a f = (fc', b)" by fastforce
  with get_credits_acquire [OF this] acquire show ?case by simp
qed simp_all

text \<open>
  Starting from non-negative windows, no sequence of initialisations, acquisitions
  (granted, refused, parked or cancelled) and replenishments, of whatever amounts, makes a
  peer's credit balance negative.
\<close>

theorem credits_never_negative:
  assumes "flow_reachable n fc" "0 \<le> n"
  shows "0 \<le> get_credits fc p"
proof -
  from assms(1) have "default_initial_credits fc = n \<and> (\<forall>p. 0 \<le> get_credits fc p)"
  proof (induction rule: flow_reachable.induct)
    case start
    then show ?case using assms(2) by (simp add: init_flow_def get_credits_def get_default_def)
  next
    case (move fc fc')
    then show ?case
      using flow_step_nonneg [of fc fc'] flow_step_default [of fc fc'] assms(2) by simp
  qed
  then show ?thesis by simp
qed

theorem credits_never_negative_witness:
  "0 \<le> get_credits (fst (try_acquire (init_flow 2) ''b'' 2)) ''b''"
  by (rule credits_never_negative [of 2], rule flow_reachable.move, rule flow_reachable.start,
      rule flow_step.try_acquire, simp)

text \<open>
  A replenishment that leaves the window positive wakes every coroutine parked on that
  peer, so that none stays behind although credits are available; cancelled futures are
  dropped from the list, other peers are not touched.
\<close>

theorem replenish_wakes_all_waiters:
  assumes "0 < a" "0 < get_credits fc p + a" "map_of (waiters fc) p = Some ws"
  shows "map_of (waiters (replenish fc p a)) p = Some [] \<and>
    (\<forall>f \<in> set ws. flow_futures fc f = Pending \<longrightarrow> flow_futures (replenish fc p a) f = Done) \<and>
    (\<forall>f. f \<notin> set ws \<longrightarrow> flow_futures (replenish fc p a) f = flow_futures fc f) \<and>
    (\<forall>p'. p' \<noteq> p \<longrightarrow> map_of (waiters (replenish fc p a)) p' = map_of (waiters fc) p')"
  using assms by (simp add: replenish_def get_credits_def Let_def wake_waiters_spec map_of_update)

theorem replenish_wakes_all_waiters_witness:
  "flow_futures (replenish (fst (acquire (init_flow 0) ''b'' 1 9)) ''b'' 1) 9 = Done"
proof -
  let ?fc = "fst (acquire (init_flow 0) ''b'' 1 9)"
  have "map_of (waiters ?fc) ''b'' = Some [9]" "get_credits ?fc ''b'' = 0"
      "flow_futures ?fc 9 = Pending"
    by (simp_all add: acquire_def init_flow_def get_default_def has_key_def get_credits_def)
  with replenish_wakes_all_waiters [of 1 ?fc "''b''" "[9]"] show ?thesis by simp
qed

end
