(* ===== verification/Json.thy ===== *)
theory Json
  imports Prelude
begin

section \<open>JSON values, json.dumps, json.loads and UTF-8\<close>

text \<open>
  The wire format of messages, the payload of the write-ahead log and the bytes that are
  signed are all JSON texts. This theory models what peerq uses of the standard library:
  \<^verbatim>\<open>json.dumps(v, separators=(",", ":"), sort_keys=True, allow_nan=False)\<close>, \<^verbatim>\<open>json.loads\<close> with
  \<^verbatim>\<open>parse_constant=reject_json_constants\<close>, \<^verbatim>\<open>bytes.hex\<close>, \<^verbatim>\<open>bytes.fromhex\<close> and UTF-8. The two
  functions between a float and its decimal text, \<^verbatim>\<open>float.__repr__\<close> and \<^verbatim>\<open>float()\<close>, are
  arguments: the shortest-digits algorithm of the interpreter is not modelled.
  \<open>JOther\<close> stands for any Python object that JSON cannot represent. A parser that meets a
  code point above U+00FF fails, because \<open>string\<close> cannot hold it.
\<close>

datatype json =
    JNull
  | JBool bool
  | JInt int
  | JFloat pyfloat
  | JStr string
  | JList "json list"
  | JDict "(string \<times> json) list"
  | JOther string

abbreviation code :: "char \<Rightarrow> nat" where
  "code c \<equiv> of_char c"

subsection \<open>Decimal integers\<close>

definition digit_char :: "nat \<Rightarrow> char" where
  "digit_char d = char_of (48 + d)"

fun dec_nat :: "nat \<Rightarrow> string" where
  "dec_nat n = (if n < 10 then [digit_char n] else dec_nat (n div 10) @ [digit_char (n mod 10)])"

declare dec_nat.simps [simp del]

definition dec_int :: "int \<Rightarrow> string" where
  "dec_int i = (if i < 0 then CHR ''-'' # dec_nat (nat (- i)) else dec_nat (nat i))"

definition is_digit :: "char \<Rightarrow> bool" where
  "is_digit c \<longleftrightarrow> 48 \<le> code c \<and> code c \<le> 57"

definition read_nat :: "string \<Rightarrow> nat" where
  "read_nat s = foldl (\<lambda>acc c. 10 * acc + (code c - 48)) 0 s"

definition read_int :: "string \<Rightarrow> int" where
  "read_int s =
     (case s of
        [] \<Rightarrow> 0
      | c # r \<Rightarrow> if c = CHR ''-'' then - int (read_nat r) else int (read_nat s))"

lemma code_digit_char: "d < 10 \<Longrightarrow> code (digit_char d) = 48 + d"
  by (simp add: digit_char_def)

lemma is_digit_digit_char: "d < 10 \<Longrightarrow> is_digit (digit_char d)"
  by (simp add: is_digit_def code_digit_char)

lemma read_nat_snoc: "read_nat (s @ [c]) = 10 * read_nat s + (code c - 48)"
  by (simp add: read_nat_def)

lemma dec_nat_facts:
  "read_nat (dec_nat n) = n \<and> (\<forall>c \<in> set (dec_nat n). is_digit c) \<and> dec_nat n \<noteq> [] \<and>
   (hd (dec_nat n) = CHR ''0'' \<longleftrightarrow> n = 0)"
proof (induction n rule: dec_nat.induct)
  case (1 n)
  show ?case
  proof (cases "n < 10")
    case True
    have "digit_char n = CHR ''0'' \<longleftrightarrow> n = 0"
      using True code_digit_char [of n] of_char_eq_iff [of "digit_char n" "CHR ''0''", where ?'a = nat]
      by simp
    with True show ?thesis
      by (subst (1 2 3 4) dec_nat.simps)
         (simp add: read_nat_def code_digit_char is_digit_digit_char)
  next
    case False
    then have "n div 10 \<noteq> 0" by simp
    with False 1 show ?thesis
      by (subst (1 2 3 4) dec_nat.simps)
         (auto simp: read_nat_snoc code_digit_char is_digit_digit_char)
  qed
qed

lemmas dec_nat_simps [simp] =
  dec_nat_facts [THEN conjunct1]
  dec_nat_facts [THEN conjunct2, THEN conjunct2, THEN conjunct1]

lemma dec_nat_digits: "c \<in> set (dec_nat n) \<Longrightarrow> is_digit c"
  using dec_nat_facts by blast

lemma dec_nat_zero: "hd (dec_nat n) = CHR ''0'' \<longleftrightarrow> n = 0"
  using dec_nat_facts by blast

lemma dec_nat_length: "n < 10 ^ Suc k \<Longrightarrow> length (dec_nat n) \<le> Suc k"
proof (induction k arbitrary: n)
  case 0
  then show ?case by (simp add: dec_nat.simps)
next
  case (Suc k)
  have "n div 10 < 10 ^ Suc k" using Suc.prems by (simp add: less_mult_imp_div_less)
  from Suc.IH [OF this] show ?case by (subst dec_nat.simps) simp
qed

subsection \<open>Printing\<close>

definition hex_digit :: "nat \<Rightarrow> char" where
  "hex_digit d = (if d < 10 then char_of (48 + d) else char_of (87 + d))"

text \<open>The escape of one character of a string literal; \<open>ascii\<close> is the flag \<^verbatim>\<open>ensure_ascii\<close>.\<close>

definition escape_char :: "bool \<Rightarrow> char \<Rightarrow> string" where
  "escape_char ascii c =
     (if c = CHR 0x22 then [CHR 0x5C, CHR 0x22]
      else if c = CHR 0x5C then [CHR 0x5C, CHR 0x5C]
      else if c = CHR 0x0A then [CHR 0x5C, CHR ''n'']
      else if c = CHR 0x0D then [CHR 0x5C, CHR ''r'']
      else if c = CHR 0x09 then [CHR 0x5C, CHR ''t'']
      else if c = CHR 0x0C then [CHR 0x5C, CHR ''f'']
      else if c = CHR 0x08 then [CHR 0x5C, CHR ''b'']
      else if code c < 32 \<or> ascii \<and> 126 < code c
      then [CHR 0x5C, CHR ''u'', CHR ''0'', CHR ''0'', hex_digit (code c div 16),
            hex_digit (code c mod 16)]
      else [c])"

definition quote :: "bool \<Rightarrow> string \<Rightarrow> string" where
  "quote ascii s = CHR 0x22 # concat (map (escape_char ascii) s) @ [CHR 0x22]"

text \<open>\<^verbatim>\<open>sort_keys=True\<close>, at every level.\<close>

fun sort_json :: "json \<Rightarrow> json" where
  "sort_json (JList xs) = JList (map sort_json xs)"
| "sort_json (JDict d) = JDict (sort_key fst (map (\<lambda>(k, v). (k, sort_json v)) d))"
| "sort_json j = j"

fun dump :: "(real \<Rightarrow> string) \<Rightarrow> bool \<Rightarrow> json \<Rightarrow> string"
  and dump_elems :: "(real \<Rightarrow> string) \<Rightarrow> bool \<Rightarrow> json list \<Rightarrow> string"
  and dump_members :: "(real \<Rightarrow> string) \<Rightarrow> bool \<Rightarrow> (string \<times> json) list \<Rightarrow> string" where
  "dump fr a JNull = ''null''"
| "dump fr a (JBool b) = (if b then ''true'' else ''false'')"
| "dump fr a (JInt i) = dec_int i"
| "dump fr a (JFloat x) = (case x of Fin r \<Rightarrow> fr r | _ \<Rightarrow> [])"
| "dump fr a (JStr s) = quote a s"
| "dump fr a (JList xs) = ''['' @ dump_elems fr a xs @ '']''"
| "dump fr a (JDict d) = ''{'' @ dump_members fr a d @ ''}''"
| "dump fr a (JOther t) = []"
| "dump_elems fr a [] = []"
| "dump_elems fr a [x] = dump fr a x"
| "dump_elems fr a (x # y # ys) = dump fr a x @ '','' @ dump_elems fr a (y # ys)"
| "dump_members fr a [] = []"
| "dump_members fr a [(k, v)] = quote a k @ '':'' @ dump fr a v"
| "dump_members fr a ((k, v) # m # ms) =
     quote a k @ '':'' @ dump fr a v @ '','' @ dump_members fr a (m # ms)"

text \<open>
  What \<^verbatim>\<open>dumps\<close> raises on: an object JSON does not know (\<^verbatim>\<open>TypeError\<close>), a float that is not finite
  and an integer of more than 4300 digits (\<^verbatim>\<open>ValueError\<close>, the interpreter's limit on conversions
  between integers and text).
\<close>

definition max_str_digits :: nat where
  "max_str_digits = 4300"

fun dumpable :: "json \<Rightarrow> bool" where
  "dumpable (JInt i) = (length (dec_nat (nat \<bar>i\<bar>)) \<le> max_str_digits)"
| "dumpable (JFloat x) = isfinite x"
| "dumpable (JList xs) = (\<forall>x \<in> set xs. dumpable x)"
| "dumpable (JDict d) = (\<forall>v \<in> snd ` set d. dumpable v)"
| "dumpable (JOther _) = False"
| "dumpable _ = True"

definition dumps :: "(real \<Rightarrow> string) \<Rightarrow> bool \<Rightarrow> json \<Rightarrow> string option" where
  "dumps fr ascii j = (if dumpable j then Some (dump fr ascii (sort_json j)) else None)"

subsection \<open>Parsing\<close>

definition is_ws :: "char \<Rightarrow> bool" where
  "is_ws c \<longleftrightarrow> c = CHR 0x20 \<or> c = CHR 0x09 \<or> c = CHR 0x0A \<or> c = CHR 0x0D"

definition skip_ws :: "string \<Rightarrow> string" where
  "skip_ws s = dropWhile is_ws s"

definition unhex :: "char \<Rightarrow> nat option" where
  "unhex c =
     (if 48 \<le> code c \<and> code c \<le> 57 then Some (code c - 48)
      else if 97 \<le> code c \<and> code c \<le> 102 then Some (code c - 87)
      else if 65 \<le> code c \<and> code c \<le> 70 then Some (code c - 55)
      else None)"

definition unescape :: "char \<Rightarrow> char option" where
  "unescape c =
     (if c = CHR 0x22 \<or> c = CHR 0x5C \<or> c = CHR ''/'' then Some c
      else if c = CHR ''n'' then Some (CHR 0x0A)
      else if c = CHR ''r'' then Some (CHR 0x0D)
      else if c = CHR ''t'' then Some (CHR 0x09)
      else if c = CHR ''f'' then Some (CHR 0x0C)
      else if c = CHR ''b'' then Some (CHR 0x08)
      else None)"

definition unescape_u :: "char \<Rightarrow> char \<Rightarrow> char \<Rightarrow> char \<Rightarrow> char option" where
  "unescape_u a b c d =
     (case (unhex a, unhex b, unhex c, unhex d) of
        (Some 0, Some 0, Some h, Some l) \<Rightarrow> Some (char_of (16 * h + l))
      | _ \<Rightarrow> None)"

definition cons_fst :: "'a \<Rightarrow> ('a list \<times> 'b) option \<Rightarrow> ('a list \<times> 'b) option" where
  "cons_fst x r = map_option (\<lambda>(xs, y). (x # xs, y)) r"

text \<open>The body of a string literal, after its opening quote, and what follows the closing one.\<close>

fun scan_str :: "string \<Rightarrow> (string \<times> string) option" where
  "scan_str [] = None"
| "scan_str (c # r) =
     (if c = CHR 0x22 then Some ([], r)
      else if c = CHR 0x5C then
        (case r of
           [] \<Rightarrow> None
         | e # r1 \<Rightarrow>
             if e = CHR ''u'' then
               (case r1 of
                  a # b # h # l # r2 \<Rightarrow>
                    (case unescape_u a b h l of None \<Rightarrow> None | Some x \<Rightarrow> cons_fst x (scan_str r2))
                | _ \<Rightarrow> None)
             else (case unescape e of None \<Rightarrow> None | Some x \<Rightarrow> cons_fst x (scan_str r1)))
      else if code c < 32 then None
      else cons_fst c (scan_str r))"

text \<open>The three groups of the number pattern: integer part, fraction, exponent.\<close>

definition scan_int :: "string \<Rightarrow> (string \<times> string) option" where
  "scan_int s =
     (let (sign, r) = (case s of c # r \<Rightarrow> if c = CHR ''-'' then ([c], r) else ([], s) | [] \<Rightarrow> ([], s))
      in case r of
           [] \<Rightarrow> None
         | c # r' \<Rightarrow>
             if c = CHR ''0'' then Some (sign @ [c], r')
             else if is_digit c
             then Some (sign @ takeWhile is_digit r, dropWhile is_digit r)
             else None)"

definition scan_frac :: "string \<Rightarrow> string \<times> string" where
  "scan_frac s =
     (case s of
        c # d # r \<Rightarrow>
          if c = CHR ''.'' \<and> is_digit d
          then (c # takeWhile is_digit (d # r), dropWhile is_digit (d # r)) else ([], s)
      | _ \<Rightarrow> ([], s))"

definition scan_exp :: "string \<Rightarrow> string \<times> string" where
  "scan_exp s =
     (case s of
        c # r \<Rightarrow>
          if c = CHR ''e'' \<or> c = CHR ''E'' then
            (let (sg, r1) = (case r of x # r' \<Rightarrow>
                                if x = CHR ''+'' \<or> x = CHR ''-'' then ([x], r') else ([], r)
                              | [] \<Rightarrow> ([], r))
             in case r1 of
                  d # _ \<Rightarrow> if is_digit d then (c # sg @ takeWhile is_digit r1, dropWhile is_digit r1)
                           else ([], s)
                | [] \<Rightarrow> ([], s))
          else ([], s)
      | [] \<Rightarrow> ([], s))"

definition parse_number :: "(string \<Rightarrow> pyfloat) \<Rightarrow> string \<Rightarrow> (json \<times> string) option" where
  "parse_number pf s =
     (case scan_int s of
        None \<Rightarrow> None
      | Some (i, r1) \<Rightarrow>
          (let (f, r2) = scan_frac r1; (e, r3) = scan_exp r2
           in if f = [] \<and> e = []
              then (if length (filter is_digit i) \<le> max_str_digits
                    then Some (JInt (read_int i), r3) else None)
              else Some (JFloat (pf (i @ f @ e)), r3)))"

definition dict_of_pairs :: "('k \<times> 'v) list \<Rightarrow> ('k, 'v) dict" where
  "dict_of_pairs ps = fold (\<lambda>(k, v) d. AList.update k v d) ps []"

definition strip_lit :: "string \<Rightarrow> string \<Rightarrow> string option" where
  "strip_lit l s = (if take (length l) s = l then Some (drop (length l) s) else None)"

text \<open>
  Recursive descent with fuel; \<open>loads\<close> gives two units per character, which is enough for
  every input (each nested value consumes a character per two calls).
\<close>

fun parse_value :: "(string \<Rightarrow> pyfloat) \<Rightarrow> nat \<Rightarrow> string \<Rightarrow> (json \<times> string) option"
  and parse_elems :: "(string \<Rightarrow> pyfloat) \<Rightarrow> nat \<Rightarrow> string \<Rightarrow> (json list \<times> string) option"
  and parse_members ::
    "(string \<Rightarrow> pyfloat) \<Rightarrow> nat \<Rightarrow> string \<Rightarrow> ((string \<times> json) list \<times> string) option" where
  "parse_value pf 0 s = None"
| "parse_value pf (Suc n) s =
     (case s of
        [] \<Rightarrow> None
      | c # r \<Rightarrow>
          if c = CHR 0x22 then map_option (\<lambda>(t, r'). (JStr t, r')) (scan_str r)
          else if c = CHR 0x7B then
            (case skip_ws r of
               [] \<Rightarrow> None
             | d # r' \<Rightarrow>
                 if d = CHR 0x7D then Some (JDict [], r')
                 else map_option (\<lambda>(ms, r'). (JDict (dict_of_pairs ms), r'))
                        (parse_members pf n (d # r')))
          else if c = CHR ''['' then
            (case skip_ws r of
               [] \<Rightarrow> None
             | d # r' \<Rightarrow>
                 if d = CHR '']'' then Some (JList [], r')
                 else map_option (\<lambda>(xs, r'). (JList xs, r')) (parse_elems pf n (d # r')))
          else if c = CHR ''n'' then map_option (\<lambda>r. (JNull, r)) (strip_lit ''null'' s)
          else if c = CHR ''t'' then map_option (\<lambda>r. (JBool True, r)) (strip_lit ''true'' s)
          else if c = CHR ''f'' then map_option (\<lambda>r. (JBool False, r)) (strip_lit ''false'' s)
          else parse_number pf s)"
| "parse_elems pf 0 s = None"
| "parse_elems pf (Suc n) s =
     (case parse_value pf n s of
        None \<Rightarrow> None
      | Some (v, r) \<Rightarrow>
          (case skip_ws r of
             [] \<Rightarrow> None
           | c # r1 \<Rightarrow>
               if c = CHR '']'' then Some ([v], r1)
               else if c = CHR '','' then cons_fst v (parse_elems pf n (skip_ws r1))
               else None))"
| "parse_members pf 0 s = None"
| "parse_members pf (Suc n) s =
     (case s of
        [] \<Rightarrow> None
      | c # r \<Rightarrow>
          if c \<noteq> CHR 0x22 then None
          else (case scan_str r of
                  None \<Rightarrow> None
                | Some (k, r1) \<Rightarrow>
                    (case skip_ws r1 of
                       [] \<Rightarrow> None
                     | d # r2 \<Rightarrow>
                         if d \<noteq> CHR '':'' then None
                         else (case parse_value pf n (skip_ws r2) of
                                 None \<Rightarrow> None
                               | Some (v, r3) \<Rightarrow>
                                   (case skip_ws r3 of
                                      [] \<Rightarrow> None
                                    | e # r4 \<Rightarrow>
                                        if e = CHR 0x7D then Some ([(k, v)], r4)
                                        else if e = CHR '',''
                                        then cons_fst (k, v) (parse_members pf n (skip_ws r4))
                                        else None)))))"

definition loads :: "(string \<Rightarrow> pyfloat) \<Rightarrow> string \<Rightarrow> json option" where
  "loads pf s =
     (case parse_value pf (2 * length s + 1) (skip_ws s) of
        None \<Rightarrow> None
      | Some (j, r) \<Rightarrow> if skip_ws r = [] then Some j else None)"

declare parse_value.simps [simp del] parse_elems.simps [simp del] parse_members.simps [simp del]

subsection \<open>Reading back what was printed\<close>

lemma unhex_hex_digit: "d < 16 \<Longrightarrow> unhex (hex_digit d) = Some d"
  by (auto simp: unhex_def hex_digit_def)

lemma unhex_zero [simp]: "unhex (CHR ''0'') = Some 0"
  by (simp add: unhex_def)

lemma unescape_u_escape:
  "unescape_u (CHR ''0'') (CHR ''0'') (hex_digit (code c div 16)) (hex_digit (code c mod 16)) = Some c"
proof -
  have "code c div 16 < 16" by (rule less_mult_imp_div_less) simp
  then show ?thesis by (simp add: unescape_u_def unhex_hex_digit)
qed

lemma scan_str_escape: "scan_str (escape_char a c @ r) = cons_fst c (scan_str r)"
  by (simp add: escape_char_def unescape_def unescape_u_escape)

lemma scan_str_body:
  "scan_str (concat (map (escape_char a) s) @ CHR 0x22 # rest) = Some (s, rest)"
  by (induction s) (simp_all add: scan_str_escape cons_fst_def del: scan_str.simps(2),
      simp)

lemma scan_str_quote: "\<exists>r. quote a s @ rest = CHR 0x22 # r \<and> scan_str r = Some (s, rest)"
  by (simp add: quote_def scan_str_body)

definition delim :: "string \<Rightarrow> bool" where
  "delim r \<longleftrightarrow> r = [] \<or> hd r = CHR '','' \<or> hd r = CHR '']'' \<or> hd r = CHR 0x7D \<or> hd r = CHR 0x0A"

lemma delim_simps [simp]:
  "delim []" "delim (CHR '','' # r)" "delim (CHR '']'' # r)" "delim (CHR 0x7D # r)"
  "delim (CHR 0x0A # r)"
  by (simp_all add: delim_def)

lemma delim_stop:
  assumes "delim r"
  shows "scan_frac r = ([], r)" "scan_exp r = ([], r)"
    "takeWhile is_digit r = []" "dropWhile is_digit r = r"
  using assms
  by (cases r; auto simp: delim_def scan_frac_def scan_exp_def is_digit_def split: list.splits)+

lemma scan_int_dec_nat:
  assumes "delim r"
  shows "scan_int (dec_nat n @ r) = Some (dec_nat n, r)"
    and "scan_int (CHR ''-'' # dec_nat n @ r) = Some (CHR ''-'' # dec_nat n, r)"
proof -
  obtain c t where d: "dec_nat n = c # t" by (cases "dec_nat n") simp_all
  have dig: "is_digit c" "\<forall>x \<in> set t. is_digit x" using dec_nat_digits [of _ n] d by auto
  then have minus: "c \<noteq> CHR ''-''" by (auto simp: is_digit_def)
  have zero: "c = CHR ''0'' \<Longrightarrow> t = []"
    using dec_nat_zero [of n] d by (simp add: dec_nat.simps [of 0])
  have span: "takeWhile is_digit (c # t @ r) = c # t" "dropWhile is_digit (c # t @ r) = r"
    using dig delim_stop(3,4) [OF assms] by (simp_all add: takeWhile_append dropWhile_append)
  from dig minus zero span show "scan_int (dec_nat n @ r) = Some (dec_nat n, r)"
    "scan_int (CHR ''-'' # dec_nat n @ r) = Some (CHR ''-'' # dec_nat n, r)"
    by (auto simp: scan_int_def d)
qed

lemma filter_digit_dec_nat: "filter is_digit (dec_nat n) = dec_nat n"
  using dec_nat_digits by (simp add: filter_id_conv)

lemma read_int_dec_int: "read_int (dec_int i) = i"
proof (cases "i < 0")
  case False
  obtain c t where d: "dec_nat (nat i) = c # t"
    by (cases "dec_nat (nat i)") simp_all
  then have "c \<noteq> CHR ''-''" using dec_nat_digits [of c "nat i"] by (auto simp: is_digit_def)
  with False d dec_nat_simps(1) [of "nat i"] show ?thesis by (simp add: dec_int_def read_int_def)
qed (simp add: dec_int_def read_int_def)

lemma parse_number_dec_int:
  assumes "delim r" "dumpable (JInt i)"
  shows "parse_number pf (dec_int i @ r) = Some (JInt i, r)"
proof -
  have "scan_int (dec_int i @ r) = Some (dec_int i, r)"
    using scan_int_dec_nat [OF assms(1)] by (simp add: dec_int_def)
  moreover have "length (filter is_digit (dec_int i)) \<le> max_str_digits"
    using assms(2) by (cases "i < 0") (simp_all add: dec_int_def filter_digit_dec_nat is_digit_def)
  ultimately show ?thesis
    using delim_stop [OF assms(1)] by (simp add: parse_number_def read_int_dec_int)
qed

text \<open>
  \<open>float_text_ok fr pf x\<close>: the text \<open>fr x\<close> of the float \<open>x\<close> is a number that reads back as
  \<open>x\<close>, which \<^verbatim>\<open>float.__repr__\<close> guarantees for every finite float.
\<close>

definition float_text_ok :: "(real \<Rightarrow> string) \<Rightarrow> (string \<Rightarrow> pyfloat) \<Rightarrow> real \<Rightarrow> bool" where
  "float_text_ok fr pf x \<longleftrightarrow>
     (\<forall>rest. delim rest \<longrightarrow> parse_number pf (fr x @ rest) = Some (JFloat (Fin x), rest))"

fun json_floats :: "json \<Rightarrow> real set" where
  "json_floats (JFloat (Fin x)) = {x}"
| "json_floats (JList xs) = (\<Union>x \<in> set xs. json_floats x)"
| "json_floats (JDict d) = (\<Union>v \<in> snd ` set d. json_floats v)"
| "json_floats _ = {}"

text \<open>Keys are distinct at every level, as in every Python dictionary.\<close>

fun json_wf :: "json \<Rightarrow> bool" where
  "json_wf (JList xs) = (\<forall>x \<in> set xs. json_wf x)"
| "json_wf (JDict d) = (distinct (keys d) \<and> (\<forall>v \<in> snd ` set d. json_wf v))"
| "json_wf _ = True"

definition printable :: "(real \<Rightarrow> string) \<Rightarrow> (string \<Rightarrow> pyfloat) \<Rightarrow> json \<Rightarrow> bool" where
  "printable fr pf j \<longleftrightarrow> dumpable j \<and> json_wf j \<and> (\<forall>x \<in> json_floats j. float_text_ok fr pf x)"

lemma printable_simps:
  "printable fr pf (JList xs) \<longleftrightarrow> (\<forall>x \<in> set xs. printable fr pf x)"
  "printable fr pf (JDict d) \<longleftrightarrow> distinct (keys d) \<and> (\<forall>v \<in> snd ` set d. printable fr pf v)"
  "printable fr pf (JInt i) \<longleftrightarrow> dumpable (JInt i)"
  "printable fr pf (JFloat y) \<longleftrightarrow> (\<exists>x. y = Fin x \<and> float_text_ok fr pf x)"
  "\<not> printable fr pf (JOther t)"
  by (auto simp: printable_def elim: isfinite.elims)

lemma dict_of_pairs_distinct:
  assumes "distinct (keys ps)"
  shows "dict_of_pairs ps = ps"
proof -
  have "fold (\<lambda>(k, v) d. AList.update k v d) ps acc = acc @ ps"
    if "distinct (keys (acc @ ps))" for acc
    using that
  proof (induction ps arbitrary: acc)
    case (Cons p ps)
    obtain k v where p: "p = (k, v)" by fastforce
    with Cons.prems have "\<not> has_key acc k" by (auto simp: has_key_iff)
    with Cons p show ?case by (simp add: update_new)
  qed simp
  from this [of "[]"] assms show ?thesis by (simp add: dict_of_pairs_def)
qed

text \<open>How the text of a printable value begins.\<close>

definition value_start :: "char \<Rightarrow> bool" where
  "value_start c \<longleftrightarrow> \<not> is_ws c \<and> c \<noteq> CHR '']'' \<and> c \<noteq> CHR 0x7D"

lemma scan_int_start:
  "scan_int s = Some r \<Longrightarrow> \<exists>c t. s = c # t \<and> (c = CHR ''-'' \<or> is_digit c)"
  by (cases s) (auto simp: scan_int_def is_digit_def split: list.splits if_splits)

lemma parse_number_start:
  "parse_number pf s = Some r \<Longrightarrow> \<exists>c t. s = c # t \<and> (c = CHR ''-'' \<or> is_digit c)"
  by (auto simp: parse_number_def dest: scan_int_start split: option.splits)

lemma number_start:
  assumes "parse_number pf (t @ rest) = Some r" "t \<noteq> []"
  shows "\<exists>c u. t = c # u \<and> (c = CHR ''-'' \<or> is_digit c)"
  using parse_number_start [OF assms(1)] assms(2) by (cases t) auto

lemma float_text_nonempty: "float_text_ok fr pf x \<Longrightarrow> fr x \<noteq> []"
  by (auto simp: float_text_ok_def dest!: spec [of _ "[]"] parse_number_start)

lemma number_value_start: "c = CHR ''-'' \<or> is_digit c \<Longrightarrow> value_start c"
  by (auto simp: value_start_def is_ws_def is_digit_def)

lemma dump_number_start:
  assumes "printable fr pf j" "(\<exists>i. j = JInt i) \<or> (\<exists>y. j = JFloat y)"
  shows "\<exists>c t. dump fr a j = c # t \<and> (c = CHR ''-'' \<or> is_digit c)"
proof -
  consider i where "j = JInt i" | x where "j = JFloat (Fin x)" "float_text_ok fr pf x"
    using assms by (auto simp: printable_simps)
  then show ?thesis
  proof cases
    case 1
    then have "parse_number pf (dec_int i @ []) = Some (JInt i, [])"
      using assms(1) by (intro parse_number_dec_int) (simp_all only: printable_simps delim_simps)
    then show ?thesis using parse_number_start [of pf "dec_int i"] 1 by simp
  next
    case 2
    then have "parse_number pf (fr x @ []) = Some (JFloat (Fin x), [])"
      unfolding float_text_ok_def using delim_simps(1) by blast
    then show ?thesis using parse_number_start [of pf "fr x"] 2(1) by simp
  qed
qed

lemma value_start_simps:
  "value_start (CHR ''n'')" "value_start (CHR ''t'')" "value_start (CHR ''f'')"
  "value_start (CHR 0x22)" "value_start (CHR ''['')" "value_start (CHR 0x7B)"
  by (simp_all add: value_start_def is_ws_def)

lemma dump_start:
  assumes "printable fr pf j"
  shows "\<exists>c t. dump fr a j = c # t \<and> value_start c"
proof (cases "(\<exists>i. j = JInt i) \<or> (\<exists>y. j = JFloat y)")
  case True
  obtain c t where "dump fr a j = c # t" "c = CHR ''-'' \<or> is_digit c"
    using dump_number_start [OF assms True, of a] by (elim exE conjE)
  then show ?thesis using number_value_start [of c] by (intro exI conjI)
next
  case False
  show ?thesis
  proof (cases j)
    case (JBool b)
    then show ?thesis by (cases b) (simp_all add: value_start_simps)
  next
    case (JOther t)
    with assms show ?thesis by (simp add: printable_def)
  qed (use False in \<open>simp_all add: quote_def value_start_simps\<close>)
qed

lemma skip_ws_start: "value_start c \<Longrightarrow> skip_ws (c # s) = c # s"
  by (simp add: skip_ws_def value_start_def)

lemma skip_ws_punct [simp]:
  "skip_ws (CHR '','' # s) = CHR '','' # s" "skip_ws (CHR '']'' # s) = CHR '']'' # s"
  "skip_ws (CHR 0x7D # s) = CHR 0x7D # s" "skip_ws (CHR '':'' # s) = CHR '':'' # s"
  "skip_ws (CHR 0x22 # s) = CHR 0x22 # s" "skip_ws [] = []"
  by (simp_all add: skip_ws_def is_ws_def)

lemma skip_ws_dump: "printable fr pf j \<Longrightarrow> skip_ws (dump fr a j @ s) = dump fr a j @ s"
  using dump_start [of fr pf j a] by (auto simp: skip_ws_start)

lemma parse_value_number:
  "c = CHR ''-'' \<or> is_digit c \<Longrightarrow> parse_value pf (Suc n) (c # s) = parse_number pf (c # s)"
  by (auto simp: parse_value.simps is_digit_def)

lemma parse_value_literal:
  "parse_value pf (Suc n) (''null'' @ rest) = Some (JNull, rest)"
  "parse_value pf (Suc n) (''true'' @ rest) = Some (JBool True, rest)"
  "parse_value pf (Suc n) (''false'' @ rest) = Some (JBool False, rest)"
  by (simp_all add: parse_value.simps strip_lit_def)

lemma parse_value_quote: "parse_value pf (Suc n) (quote a s @ rest) = Some (JStr s, rest)"
proof -
  obtain r where "quote a s @ rest = CHR 0x22 # r" "scan_str r = Some (s, rest)"
    using scan_str_quote [of a s rest] by blast
  then show ?thesis by (simp add: parse_value.simps)
qed

lemma parse_value_list:
  assumes "parse_elems pf n (c # s) = Some (xs, rest)" "value_start c"
  shows "parse_value pf (Suc n) (CHR ''['' # c # s) = Some (JList xs, rest)"
  using assms skip_ws_start [of c s] by (simp add: parse_value.simps value_start_def)

lemma parse_value_dict:
  assumes "parse_members pf n (CHR 0x22 # s) = Some (ms, rest)"
  shows "parse_value pf (Suc n) (CHR 0x7B # CHR 0x22 # s) = Some (JDict (dict_of_pairs ms), rest)"
  using assms by (simp add: parse_value.simps)

lemma parse_value_empty:
  "parse_value pf (Suc n) (''[]'' @ rest) = Some (JList [], rest)"
  "parse_value pf (Suc n) (CHR 0x7B # CHR 0x7D # rest) = Some (JDict [], rest)"
  by (simp_all add: parse_value.simps)

lemma parse_elems_last:
  assumes "parse_value pf n s = Some (x, CHR '']'' # rest)"
  shows "parse_elems pf (Suc n) s = Some ([x], rest)"
  using assms by (simp add: parse_elems.simps)

lemma parse_elems_more:
  assumes "parse_value pf n s = Some (x, CHR '','' # r)"
    and "skip_ws r = r" "parse_elems pf n r = Some (xs, rest)"
  shows "parse_elems pf (Suc n) s = Some (x # xs, rest)"
  using assms by (simp add: parse_elems.simps cons_fst_def)

lemma parse_members_last:
  assumes "skip_ws r = r" "parse_value pf n r = Some (v, CHR 0x7D # rest)"
  shows "parse_members pf (Suc n) (quote a k @ CHR '':'' # r) = Some ([(k, v)], rest)"
proof -
  obtain u where "quote a k @ CHR '':'' # r = CHR 0x22 # u" "scan_str u = Some (k, CHR '':'' # r)"
    using scan_str_quote [of a k "CHR '':'' # r"] by blast
  with assms show ?thesis by (simp add: parse_members.simps)
qed

lemma parse_members_more:
  assumes "skip_ws r = r" "parse_value pf n r = Some (v, CHR '','' # t)"
    and "skip_ws t = t" "parse_members pf n t = Some (ms, rest)"
  shows "parse_members pf (Suc n) (quote a k @ CHR '':'' # r) = Some ((k, v) # ms, rest)"
proof -
  obtain u where "quote a k @ CHR '':'' # r = CHR 0x22 # u" "scan_str u = Some (k, CHR '':'' # r)"
    using scan_str_quote [of a k "CHR '':'' # r"] by blast
  with assms show ?thesis by (simp add: parse_members.simps cons_fst_def)
qed

lemma parse_value_number_text:
  assumes "parse_number pf (t @ rest) = Some r" "t \<noteq> []"
  shows "parse_value pf (Suc n) (t @ rest) = Some r"
proof -
  obtain c u where "t = c # u" "c = CHR ''-'' \<or> is_digit c"
    using number_start [OF assms] by blast
  then show ?thesis using parse_value_number [of c pf n "u @ rest"] assms by simp
qed

lemma dump_elems_start:
  assumes "xs \<noteq> []" "\<forall>x \<in> set xs. printable fr pf x"
  shows "\<exists>c t. dump_elems fr a xs = c # t \<and> value_start c"
proof -
  obtain x ys where xs: "xs = x # ys" using assms(1) by (cases xs) auto
  obtain c t where "dump fr a x = c # t" "value_start c"
    using dump_start [of fr pf x a] assms(2) xs by auto
  with xs show ?thesis by (cases ys) auto
qed

lemma dump_members_start: "ms \<noteq> [] \<Longrightarrow> \<exists>t. dump_members fr a ms = CHR 0x22 # t"
  by (cases "(fr, a, ms)" rule: dump_members.cases) (auto simp: quote_def)

lemma skip_ws_elems:
  "xs \<noteq> [] \<Longrightarrow> \<forall>x \<in> set xs. printable fr pf x \<Longrightarrow>
    skip_ws (dump_elems fr a xs @ s) = dump_elems fr a xs @ s"
  using dump_elems_start [of xs fr pf a] by (auto simp: skip_ws_start)

lemma skip_ws_members: "ms \<noteq> [] \<Longrightarrow> skip_ws (dump_members fr a ms @ s) = dump_members fr a ms @ s"
  using dump_members_start [of ms fr a] by auto

lemma fuel_Suc: "2 * length t \<le> n \<Longrightarrow> t \<noteq> [] \<Longrightarrow> \<exists>m. n = Suc m"
  by (cases t; cases n) auto

lemma parse_dump:
  "\<And>n rest. printable fr pf j \<Longrightarrow> delim rest \<Longrightarrow> 2 * length (dump fr a j) \<le> n \<Longrightarrow>
     parse_value pf n (dump fr a j @ rest) = Some (j, rest)"
  "\<And>n rest. xs \<noteq> [] \<Longrightarrow> \<forall>x \<in> set xs. printable fr pf x \<Longrightarrow> 2 * length (dump_elems fr a xs) < n \<Longrightarrow>
     parse_elems pf n (dump_elems fr a xs @ CHR '']'' # rest) = Some (xs, rest)"
  "\<And>n rest. ms \<noteq> [] \<Longrightarrow> \<forall>v \<in> snd ` set ms. printable fr pf v \<Longrightarrow> 2 * length (dump_members fr a ms) < n \<Longrightarrow>
     parse_members pf n (dump_members fr a ms @ CHR 0x7D # rest) = Some (ms, rest)"
proof (induction fr a j and fr a xs and fr a ms rule: dump_dump_elems_dump_members.induct)
  case (1 fr a)
  then show ?case by (cases n) (simp_all add: parse_value_literal [simplified])
next
  case (2 fr a b)
  then show ?case by (cases n; cases b) (simp_all add: parse_value_literal [simplified])
next
  case (3 fr a i)
  then have "parse_number pf (dec_int i @ rest) = Some (JInt i, rest)"
    by (intro parse_number_dec_int) (simp_all only: printable_simps)
  moreover have "dec_int i \<noteq> []" by (simp add: dec_int_def)
  ultimately show ?case using 3(3) fuel_Suc [of "dec_int i" n] parse_value_number_text by auto
next
  case (4 fr a y)
  then obtain x where "y = Fin x" and ok: "float_text_ok fr pf x" by (auto simp: printable_simps)
  moreover have "parse_number pf (fr x @ rest) = Some (JFloat (Fin x), rest)"
    using ok 4(2) by (simp add: float_text_ok_def)
  ultimately show ?case
    using 4(3) fuel_Suc [of "fr x" n] float_text_nonempty [OF ok] parse_value_number_text by auto
next
  case (5 fr a s)
  then show ?case
    using fuel_Suc [of "quote a s" n] parse_value_quote by (auto simp: quote_def)
next
  case (6 fr a xs)
  show ?case
  proof (cases "xs = []")
    case True
    with 6(4) show ?thesis by (cases n) (simp_all add: parse_value_empty [simplified])
  next
    case False
    have pr: "\<forall>x \<in> set xs. printable fr pf x" using 6(2) by (simp add: printable_simps)
    obtain c t where ct: "dump_elems fr a xs = c # t" "value_start c"
      using dump_elems_start [OF False pr] by blast
    obtain m where m: "n = Suc m" "2 * length (dump_elems fr a xs) < m"
      using 6(4) by (cases n) auto
    from 6(1) [OF False pr m(2), of rest] show ?thesis
      using ct m(1) by (simp add: parse_value_list)
  qed
next
  case (7 fr a ms)
  show ?case
  proof (cases "ms = []")
    case True
    with 7(4) show ?thesis by (cases n) (simp_all add: parse_value_empty [simplified])
  next
    case False
    have pr: "\<forall>x \<in> snd ` set ms. printable fr pf x" "distinct (keys ms)"
      using 7(2) by (simp_all add: printable_simps)
    obtain t where t: "dump_members fr a ms = CHR 0x22 # t"
      using dump_members_start [OF False] by blast
    obtain m where m: "n = Suc m" "2 * length (dump_members fr a ms) < m"
      using 7(4) by (cases n) auto
    from 7(1) [OF False pr(1) m(2), of rest] show ?thesis
      using t m(1) by (simp add: parse_value_dict dict_of_pairs_distinct [OF pr(2)])
  qed
next
  case (8 fr a t)
  then show ?case by (simp add: printable_simps)
next
  case (10 fr a x)
  then show ?case by (cases n) (simp_all add: parse_elems_last)
next
  case (11 fr a x y ys)
  obtain m where n: "n = Suc m" using 11(5) by (cases n) auto
  have pr: "printable fr pf x" "\<forall>x \<in> set (y # ys). printable fr pf x" using 11(4) by simp_all
  show ?case unfolding n
    by (rule parse_elems_more [of _ _ _ _ "dump_elems fr a (y # ys) @ CHR '']'' # rest"])
       (use 11(5) n 11(1) [OF pr(1)] 11(2) [OF _ pr(2)] skip_ws_elems [OF _ pr(2)] in simp_all)
next
  case (13 fr a k v)
  obtain m where n: "n = Suc m" using 13(4) by (cases n) auto
  have pr: "printable fr pf v" using 13(3) by simp
  show ?case
    using 13(4) n 13(1) [OF pr] skip_ws_dump [OF pr] by (simp add: parse_members_last)
next
  case (14 fr a k v p ps)
  obtain m where n: "n = Suc m" using 14(5) by (cases n) auto
  have pr: "printable fr pf v" "\<forall>v \<in> snd ` set (p # ps). printable fr pf v" using 14(4) by simp_all
  have "parse_members pf (Suc m)
      (quote a k @ CHR '':'' # (dump fr a v @ CHR '','' # (dump_members fr a (p # ps) @ CHR 0x7D # rest)))
      = Some ((k, v) # p # ps, rest)"
    by (rule parse_members_more [where t = "dump_members fr a (p # ps) @ CHR 0x7D # rest"])
       (use 14(5) n 14(1) [OF pr(1)] 14(2) [OF _ pr(2)] skip_ws_dump [OF pr(1)] skip_ws_members
        in simp_all)
  then show ?case by (simp add: n)
qed simp_all

subsection \<open>\<^verbatim>\<open>sort_keys\<close>\<close>

lemma json_wf_sort_json: "json_wf (sort_json j) \<longleftrightarrow> json_wf j"
  by (induction j)
     (auto simp: keys_sort_key_fst fst_comp_map_snd snd_map_snd image_image)

lemma dumpable_sort_json: "dumpable (sort_json j) \<longleftrightarrow> dumpable j"
  by (induction j) (auto simp: snd_map_snd image_image)

lemma json_floats_sort_json: "json_floats (sort_json j) = json_floats j"
  by (induction j) (auto simp: snd_map_snd image_image)

lemma printable_sort_json: "printable fr pf (sort_json j) \<longleftrightarrow> printable fr pf j"
  by (simp only: printable_def json_wf_sort_json dumpable_sort_json json_floats_sort_json)

lemma sort_json_idem: "sort_json (sort_json j) = sort_json j"
proof (induction j)
  case (JDict d)
  then have "map (\<lambda>(k, v). (k, sort_json v)) (sort_key fst (map (\<lambda>(k, v). (k, sort_json v)) d))
    = sort_key fst (map (\<lambda>(k, v). (k, sort_json v)) d)"
    by (intro map_idI) force
  then show ?case by (simp add: sort_key_id_if_sorted keys_sort_key_fst)
qed auto

lemma loads_dump:
  assumes "printable fr pf j"
  shows "loads pf (dump fr a j) = Some j"
proof -
  have "parse_value pf (2 * length (dump fr a j) + 1) (dump fr a j @ []) = Some (j, [])"
    using assms by (intro parse_dump) simp_all
  then show ?thesis using skip_ws_dump [OF assms, of a "[]"] by (simp add: loads_def)
qed

lemma loads_dumps:
  assumes "printable fr pf j"
  shows "\<exists>t. dumps fr a j = Some t \<and> loads pf t = Some (sort_json j)"
  using assms loads_dump [of fr pf "sort_json j"]
  by (simp add: dumps_def printable_sort_json) (simp add: printable_def)

text \<open>A pair of float conversions that agree on two floats, for concrete instances.\<close>

definition sample_repr :: "real \<Rightarrow> string" where
  "sample_repr x = (if x = 1 / 2 then ''0.5'' else ''0.0'')"

definition sample_parse :: "string \<Rightarrow> pyfloat" where
  "sample_parse s = (if s = ''0.5'' then Fin (1 / 2) else Fin 0)"

lemma sample_float_text_ok:
  "float_text_ok sample_repr sample_parse 0" "float_text_ok sample_repr sample_parse (1 / 2)"
  by (auto simp: float_text_ok_def parse_number_def scan_int_def scan_frac_def delim_stop
      sample_repr_def sample_parse_def is_digit_def)

subsection \<open>The fuel of the parser is enough\<close>

lemma length_skip_ws: "length (skip_ws s) \<le> length s"
  by (simp add: skip_ws_def length_dropWhile_le)

lemma scan_str_length: "scan_str s = Some (t, r) \<Longrightarrow> length r < length s"
proof (induction s arbitrary: t r rule: length_induct)
  case (1 s)
  have IH: "length r < length u" if "scan_str u = Some (t, r)" "length u < length s" for u t r
    using 1 that by blast
  show ?case
    using 1(2) by (cases s) (auto simp: cons_fst_def dest!: IH split: if_splits list.splits option.splits)
qed

lemma scan_int_length: "scan_int s = Some (t, r) \<Longrightarrow> length r < length s"
  using length_dropWhile_le [of is_digit]
  by (auto simp: scan_int_def less_Suc_eq_le le_SucI split: list.splits if_splits)

lemma scan_frac_length: "scan_frac s = (t, r) \<Longrightarrow> length r \<le> length s"
  by (auto simp: scan_frac_def split: list.splits if_splits
      intro: le_SucI length_dropWhile_le)

lemma scan_exp_length: "scan_exp s = (t, r) \<Longrightarrow> length r \<le> length s"
  by (auto simp: scan_exp_def split: list.splits if_splits
      intro: le_SucI length_dropWhile_le)

lemma parse_number_length: "parse_number pf s = Some (j, r) \<Longrightarrow> length r < length s"
  by (auto simp: parse_number_def split: option.splits prod.splits if_splits
      dest!: scan_int_length scan_frac_length scan_exp_length)

lemma skip_ws_Cons: "skip_ws s = c # r \<Longrightarrow> length r < length s"
  using length_skip_ws [of s] by auto

lemma parse_value_shrinks:
  assumes e: "\<And>s xs r. parse_elems pf n s = Some (xs, r) \<Longrightarrow> length r < length s"
    and m: "\<And>s ms r. parse_members pf n s = Some (ms, r) \<Longrightarrow> length r < length s"
    and v: "parse_value pf (Suc n) s = Some (j, r)"
  shows "length r < length s"
proof -
  obtain c u where s: "s = c # u" using v by (cases s) (auto simp: parse_value.simps)
  show ?thesis
    using v unfolding s parse_value.simps
    by (auto simp: strip_lit_def dest!: scan_str_length split: if_splits list.splits)
       (auto dest!: skip_ws_Cons parse_number_length e m)
qed

lemma parse_elems_shrinks:
  assumes v: "\<And>s j r. parse_value pf n s = Some (j, r) \<Longrightarrow> length r < length s"
    and e: "\<And>s xs r. parse_elems pf n s = Some (xs, r) \<Longrightarrow> length r < length s"
    and "parse_elems pf (Suc n) s = Some (xs, r)"
  shows "length r < length s"
proof -
  obtain x r0 c r1 where "parse_value pf n s = Some (x, r0)" "skip_ws r0 = c # r1"
    "r = r1 \<or> (\<exists>ys. parse_elems pf n (skip_ws r1) = Some (ys, r))"
    using assms(3)
    by (auto simp: parse_elems.simps cons_fst_def split: if_splits list.splits option.splits)
  then show ?thesis
    using length_skip_ws [of r1] by (auto dest!: v e skip_ws_Cons)
qed

lemma parse_members_shrinks:
  assumes v: "\<And>s j r. parse_value pf n s = Some (j, r) \<Longrightarrow> length r < length s"
    and e: "\<And>s xs r. parse_members pf n s = Some (xs, r) \<Longrightarrow> length r < length s"
    and "parse_members pf (Suc n) s = Some (xs, r)"
  shows "length r < length s"
proof -
  obtain c0 s0 k r0 d r1 x r2 c r3 where "s = c0 # s0" "scan_str s0 = Some (k, r0)" "skip_ws r0 = d # r1"
    "parse_value pf n (skip_ws r1) = Some (x, r2)" "skip_ws r2 = c # r3"
    "r = r3 \<or> (\<exists>ys. parse_members pf n (skip_ws r3) = Some (ys, r))"
    using assms(3)
    by (auto simp: parse_members.simps cons_fst_def split: if_splits list.splits option.splits)
  then show ?thesis
    using length_skip_ws [of r1] length_skip_ws [of r3]
    by (auto dest!: v e skip_ws_Cons scan_str_length)
qed

lemma parse_shrinks:
  "parse_value pf n s = Some (j, r) \<Longrightarrow> length r < length s"
  "parse_elems pf n s = Some (xs, r) \<Longrightarrow> length r < length s"
  "parse_members pf n s = Some (ms, r) \<Longrightarrow> length r < length s"
proof (induction n arbitrary: s j xs ms r)
  case 0
  { case 1 then show ?case by (simp add: parse_value.simps) }
  { case 2 then show ?case by (simp add: parse_elems.simps) }
  { case 3 then show ?case by (simp add: parse_members.simps) }
next
  case (Suc n)
  { case 1 from Suc(2,3) this show ?case by (rule parse_value_shrinks) }
  { case 2 from Suc(1,2) this show ?case by (rule parse_elems_shrinks) }
  { case 3 from Suc(1,3) this show ?case by (rule parse_members_shrinks) }
qed

text \<open>From two units per character on, more fuel changes nothing.\<close>

lemma parse_fuel:
  "2 * length s \<le> n \<Longrightarrow> parse_value pf (Suc n) s = parse_value pf n s"
  "2 * length s < n \<Longrightarrow> parse_elems pf (Suc n) s = parse_elems pf n s"
  "2 * length s < n \<Longrightarrow> parse_members pf (Suc n) s = parse_members pf n s"
proof (induction n arbitrary: s)
  case 0
  { case 1 then show ?case by (simp add: parse_value.simps) }
  { case 2 then show ?case by simp }
  { case 3 then show ?case by simp }
next
  case (Suc n)
  { case 1
    show ?case
    proof (cases s)
      case (Cons c u)
      have "2 * length (d # v) < n" if "skip_ws u = d # v" for d v
        using length_skip_ws [of u] that 1 Cons by simp
      then show ?thesis
        using Suc(2,3) Cons unfolding parse_value.simps(2) by (simp split: list.split)
    qed (simp add: parse_value.simps) }
  { case 2
    have "parse_elems pf (Suc n) (skip_ws r1) = parse_elems pf n (skip_ws r1)"
      if "parse_value pf n s = Some (x, r)" "skip_ws r = c # r1" for x r c r1
      using parse_shrinks(1) [OF that(1)] skip_ws_Cons [OF that(2)] length_skip_ws [of r1] 2
      by (intro Suc(2)) simp
    with 2 Suc(1) show ?case unfolding parse_elems.simps(2)
      by (auto split: option.split list.split) }
  { case 3
    have "parse_value pf (Suc n) (skip_ws r2) = parse_value pf n (skip_ws r2)"
      if "s = c # u" "scan_str u = Some (k, r1)" "skip_ws r1 = d # r2" for c u k r1 d r2
      using that(1) scan_str_length [OF that(2)] skip_ws_Cons [OF that(3)] length_skip_ws [of r2] 3
      by (intro Suc(1)) simp
    moreover have "parse_members pf (Suc n) (skip_ws r4) = parse_members pf n (skip_ws r4)"
      if "s = c # u" "scan_str u = Some (k, r1)" "skip_ws r1 = d # r2"
        "parse_value pf n (skip_ws r2) = Some (v, r3)" "skip_ws r3 = f # r4" for c u k r1 d r2 v r3 f r4
      using that(1) scan_str_length [OF that(2)] skip_ws_Cons [OF that(3)] length_skip_ws [of r2]
        parse_shrinks(1) [OF that(4)] skip_ws_Cons [OF that(5)] length_skip_ws [of r4] 3
      by (intro Suc(3)) simp
    ultimately show ?case unfolding parse_members.simps(2)
      by (auto split: option.split list.split) }
qed

lemma parse_value_fuel:
  "2 * length s \<le> n \<Longrightarrow> 2 * length s \<le> m \<Longrightarrow> parse_value pf n s = parse_value pf m s"
proof -
  have "parse_value pf (2 * length s + k) s = parse_value pf (2 * length s) s" for k
    by (induction k) (simp_all add: parse_fuel)
  then show "2 * length s \<le> n \<Longrightarrow> 2 * length s \<le> m \<Longrightarrow> ?thesis"
    by (metis le_add_diff_inverse)
qed

subsection \<open>Hexadecimal text of bytes\<close>

definition hex_byte :: "byte \<Rightarrow> string" where
  "hex_byte b = [hex_digit (unat b div 16), hex_digit (unat b mod 16)]"

definition hex_of :: "bytes \<Rightarrow> string" where
  "hex_of bs = concat (map hex_byte bs)"

text \<open>\<^verbatim>\<open>bytes.fromhex\<close> skips ASCII white space between the bytes.\<close>

definition is_space :: "char \<Rightarrow> bool" where
  "is_space c \<longleftrightarrow> code c = 32 \<or> 9 \<le> code c \<and> code c \<le> 13"

fun fromhex :: "string \<Rightarrow> bytes option" where
  "fromhex [] = Some []"
| "fromhex (c # r) =
     (if is_space c then fromhex r
      else case r of
             [] \<Rightarrow> None
           | d # r' \<Rightarrow>
               (case (unhex c, unhex d) of
                  (Some h, Some l) \<Rightarrow> map_option ((#) (word_of_nat (16 * h + l))) (fromhex r')
                | _ \<Rightarrow> None))"

lemma length_hex_of [simp]: "length (hex_of bs) = 2 * length bs"
  by (induction bs) (simp_all add: hex_of_def hex_byte_def)

lemma hex_digit_not_space: "d < 16 \<Longrightarrow> \<not> is_space (hex_digit d)"
  by (auto simp: is_space_def hex_digit_def)

lemma byte_nibbles: "unat b div 16 < 16" "unat b mod 16 < 16" for b :: byte
proof -
  have "unat b < 16 * 16" using unsigned_less [of b, where ?'a = nat] by simp
  then show "unat b div 16 < 16" by (rule less_mult_imp_div_less)
qed simp

lemma fromhex_hex_of [simp]: "fromhex (hex_of bs) = Some bs"
proof (induction bs)
  case (Cons b bs)
  have "fromhex (hex_byte b @ hex_of bs) = Some (b # bs)"
    using Cons byte_nibbles [of b]
    by (simp add: hex_byte_def hex_digit_not_space unhex_hex_digit)
  then show ?case by (simp add: hex_of_def)
qed (simp add: hex_of_def)

lemma hex_of_inj: "hex_of xs = hex_of ys \<longleftrightarrow> xs = ys"
  by (metis fromhex_hex_of option.inject)

lemma fromhex_length: "fromhex s = Some bs \<Longrightarrow> 2 * length bs \<le> length s"
  by (induction s arbitrary: bs rule: fromhex.induct)
     (fastforce split: if_splits list.splits option.splits)+

subsection \<open>UTF-8\<close>

definition utf8_char :: "char \<Rightarrow> bytes" where
  "utf8_char c =
     (if code c < 128 then [word_of_nat (code c)]
      else [word_of_nat (192 + code c div 64), word_of_nat (128 + code c mod 64)])"

definition utf8_encode :: "string \<Rightarrow> bytes" where
  "utf8_encode s = concat (map utf8_char s)"

text \<open>
  Decoding is strict. A well-formed sequence of three or four bytes stands for a code point
  above U+00FF and is rejected like a malformed one.
\<close>

fun utf8_decode :: "bytes \<Rightarrow> string option" where
  "utf8_decode [] = Some []"
| "utf8_decode (b # r) =
     (if unat b < 128 then map_option ((#) (char_of (unat b))) (utf8_decode r)
      else if unat b = 194 \<or> unat b = 195 then
        (case r of
           [] \<Rightarrow> None
         | x # r' \<Rightarrow>
             if 128 \<le> unat x \<and> unat x < 192
             then map_option ((#) (char_of ((unat b - 192) * 64 + (unat x - 128)))) (utf8_decode r')
             else None)
      else None)"

lemma unat_byte: "n < 256 \<Longrightarrow> unat (word_of_nat n :: byte) = n"
  by (simp add: unat_of_nat)

lemma utf8_decode_char:
  "utf8_decode (utf8_char c @ r) = map_option ((#) c) (utf8_decode r)"
proof (cases "code c < 128")
  case True
  then show ?thesis by (simp add: utf8_char_def unat_byte)
next
  case False
  have lt: "code c < 256" by (rule nat_of_char_less_256)
  then have q: "code c div 64 = 2 \<or> code c div 64 = 3" using False by linarith
  have "unat (word_of_nat (128 + code c mod 64) :: byte) = 128 + code c mod 64"
    "unat (word_of_nat (192 + code c div 64) :: byte) = 192 + code c div 64"
    using q by (intro unat_byte; linarith)+
  moreover have "(code c div 64) * 64 + code c mod 64 = code c" by simp
  moreover have "code c div 64 = 2 \<Longrightarrow> code c < 192" by linarith
  ultimately show ?thesis
    using False q unfolding utf8_char_def
    by (elim disjE) (simp_all del: of_nat_add)
qed

lemma utf8_decode_encode [simp]: "utf8_decode (utf8_encode s) = Some s"
  by (induction s) (simp_all add: utf8_encode_def utf8_decode_char)

lemma utf8_encode_inj: "utf8_encode s = utf8_encode t \<longleftrightarrow> s = t"
  by (metis utf8_decode_encode option.inject)

lemma length_utf8_encode: "length s \<le> length (utf8_encode s)"
  by (induction s) (auto simp: utf8_encode_def utf8_char_def)

subsection \<open>Big-endian integers\<close>

text \<open>The four bytes of \<^verbatim>\<open>struct\<close>'s \<^verbatim>\<open>>I\<close> and \<^verbatim>\<open>!I\<close>.\<close>

definition be32 :: "nat \<Rightarrow> bytes" where
  "be32 n = map (\<lambda>k. word_of_nat (n div 256 ^ k mod 256)) [3, 2, 1, 0]"

definition un_be32 :: "bytes \<Rightarrow> nat" where
  "un_be32 bs = foldl (\<lambda>acc b. 256 * acc + unat b) 0 bs"

lemma length_be32 [simp]: "length (be32 n) = 4"
  by (simp add: be32_def)

lemma un_be32_be32:
  assumes "n < 2 ^ 32"
  shows "un_be32 (be32 n) = n"
proof -
  define a b c where "a = n div 256" and "b = a div 256" and "c = b div 256"
  have "n = 256 * a + n mod 256" "a = 256 * b + a mod 256" "b = 256 * c + b mod 256" "c mod 256 = c"
    using assms unfolding a_def b_def c_def by (simp_all add: mult_div_mod_eq) 
  then have "256 * (256 * (256 * (c mod 256) + b mod 256) + a mod 256) + n mod 256 = n" by presburger
  moreover have "n div 256 ^ 3 = c" "n div 256 ^ 2 = b" "n div 256 ^ 1 = a"
    by (simp_all add: a_def b_def c_def div_mult2_eq [symmetric])
  ultimately show ?thesis
    by (simp add: un_be32_def be32_def unat_byte del: power_numeral) 
qed

end
