(* ===== verification/Security.thy ===== *)
theory Security
  imports Json
begin

section \<open>Wire limits, JSON bounds, replay cache and rate limiter (security.py)\<close>

text \<open>
  The shared limits of the wire protocols, the validation of a security configuration, the
  canonical serialisation of protocol values, the bounded check of parsed JSON, the nonce
  cache and the rate limiter of datagram sources.
\<close>

definition PROTOCOL_VERSION :: int where
  "PROTOCOL_VERSION = 2"

definition MAX_FRAME_SIZE :: int where
  "MAX_FRAME_SIZE = 256 * 1024"

definition MAX_DISCOVERY_DATAGRAM :: int where
  "MAX_DISCOVERY_DATAGRAM = 4 * 1024"

definition MAX_TASK_PAYLOAD :: int where
  "MAX_TASK_PAYLOAD = 64 * 1024"

definition MAX_TASK_RESULT :: int where
  "MAX_TASK_RESULT = 64 * 1024"

definition MAX_TASK_ID_LENGTH :: int where
  "MAX_TASK_ID_LENGTH = 128"

definition MAX_PEER_ID_LENGTH :: int where
  "MAX_PEER_ID_LENGTH = 128"

definition MAX_MESSAGE_TYPE_LENGTH :: int where
  "MAX_MESSAGE_TYPE_LENGTH = 32"

definition MAX_ERROR_LENGTH :: int where
  "MAX_ERROR_LENGTH = 4 * 1024"


abbreviation len :: "'a list \<Rightarrow> int" where
  "len xs \<equiv> int (length xs)"

record security_config =
  enabled :: bool
  protocol_version :: int
  max_frame_size :: int
  max_udp_payload :: int
  max_http_headers :: int
  max_http_body :: int
  max_tasks :: int
  max_peers :: int
  max_gossip_tasks :: int
  max_credit_amount :: int
  max_lease_duration_seconds :: pyfloat
  replay_cache_size :: int
  replay_window_seconds :: pyfloat
  max_connections :: int
  max_inbox_size :: int
  read_timeout_seconds :: pyfloat
  write_timeout_seconds :: pyfloat
  connect_timeout_seconds :: pyfloat
  udp_rate_limit :: int
  udp_rate_window_seconds :: pyfloat
  max_json_depth :: int
  max_json_items :: int
  max_string_length :: int

definition default_security_config :: security_config where
  "default_security_config = \<lparr>
     enabled = True, protocol_version = PROTOCOL_VERSION, max_frame_size = MAX_FRAME_SIZE,
     max_udp_payload = MAX_DISCOVERY_DATAGRAM, max_http_headers = 8 * 1024,
     max_http_body = 64 * 1024, max_tasks = 10000, max_peers = 128, max_gossip_tasks = 128,
     max_credit_amount = 100000, max_lease_duration_seconds = Fin 3600,
     replay_cache_size = 4096, replay_window_seconds = Fin 30, max_connections = 64,
     max_inbox_size = 1024, read_timeout_seconds = Fin 10, write_timeout_seconds = Fin 10,
     connect_timeout_seconds = Fin 10, udp_rate_limit = 100, udp_rate_window_seconds = Fin 1,
     max_json_depth = 16, max_json_items = 10000, max_string_length = 256 * 1024\<rparr>"

fun float_le_zero :: "pyfloat \<Rightarrow> bool" where
  "float_le_zero (Fin x) = (x \<le> 0)"
| "float_le_zero NegInf = True"
| "float_le_zero _ = False"

definition positive_ints :: "security_config \<Rightarrow> int list" where
  "positive_ints c =
     [protocol_version c, max_frame_size c, max_udp_payload c, max_http_headers c,
      max_http_body c, max_tasks c, max_peers c, max_gossip_tasks c, max_credit_amount c,
      replay_cache_size c, max_connections c, max_inbox_size c, udp_rate_limit c,
      max_json_depth c, max_json_items c, max_string_length c]"

definition positive_floats :: "security_config \<Rightarrow> pyfloat list" where
  "positive_floats c =
     [replay_window_seconds c, read_timeout_seconds c, write_timeout_seconds c,
      connect_timeout_seconds c, udp_rate_window_seconds c, max_lease_duration_seconds c]"

definition security_post_init :: "security_config \<Rightarrow> unit result" where
  "security_post_init c =
     (if list_ex (\<lambda>i. i \<le> 0) (positive_ints c) then Inl ValueError
      else if list_ex (\<lambda>x. \<not> isfinite x \<or> float_le_zero x) (positive_floats c)
      then Inl ValueError
      else Inr ())"

subsection \<open>Canonical bytes\<close>

definition canonical_json_bytes :: "(real \<Rightarrow> string) \<Rightarrow> json \<Rightarrow> bytes result" where
  "canonical_json_bytes fr v =
     (case dumps fr False v of
        None \<Rightarrow> Inl MessageDecodeError
      | Some t \<Rightarrow> Inr (utf8_encode t))"

lemma canonical_json_bytes_Inr:
  "canonical_json_bytes fr v = Inr b \<longleftrightarrow> dumpable v \<and> b = utf8_encode (dump fr False (sort_json v))"
  by (auto simp: canonical_json_bytes_def dumps_def)

text \<open>
  Canonical bytes are deterministic and unambiguous. Parsing them gives back the value up
  to the order of dictionary keys, and two values have the same bytes exactly when they are
  equal up to that order.
\<close>

theorem canonical_json_bytes_faithful:
  assumes "printable fr pf v" "printable fr pf v'"
  shows "(\<exists>b t. canonical_json_bytes fr v = Inr b \<and> utf8_decode b = Some t \<and>
            loads pf t = Some (sort_json v)) \<and>
    (canonical_json_bytes fr v = canonical_json_bytes fr v' \<longleftrightarrow> sort_json v = sort_json v')"
proof -
  have d: "dumpable v" "dumpable v'" using assms by (simp_all add: printable_def)
  have l: "loads pf (dump fr False (sort_json u)) = Some (sort_json u)" if "printable fr pf u" for u
    using that by (simp add: loads_dump printable_sort_json)
  have "canonical_json_bytes fr v = canonical_json_bytes fr v' \<longleftrightarrow>
      dump fr False (sort_json v) = dump fr False (sort_json v')"
    using d by (simp add: canonical_json_bytes_def dumps_def utf8_encode_inj)
  also have "\<dots> \<longleftrightarrow> sort_json v = sort_json v'"
    using l [OF assms(1)] l [OF assms(2)] by (metis option.inject)
  finally show ?thesis using d l [OF assms(1)] by (simp add: canonical_json_bytes_def dumps_def)
qed

theorem canonical_json_bytes_faithful_witness:
  "canonical_json_bytes sample_repr (JDict [(''b'', JNull), (''a'', JFloat (Fin (1 / 2)))]) =
   canonical_json_bytes sample_repr (JDict [(''a'', JFloat (Fin (1 / 2))), (''b'', JNull)])"
  using canonical_json_bytes_faithful [of sample_repr sample_parse
      "JDict [(''b'', JNull), (''a'', JFloat (Fin (1 / 2)))]"
      "JDict [(''a'', JFloat (Fin (1 / 2))), (''b'', JNull)]"]
  by (simp add: printable_def sort_key_simps sample_float_text_ok)

subsection \<open>Bounded JSON\<close>

record json_limits =
  lim_depth :: int
  lim_items :: int
  lim_string :: int

text \<open>
  The work of one popped item: an error, or the number of items it adds to the count and the
  children it pushes (the last pushed is popped first).
\<close>

definition push_children :: "json \<Rightarrow> int \<Rightarrow> (json \<times> int) list" where
  "push_children j depth =
     (case j of
        JDict d \<Rightarrow> rev (map (\<lambda>(k, v). (JStr k, depth + 1)) d @ map (\<lambda>(k, v). (v, depth + 1)) d)
      | JList xs \<Rightarrow> rev (map (\<lambda>x. (x, depth + 1)) xs)
      | _ \<Rightarrow> [])"

fun json_weight :: "json \<Rightarrow> nat" where
  "json_weight (JList xs) = Suc (sum_list (map json_weight xs))"
| "json_weight (JDict d) = Suc (sum_list (map (\<lambda>(k, v). Suc (json_weight v)) d))"
| "json_weight _ = 1"

abbreviation stack_weight :: "(json \<times> int) list \<Rightarrow> nat" where
  "stack_weight st \<equiv> sum_list (map (json_weight \<circ> fst) st)"

lemma json_weight_pos: "0 < json_weight j"
  by (cases j) simp_all

lemma weight_push_children: "stack_weight (push_children j depth) < json_weight j"
proof (cases j)
  case (JDict d)
  have "stack_weight (push_children (JDict d) depth) = sum_list (map (\<lambda>(k, v). Suc (json_weight v)) d)"
    by (simp add: push_children_def comp_def case_prod_unfold sum_list_rev rev_map [symmetric]
        flip: sum_list_addf)
  then show ?thesis using JDict by simp
next
  case (JList xs)
  then show ?thesis by (simp add: push_children_def comp_def rev_map [symmetric] sum_list_rev)
qed (simp_all add: push_children_def)

function validate_loop :: "json_limits \<Rightarrow> int \<Rightarrow> (json \<times> int) list \<Rightarrow> unit result" where
  "validate_loop lm item_count [] = Inr ()"
| "validate_loop lm item_count ((current, depth) # stack) =
     (if depth > lim_depth lm then Inl MessageDecodeError
      else
        (case current of
           JStr s \<Rightarrow>
             if len (utf8_encode s) > lim_string lm then Inl MessageDecodeError
             else validate_loop lm item_count stack
         | JInt i \<Rightarrow> validate_loop lm item_count stack
         | JBool b \<Rightarrow> validate_loop lm item_count stack
         | JFloat x \<Rightarrow>
             if \<not> isfinite x then Inl MessageDecodeError else validate_loop lm item_count stack
         | JDict d \<Rightarrow>
             if item_count + len d > lim_items lm then Inl MessageDecodeError
             else validate_loop lm (item_count + len d) (push_children current depth @ stack)
         | JList xs \<Rightarrow>
             if item_count + len xs > lim_items lm then Inl MessageDecodeError
             else validate_loop lm (item_count + len xs) (push_children current depth @ stack)
         | JNull \<Rightarrow> validate_loop lm item_count stack
         | JOther t \<Rightarrow> Inl MessageDecodeError))"
  by pat_completeness auto

termination
  by (relation "measure (\<lambda>(lm, n, st). stack_weight st)")
     (simp_all add: weight_push_children json_weight_pos del: json_weight.simps)

definition validate_json_tree :: "json_limits \<Rightarrow> json \<Rightarrow> unit result" where
  "validate_json_tree lm value = validate_loop lm 0 [(value, 0)]"

text \<open>The specification, by recursion on the value: depth, strings and leaves, then the item count.\<close>

fun tree_ok :: "json_limits \<Rightarrow> int \<Rightarrow> json \<Rightarrow> bool" where
  "tree_ok lm depth (JStr s) = (depth \<le> lim_depth lm \<and> len (utf8_encode s) \<le> lim_string lm)"
| "tree_ok lm depth (JFloat x) = (depth \<le> lim_depth lm \<and> isfinite x)"
| "tree_ok lm depth (JDict d) =
     (depth \<le> lim_depth lm \<and>
      (\<forall>k \<in> fst ` set d. depth + 1 \<le> lim_depth lm \<and> len (utf8_encode k) \<le> lim_string lm) \<and>
      (\<forall>v \<in> snd ` set d. tree_ok lm (depth + 1) v))"
| "tree_ok lm depth (JList xs) =
     (depth \<le> lim_depth lm \<and> (\<forall>x \<in> set xs. tree_ok lm (depth + 1) x))"
| "tree_ok lm depth (JOther t) = False"
| "tree_ok lm depth j = (depth \<le> lim_depth lm)"

fun json_items :: "json \<Rightarrow> int" where
  "json_items (JDict d) = len d + sum_list (map (\<lambda>(k, v). json_items v) d)"
| "json_items (JList xs) = len xs + sum_list (map json_items xs)"
| "json_items j = 0"

definition stack_items :: "(json \<times> int) list \<Rightarrow> int" where
  "stack_items st = sum_list (map (\<lambda>p. json_items (fst p)) st)"

lemma stack_items_simps [simp]:
  "stack_items [] = 0" "stack_items ((j, d) # st) = json_items j + stack_items st"
  "stack_items (st @ st') = stack_items st + stack_items st'"
  by (simp_all add: stack_items_def)

lemma json_items_nonneg: "0 \<le> json_items j"
  by (induction j) (force intro!: add_nonneg_nonneg sum_list_nonneg)+

lemma stack_items_nonneg: "0 \<le> stack_items st"
  by (induction st) (auto simp: json_items_nonneg add_nonneg_nonneg)

abbreviation stack_ok :: "json_limits \<Rightarrow> (json \<times> int) list \<Rightarrow> bool" where
  "stack_ok lm st \<equiv> list_all (\<lambda>(j, depth). tree_ok lm depth j) st"

lemma tree_ok_depth: "tree_ok lm depth j \<Longrightarrow> depth \<le> lim_depth lm"
  by (cases j) simp_all

lemma tree_ok_push_children:
  assumes "depth \<le> lim_depth lm"
  shows "tree_ok lm depth (JDict ps) \<longleftrightarrow> stack_ok lm (push_children (JDict ps) depth)"
    "tree_ok lm depth (JList xs) \<longleftrightarrow> stack_ok lm (push_children (JList xs) depth)"
  using assms by (auto simp: push_children_def list_all_iff case_prod_unfold ball_Un)

lemma items_push_children:
  "json_items (JDict ps) = len ps + stack_items (push_children (JDict ps) depth)"
  "json_items (JList xs) = len xs + stack_items (push_children (JList xs) depth)"
  by (simp_all add: stack_items_def push_children_def comp_def case_prod_unfold flip: rev_map)

text \<open>The answer of the loop on a stack of checked depth, in terms of the specification.\<close>

definition verdict :: "bool \<Rightarrow> unit result" where
  "verdict b = (if b then Inr () else Inl MessageDecodeError)"

lemma verdict_simps: "verdict True = Inr ()" "verdict False = Inl MessageDecodeError"
  by (simp_all add: verdict_def)

lemma validate_loop_verdict:
  "item_count \<le> lim_items lm \<Longrightarrow>
   validate_loop lm item_count st =
     verdict (stack_ok lm st \<and> item_count + stack_items st \<le> lim_items lm)"
proof (induction lm item_count st rule: validate_loop.induct)
  case (2 lm n j depth st)
  show ?case
  proof (cases "lim_depth lm < depth")
    case True
    then have "\<not> tree_ok lm depth j" using tree_ok_depth [of lm depth j] by linarith
    with True show ?thesis by (simp add: verdict_def)
  next
    case False
    then have le: "depth \<le> lim_depth lm" by simp
    show ?thesis
    proof (cases j)
      case (JDict ps)
      have "0 \<le> stack_items (push_children (JDict ps) depth)" "0 \<le> stack_items st"
        by (rule stack_items_nonneg)+
      then show ?thesis
        using 2 False JDict unfolding JDict list.pred_inject prod.case tree_ok_push_children [OF le]
        by (simp add: items_push_children [of _ depth] verdict_def del: json_items.simps)
    next
      case (JList xs)
      have "0 \<le> stack_items (push_children (JList xs) depth)" "0 \<le> stack_items st"
        by (rule stack_items_nonneg)+
      then show ?thesis
        using 2 False JList unfolding JList list.pred_inject prod.case tree_ok_push_children [OF le]
        by (simp add: items_push_children [of _ depth] verdict_def del: json_items.simps)
    qed (use 2 False in \<open>simp_all add: verdict_simps\<close>)
  qed
qed (simp add: verdict_def)

text \<open>Key order does not matter to the bounds.\<close>

lemma tree_ok_sort_json: "tree_ok lm n (sort_json j) \<longleftrightarrow> tree_ok lm n j"
proof (induction j arbitrary: n)
  case (JDict d)
  have "fst ` set (map (\<lambda>(k, v). (k, sort_json v)) d) = fst ` set d" by force
  with JDict show ?case by (simp only: sort_json.simps tree_ok.simps set_sort snd_map_snd) auto
qed auto

lemma json_items_sort_json: "json_items (sort_json j) = json_items j"
proof (induction j)
  case (JList xs)
  then have "map (\<lambda>x. json_items (sort_json x)) xs = map json_items xs" by simp
  then show ?case by (simp only: sort_json.simps json_items.simps length_map map_map comp_def)
next
  case (JDict d)
  have "sum_list (map f (sort_key fst xs)) = sum_list (map f xs)" for f :: "string \<times> json \<Rightarrow> int" and xs
    by (metis mset_map mset_sort sum_mset_sum_list)
  moreover have "map (\<lambda>(k, v). json_items (sort_json v)) d = map (\<lambda>(k, v). json_items v) d"
    using JDict by force
  ultimately show ?case
    by (simp only: sort_json.simps json_items.simps length_sort length_map map_map comp_def case_prod_unfold
        fst_conv snd_conv)
qed simp_all

lemma validate_sort_json:
  "0 \<le> lim_items lm \<Longrightarrow> validate_json_tree lm (sort_json j) = validate_json_tree lm j"
  using validate_loop_verdict [of 0 lm "[(sort_json j, 0)]"] validate_loop_verdict [of 0 lm "[(j, 0)]"]
  by (simp add: validate_json_tree_def tree_ok_sort_json json_items_sort_json)


definition sample_limits :: json_limits where
  "sample_limits = \<lparr>lim_depth = 2, lim_items = 3, lim_string = 4\<rparr>"


text \<open>The loop of \<^verbatim>\<open>validate_json_tree\<close> cut off after a number of iterations.\<close>

fun validate_within :: "json_limits \<Rightarrow> nat \<Rightarrow> int \<Rightarrow> (json \<times> int) list \<Rightarrow> unit result option" where
  "validate_within lm k item_count [] = Some (Inr ())"
| "validate_within lm 0 item_count (p # stack) = None"
| "validate_within lm (Suc k) item_count ((current, depth) # stack) =
     (if depth > lim_depth lm then Some (Inl MessageDecodeError)
      else
        (case current of
           JStr s \<Rightarrow>
             if len (utf8_encode s) > lim_string lm then Some (Inl MessageDecodeError)
             else validate_within lm k item_count stack
         | JInt i \<Rightarrow> validate_within lm k item_count stack
         | JBool b \<Rightarrow> validate_within lm k item_count stack
         | JFloat x \<Rightarrow>
             if \<not> isfinite x then Some (Inl MessageDecodeError) else validate_within lm k item_count stack
         | JDict d \<Rightarrow>
             if item_count + len d > lim_items lm then Some (Inl MessageDecodeError)
             else validate_within lm k (item_count + len d) (push_children current depth @ stack)
         | JList xs \<Rightarrow>
             if item_count + len xs > lim_items lm then Some (Inl MessageDecodeError)
             else validate_within lm k (item_count + len xs) (push_children current depth @ stack)
         | JNull \<Rightarrow> validate_within lm k item_count stack
         | JOther t \<Rightarrow> Some (Inl MessageDecodeError)))"

lemma length_push_children:
  "length (push_children (JDict d) depth) = 2 * length d" "length (push_children (JList xs) depth) = length xs"
  by (simp_all add: push_children_def)

lemma validate_within_enough:
  assumes "len st + 2 * (lim_items lm - c) \<le> int k" "c \<le> lim_items lm"
  shows "validate_within lm k c st = Some (validate_loop lm c st)"
  using assms
proof (induction lm k c st rule: validate_within.induct)
  case (3 lm k c current depth stack)
  have le: "len stack + 2 * (lim_items lm - c) \<le> int k" using "3.prems"(1) by simp
  show ?case
  proof (cases current)
    case (JDict d)
    then show ?thesis using 3 by (simp add: length_push_children)
  next
    case (JList xs)
    then show ?thesis using 3 by (simp add: length_push_children)
  qed (use 3 le in simp_all)
qed simp_all

text \<open>
  C28: validation ends soon. However large and deeply nested the value is, the loop of
  \<^verbatim>\<open>validate_json_tree\<close> decides it within \<open>2 * max_items + 1\<close> iterations.
\<close>

theorem validate_terminates:
  assumes "0 \<le> lim_items lm"
  shows "validate_within lm (2 * nat (lim_items lm) + 1) 0 [(v, 0)] = Some (validate_json_tree lm v)"
  unfolding validate_json_tree_def using assms by (intro validate_within_enough) simp_all

theorem validate_terminates_witness:
  "validate_within \<lparr>lim_depth = 9, lim_items = 1, lim_string = 9\<rparr> 3 0 [(JList [JList [], JNull], 0)] = Some (Inl MessageDecodeError)"
  using validate_terminates [of "\<lparr>lim_depth = 9, lim_items = 1, lim_string = 9\<rparr>" "JList [JList [], JNull]"]
  by (simp add: validate_json_tree_def eval_nat_numeral)

subsection \<open>Replay cache\<close>

record replay_cache =
  max_entries :: int
  entries :: "(string \<times> string, real) dict"

definition ReplayCache :: "int \<Rightarrow> replay_cache result" where
  "ReplayCache n = (if n \<le> 0 then Inl ValueError else Inr \<lparr>max_entries = n, entries = []\<rparr>)"

text \<open>The two loops: drop stale entries from the oldest on, then evict down to the capacity.\<close>

fun drop_stale :: "real \<Rightarrow> ('k, real) dict \<Rightarrow> ('k, real) dict" where
  "drop_stale cutoff [] = []"
| "drop_stale cutoff ((k, timestamp) # d) =
     (if timestamp \<ge> cutoff then (k, timestamp) # d else drop_stale cutoff d)"

fun evict :: "int \<Rightarrow> ('k, 'v) dict \<Rightarrow> ('k, 'v) dict" where
  "evict n [] = []"
| "evict n (e # d) = (if len (e # d) > n then evict n d else e # d)"

definition check_and_remember ::
  "replay_cache \<Rightarrow> string \<Rightarrow> string \<Rightarrow> real \<Rightarrow> real \<Rightarrow> bool \<times> replay_cache" where
  "check_and_remember c sender_id nonce now window =
     (let cutoff = now - window;
          live = drop_stale cutoff (entries c);
          key = (sender_id, nonce)
      in if has_key live key then (False, c\<lparr>entries := live\<rparr>)
         else (True, c\<lparr>entries := evict (max_entries c) (AList.update key now live)\<rparr>))"

definition replay_len :: "replay_cache \<Rightarrow> int" where
  "replay_len c = len (entries c)"

definition replay_wf :: "replay_cache \<Rightarrow> bool" where
  "replay_wf c \<longleftrightarrow> 0 < max_entries c \<and> distinct (keys (entries c)) \<and> replay_len c \<le> max_entries c"

lemma drop_stale_suffix: "\<exists>xs. d = xs @ drop_stale cutoff d"
  by (induction cutoff d rule: drop_stale.induct) (auto, metis append_Cons)

lemma evict_suffix: "\<exists>xs. d = xs @ evict n d"
  by (induction d) (auto intro: exI [of _ "[]"] exI [of _ "_ # _"])

lemma length_evict: "0 \<le> n \<Longrightarrow> len (evict n d) \<le> n"
  by (induction d) auto

lemma distinct_suffix: "d = xs @ e \<Longrightarrow> distinct (keys d) \<Longrightarrow> distinct (keys e)"
  by simp

lemma length_drop_stale: "length (drop_stale cutoff d) \<le> length d"
  using drop_stale_suffix [of d cutoff] by (metis le_add2 length_append)

lemma replay_wf_check:
  assumes "replay_wf c"
  shows "replay_wf (snd (check_and_remember c s n now w))"
proof -
  let ?l = "drop_stale (now - w) (entries c)"
  have d: "distinct (keys ?l)"
    using assms drop_stale_suffix [of "entries c" "now - w"] distinct_suffix
    unfolding replay_wf_def by blast
  then have "distinct (keys (evict (max_entries c) (AList.update (s, n) now ?l)))"
    using distinct_keys_update [OF d] evict_suffix distinct_suffix by blast
  with assms d length_drop_stale [of "now - w" "entries c"] show ?thesis
    by (auto simp: check_and_remember_def Let_def replay_wf_def replay_len_def intro: length_evict)
qed

text \<open>A run of calls, each with its own time, and the answers.\<close>

fun replay_run ::
  "replay_cache \<Rightarrow> real \<Rightarrow> (string \<times> string \<times> real) list \<Rightarrow> bool list \<times> replay_cache" where
  "replay_run c w [] = ([], c)"
| "replay_run c w ((s, n, now) # calls) =
     (let (b, c') = check_and_remember c s n now w; (bs, c'') = replay_run c' w calls
      in (b # bs, c''))"

text \<open>The entry of a nonce survives until it is stale or displaced by enough newer ones.\<close>

definition remembered :: "replay_cache \<Rightarrow> string \<times> string \<Rightarrow> real \<Rightarrow> int \<Rightarrow> bool" where
  "remembered c key t newer \<longleftrightarrow>
     (\<exists>xs ys. entries c = xs @ (key, t) # ys \<and> len ys \<le> newer)"

lemma rememberedI: "entries c = xs @ (key, t) # ys \<Longrightarrow> len ys \<le> newer \<Longrightarrow> remembered c key t newer"
  by (auto simp: remembered_def)

lemma drop_stale_keeps:
  "cutoff \<le> t \<Longrightarrow> \<exists>zs. drop_stale cutoff (xs @ (k, t) # ys) = zs @ (k, t) # ys"
  by (induction xs) (auto split: prod.splits)

lemma evict_keeps:
  "len ys < n \<Longrightarrow> \<exists>zs. evict n (xs @ e # ys) = zs @ e # ys"
  by (induction xs) auto

lemma remembered_check:
  assumes "remembered c key t newer" "b \<longrightarrow> newer + 1 < max_entries c" "now - w \<le> t"
    and "check_and_remember c s n now w = (b, c')"
  shows "remembered c' key t (newer + (if b then 1 else 0)) \<and> max_entries c' = max_entries c"
proof -
  obtain xs ys where c: "entries c = xs @ (key, t) # ys" "len ys \<le> newer"
    using assms(1) by (auto simp: remembered_def)
  obtain zs where z: "drop_stale (now - w) (entries c) = zs @ (key, t) # ys"
    using drop_stale_keeps [OF assms(3)] c(1) by metis
  show ?thesis
  proof (cases "has_key (drop_stale (now - w) (entries c)) (s, n)")
    case True
    with assms(4) z c(2) show ?thesis
      by (auto simp: check_and_remember_def Let_def intro: rememberedI [OF _ c(2)])
  next
    case False
    then have "AList.update (s, n) now (zs @ (key, t) # ys) = zs @ (key, t) # ys @ [((s, n), now)]"
      by (simp add: z update_new)
    moreover have "len (ys @ [((s, n), now)]) < max_entries c" using c(2) assms(2,4) False by (auto simp: check_and_remember_def Let_def)
    ultimately obtain us where
      "evict (max_entries c) (AList.update (s, n) now (drop_stale (now - w) (entries c)))
         = us @ (key, t) # ys @ [((s, n), now)]"
      using evict_keeps [of "ys @ [((s, n), now)]"] z by metis
    with False assms(4) c(2) show ?thesis
      by (auto simp: check_and_remember_def Let_def intro!: rememberedI)
  qed
qed

lemma remembered_run:
  assumes "remembered c key t newer" "newer + len (filter id bs) < max_entries c"
    and "\<forall>(s, n, now) \<in> set calls. now - w \<le> t" "replay_run c w calls = (bs, c')"
  shows "\<exists>newer'. remembered c' key t newer'"
  using assms
proof (induction c w calls arbitrary: newer bs rule: replay_run.induct)
  case (2 c w s n now calls)
  obtain b c1 bs1 where step: "check_and_remember c s n now w = (b, c1)"
    "replay_run c1 w calls = (bs1, c')" "bs = b # bs1"
    using 2(5) by (auto simp: Let_def split: prod.splits)
  have "remembered c1 key t (newer + (if b then 1 else 0)) \<and> max_entries c1 = max_entries c"
    using 2(3,4) step by (intro remembered_check [OF 2(2) _ _ step(1)]) auto
  then show ?case
    using 2(1) [OF step(1) [symmetric] refl, of "newer + (if b then 1 else 0)" bs1] 2(3,4) step(2,3)
    by (cases b) auto
qed auto

lemma remembered_rejected:
  assumes "remembered c (s, n) t newer" "now - w \<le> t"
  shows "\<not> fst (check_and_remember c s n now w)"
proof -
  obtain xs ys where "entries c = xs @ ((s, n), t) # ys" using assms(1) by (auto simp: remembered_def)
  then obtain zs where "drop_stale (now - w) (entries c) = zs @ ((s, n), t) # ys"
    using drop_stale_keeps [OF assms(2)] by metis
  then show ?thesis by (simp add: check_and_remember_def Let_def has_key_iff)
qed

lemma accepted_remembered:
  assumes "0 < max_entries c" "check_and_remember c s n t w = (True, c')"
  shows "remembered c' (s, n) t 0 \<and> max_entries c' = max_entries c"
proof -
  let ?l = "drop_stale (t - w) (entries c)"
  have new: "\<not> has_key ?l (s, n)" using assms(2) by (auto simp: check_and_remember_def Let_def split: if_splits)
  obtain zs where "evict (max_entries c) (?l @ [((s, n), t)]) = zs @ [((s, n), t)]"
    using evict_keeps [of "[]" "max_entries c" ?l "((s, n), t)"] assms(1) by auto
  with new assms(2) show ?thesis
    by (auto simp: check_and_remember_def Let_def update_new intro!: rememberedI)
qed

text \<open>
  Replay protection. Once a nonce has been accepted, it is rejected at every later call
  within the window, whatever other calls happen in between, as long as fewer nonces than the
  capacity of the cache have been accepted since.
\<close>

theorem replay_rejected:
  assumes "0 < max_entries c" "check_and_remember c s n t w = (True, c1)"
    and "replay_run c1 w calls = (bs, c2)" "\<forall>(s', n', now') \<in> set calls. now' - w \<le> t"
    and "len (filter id bs) < max_entries c" "now - w \<le> t"
  shows "fst (check_and_remember c2 s n now w) = False"
proof -
  have r: "remembered c1 (s, n) t 0" and m: "max_entries c1 = max_entries c"
    using accepted_remembered [OF assms(1,2)] by simp_all
  obtain newer' where "remembered c2 (s, n) t newer'"
    using remembered_run [OF r _ assms(4,3)] assms(5) m by auto
  then show ?thesis using remembered_rejected [OF _ assms(6)] by simp
qed

definition sample_cache :: replay_cache where
  "sample_cache = \<lparr>max_entries = 2, entries = []\<rparr>"

theorem replay_rejected_witness:
  "fst (check_and_remember \<lparr>max_entries = 2, entries = [((''p'', ''x''), 5), ((''q'', ''y''), 6)]\<rparr>
      ''p'' ''x'' 8 4) = False"
  using replay_rejected [of sample_cache "''p''" "''x''" 5 4
      "\<lparr>max_entries = 2, entries = [((''p'', ''x''), 5)]\<rparr>" "[(''q'', ''y'', 6)]" "[True]"
      "\<lparr>max_entries = 2, entries = [((''p'', ''x''), 5), ((''q'', ''y''), 6)]\<rparr>" 8]
  by (simp add: sample_cache_def check_and_remember_def Let_def has_key_def)

subsection \<open>Rate limiter\<close>

record rate_limiter =
  max_events :: int
  window_seconds :: real
  max_sources :: int
  events :: "(string, real list) dict"

definition RateLimiter :: "int \<Rightarrow> real \<Rightarrow> int \<Rightarrow> rate_limiter result" where
  "RateLimiter n w m =
     (if n \<le> 0 \<or> w \<le> 0 \<or> m \<le> 0 then Inl ValueError
      else Inr \<lparr>max_events = n, window_seconds = w, max_sources = m, events = []\<rparr>)"

definition allow :: "rate_limiter \<Rightarrow> string \<Rightarrow> real \<Rightarrow> bool \<times> rate_limiter" where
  "allow l source now =
     (let (d, evs) =
            (case map_of (events l) source of
               None \<Rightarrow>
                 (AList.update source []
                    (if len (events l) \<ge> max_sources l then tl (events l) else events l), [])
             | Some evs \<Rightarrow> (move_to_end source (events l), evs));
          cutoff = now - window_seconds l;
          evs' = dropWhile (\<lambda>t. t < cutoff) evs
      in if len evs' \<ge> max_events l then (False, l\<lparr>events := AList.update source evs' d\<rparr>)
         else (True, l\<lparr>events := AList.update source (evs' @ [now]) d\<rparr>))"

definition deque_of :: "rate_limiter \<Rightarrow> string \<Rightarrow> real list" where
  "deque_of l s = get_default (events l) s []"

text \<open>A run of calls and the events it let through.\<close>

fun limiter_run ::
  "rate_limiter \<Rightarrow> (string \<times> real) list \<Rightarrow> (string \<times> real) list \<times> rate_limiter" where
  "limiter_run l [] = ([], l)"
| "limiter_run l ((s, now) # calls) =
     (let (b, l') = allow l s now; (acc, l'') = limiter_run l' calls
      in ((if b then [(s, now)] else []) @ acc, l''))"

definition times_of :: "(string \<times> real) list \<Rightarrow> string \<Rightarrow> real list" where
  "times_of h s = map snd (filter (\<lambda>p. fst p = s) h)"

definition in_window :: "real list \<Rightarrow> real \<Rightarrow> real \<Rightarrow> int" where
  "in_window ts x w = len (filter (\<lambda>t. x \<le> t \<and> t \<le> x + w) ts)"

lemma times_of_simps [simp]:
  "times_of [] s = []" "times_of (h @ [(s', t)]) s = times_of h s @ (if s' = s then [t] else [])"
  by (simp_all add: times_of_def)

text \<open>Every source is tracked: the set of sources in use fits the table.\<close>

definition tracks :: "rate_limiter \<Rightarrow> string set \<Rightarrow> bool" where
  "tracks l S \<longleftrightarrow> finite S \<and> int (card S) \<le> max_sources l \<and>
     distinct (keys (events l)) \<and> set (keys (events l)) \<subseteq> S"

definition live_events :: "rate_limiter \<Rightarrow> string \<Rightarrow> real \<Rightarrow> real list" where
  "live_events l s now = dropWhile (\<lambda>t. t < now - window_seconds l) (deque_of l s)"

lemma tracks_room:
  assumes "tracks l S" "s \<in> S" "map_of (events l) s = None"
  shows "len (events l) < max_sources l"
proof -
  have "set (keys (events l)) \<subset> S"
    using assms by (auto simp: tracks_def map_of_eq_None_iff)
  then have "card (set (keys (events l))) < card S"
    using assms(1) by (simp add: tracks_def psubset_card_mono)
  moreover have "card (set (keys (events l))) = length (events l)"
    using assms(1) distinct_card [of "keys (events l)"] by (simp add: tracks_def)
  ultimately show ?thesis using assms(1) by (simp add: tracks_def)
qed

lemma allow_tracked:
  assumes "tracks l S" "s \<in> S" "allow l s now = (b, l')"
  shows "b \<longleftrightarrow> len (live_events l s now) < max_events l"
    and "deque_of l' r =
      (if r = s then live_events l s now @ (if b then [now] else []) else deque_of l r)"
    and "tracks l' S" and "max_events l' = max_events l" and "window_seconds l' = window_seconds l"
proof -
  have "\<exists>d. distinct (keys d) \<and> set (keys d) \<subseteq> S \<and> (\<forall>r. r \<noteq> s \<longrightarrow> map_of d r = map_of (events l) r) \<and>
     (b, l') = (if len (live_events l s now) \<ge> max_events l
       then (False, l\<lparr>events := AList.update s (live_events l s now) d\<rparr>)
       else (True, l\<lparr>events := AList.update s (live_events l s now @ [now]) d\<rparr>))"
  proof (cases "map_of (events l) s")
    case None
    then show ?thesis
      using tracks_room [OF assms(1,2) None] assms
      by (intro exI [of _ "AList.update s [] (events l)"])
         (auto simp: allow_def live_events_def deque_of_def get_default_def tracks_def Let_def dict_simps)
  next
    case (Some evs)
    then show ?thesis
      using assms
      by (intro exI [of _ "move_to_end s (events l)"])
         (auto simp: allow_def live_events_def deque_of_def get_default_def tracks_def Let_def dict_simps)
  qed
  then obtain d where d: "distinct (keys d)" "set (keys d) \<subseteq> S"
    "\<And>r. r \<noteq> s \<Longrightarrow> map_of d r = map_of (events l) r"
    "(b, l') = (if len (live_events l s now) \<ge> max_events l
       then (False, l\<lparr>events := AList.update s (live_events l s now) d\<rparr>)
       else (True, l\<lparr>events := AList.update s (live_events l s now @ [now]) d\<rparr>))"
    by blast
  then show "b \<longleftrightarrow> len (live_events l s now) < max_events l"
    "deque_of l' r = (if r = s then live_events l s now @ (if b then [now] else []) else deque_of l r)"
    "tracks l' S" "max_events l' = max_events l" "window_seconds l' = window_seconds l"
    using assms(1,2)
    by (auto simp: deque_of_def get_default_def tracks_def dict_simps split: if_splits)
qed

text \<open>
  What the table knows of the history \<open>h\<close> of admitted events at time \<open>now\<close>: a deque is the
  history of its source without events that have left the window, and no window ever held
  more than \<^verbatim>\<open>max_events\<close>.
\<close>

definition limiter_inv :: "rate_limiter \<Rightarrow> real \<Rightarrow> (string \<times> real) list \<Rightarrow> bool" where
  "limiter_inv l now h \<longleftrightarrow>
     (\<forall>s. \<exists>old. times_of h s = old @ deque_of l s \<and> (\<forall>t \<in> set old. t < now - window_seconds l)) \<and>
     (\<forall>s x. in_window (times_of h s) x (window_seconds l) \<le> max_events l)"

lemma in_window_snoc:
  "in_window (ts @ [t]) x w = in_window ts x w + (if x \<le> t \<and> t \<le> x + w then 1 else 0)"
  by (simp add: in_window_def)

lemma in_window_suffix:
  assumes "\<forall>t \<in> set old. t < x"
  shows "in_window (old @ ts) x w \<le> len ts"
proof -
  have "filter (\<lambda>t. x \<le> t \<and> t \<le> x + w) old = []" using assms by (auto simp: filter_empty_conv)
  then show ?thesis by (simp add: in_window_def)
qed

lemma limiter_inv_allow:
  assumes inv: "limiter_inv l t0 h" and tr: "tracks l S" "s \<in> S" and le: "t0 \<le> now"
    and step: "allow l s now = (b, l')"
  shows "limiter_inv l' now (h @ (if b then [(s, now)] else []))"
proof -
  note a = allow_tracked [OF tr step]
  let ?h = "h @ (if b then [(s, now)] else [])" and ?w = "window_seconds l"
  have split: "\<exists>old. times_of ?h r = old @ deque_of l' r \<and> (\<forall>t \<in> set old. t < now - ?w)" for r
  proof -
    obtain old where old: "times_of h r = old @ deque_of l r" "\<forall>t \<in> set old. t < t0 - ?w"
      using inv unfolding limiter_inv_def by blast
    have "deque_of l s = takeWhile (\<lambda>t. t < now - ?w) (deque_of l s) @ live_events l s now"
      by (simp add: live_events_def)
    with old le show ?thesis
      by (cases "r = s")
         (fastforce simp: a(2) intro: exI [of _ "old @ takeWhile (\<lambda>t. t < now - ?w) (deque_of l s)"]
            exI [of _ old] dest: set_takeWhileD)+
  qed
  have "in_window (times_of ?h r) x ?w \<le> max_events l" for r x
  proof (cases "b \<and> r = s \<and> x \<le> now \<and> now \<le> x + ?w")
    case True
    obtain old where old: "times_of ?h s = old @ deque_of l' s" "\<forall>t \<in> set old. t < now - ?w"
      using split by blast
    have "in_window (times_of ?h s) x ?w \<le> len (deque_of l' s)"
      unfolding old(1) using old(2) True by (intro in_window_suffix) fastforce
    also have "\<dots> \<le> max_events l" using True a(1,2) by simp
    finally show ?thesis using True by simp
  next
    case False
    then have "in_window (times_of ?h r) x ?w = in_window (times_of h r) x ?w"
      by (auto simp: in_window_snoc)
    then show ?thesis using inv by (simp add: limiter_inv_def)
  qed
  then show ?thesis using split a(4,5) by (simp add: limiter_inv_def)
qed

lemma limiter_inv_run:
  "limiter_inv l t0 h \<Longrightarrow> tracks l S \<Longrightarrow> fst ` set calls \<subseteq> S \<Longrightarrow> sorted (t0 # map snd calls) \<Longrightarrow>
   limiter_run l calls = (acc, l') \<Longrightarrow>
   \<exists>t1. limiter_inv l' t1 (h @ acc) \<and> max_events l' = max_events l \<and> window_seconds l' = window_seconds l"
proof (induction l calls arbitrary: h t0 acc rule: limiter_run.induct)
  case (2 l s now calls)
  obtain b l1 acc1 where step: "allow l s now = (b, l1)" "limiter_run l1 calls = (acc1, l')"
    "acc = (if b then [(s, now)] else []) @ acc1"
    using 2(6) by (auto simp: Let_def split: prod.splits)
  have s: "s \<in> S" "t0 \<le> now" "fst ` set calls \<subseteq> S" "sorted (now # map snd calls)"
    using 2(4,5) by auto
  note a = allow_tracked [OF 2(3) s(1) step(1)]
  from 2(1) [OF step(1) [symmetric] refl limiter_inv_allow [OF 2(2) 2(3) s(1,2) step(1)] a(3) s(3,4) step(2)]
  show ?case using a(4,5) step(3) by simp
qed auto



end
