(* ===== verification/Semilattice.thy ===== *)
theory Semilattice
  imports Prelude
begin

section \<open>Join-semilattices and convergence of replicas\<close>

text \<open>
  The contract that \<^verbatim>\<open>consensus.py\<close> promises for its two merge functions: commutative,
  associative and idempotent on well-formed values. What a mesh of replicas gets from it is
  proved once: the state of a replica after any sequence of merges depends only on the set
  of values it has received, it dominates each of them, and it is the least such state. The
  theories \<open>Vector_Clock\<close> and \<open>Record_Merge\<close> interpret the locale.
\<close>

locale join_semilattice =
  fixes carrier :: "'a \<Rightarrow> bool"
    and join :: "'a \<Rightarrow> 'a \<Rightarrow> 'a"
  assumes closed: "carrier a \<Longrightarrow> carrier b \<Longrightarrow> carrier (join a b)"
    and commute: "carrier a \<Longrightarrow> carrier b \<Longrightarrow> join a b = join b a"
    and assoc: "carrier a \<Longrightarrow> carrier b \<Longrightarrow> carrier c \<Longrightarrow> join (join a b) c = join a (join b c)"
    and idem: "carrier a \<Longrightarrow> join a a = a"
begin

lemma absorb_left: "carrier a \<Longrightarrow> carrier b \<Longrightarrow> join a (join a b) = join a b"
  by (metis assoc idem)

lemma absorb_right: "carrier a \<Longrightarrow> carrier b \<Longrightarrow> join b (join a b) = join a b"
  by (metis commute absorb_left)

lemma upper_mono:
  assumes "carrier a" "carrier b" "carrier x" "join x a = a"
  shows "join x (join a b) = join a b"
  using assms by (metis assoc)

lemma antisym:
  assumes "carrier a" "carrier b" "join a b = b" "join b a = a"
  shows "a = b"
  using assms commute by metis

lemma least: "carrier a \<Longrightarrow> carrier b \<Longrightarrow> carrier u \<Longrightarrow> join a u = u \<Longrightarrow> join b u = u \<Longrightarrow> join (join a b) u = u"
  by (simp add: assoc)

lemma fold_closed:
  "carrier s \<Longrightarrow> \<forall>x \<in> set xs. carrier x \<Longrightarrow> carrier (foldl join s xs)"
  by (induction xs arbitrary: s) (auto simp: closed)

lemma fold_above_start:
  "carrier s \<Longrightarrow> \<forall>x \<in> set xs. carrier x \<Longrightarrow> join s (foldl join s xs) = foldl join s xs"
proof (induction xs arbitrary: s)
  case (Cons x xs)
  then have "join (join s x) (foldl join (join s x) xs) = foldl join (join s x) xs"
    by (simp add: closed)
  with Cons.prems show ?case
    by (metis (no_types, lifting) absorb_left assoc closed fold_closed foldl_Cons list.set_intros)
qed (simp add: idem)

lemma fold_above_elem:
  "carrier s \<Longrightarrow> \<forall>x \<in> set xs. carrier x \<Longrightarrow> y \<in> set xs \<Longrightarrow>
     join y (foldl join s xs) = foldl join s xs"
proof (induction xs arbitrary: s)
  case (Cons x xs)
  show ?case
  proof (cases "y = x")
    case True
    let ?t = "join s x" let ?f = "foldl join (join s x) xs"
    have c: "carrier s" "carrier x" "carrier ?t" "carrier ?f" "\<forall>x \<in> set xs. carrier x"
      using Cons.prems by (auto intro!: closed fold_closed)
    have "join x ?f = join x (join ?t ?f)" using fold_above_start [OF c(3) c(5)] by simp
    also have "\<dots> = join (join x ?t) ?f" using c by (simp add: assoc)
    also have "\<dots> = ?f" using c fold_above_start [OF c(3) c(5)] by (simp add: absorb_right)
    finally show ?thesis using True by simp
  qed (use Cons in \<open>auto simp: closed\<close>)
qed simp

lemma fold_least:
  "carrier s \<Longrightarrow> \<forall>x \<in> set xs. carrier x \<Longrightarrow> carrier u \<Longrightarrow> join s u = u \<Longrightarrow>
     \<forall>x \<in> set xs. join x u = u \<Longrightarrow> join (foldl join s xs) u = u"
  by (induction xs arbitrary: s) (auto simp: closed least)

text \<open>Delivery order and duplication do not matter.\<close>

lemma convergence:
  assumes "carrier s" "\<forall>x \<in> set xs. carrier x" "set xs = set ys"
  shows "foldl join s xs = foldl join s ys"
proof (rule antisym)
  have ys: "\<forall>x \<in> set ys. carrier x" using assms by simp
  show "carrier (foldl join s xs)" "carrier (foldl join s ys)"
    using assms ys by (simp_all add: fold_closed)
  then show "join (foldl join s xs) (foldl join s ys) = foldl join s ys"
    "join (foldl join s ys) (foldl join s xs) = foldl join s xs"
    using assms ys by (simp_all add: fold_least fold_above_start fold_above_elem)
qed

text \<open>Neither does the value a replica happens to see first.\<close>

lemma fold_from_member: "carrier s \<Longrightarrow> foldl join s (s # xs) = foldl join s xs"
  by (simp add: idem)

lemma convergence_any_start:
  assumes "\<forall>x \<in> set xs. carrier x" "set xs = set ys" "s \<in> set xs" "t \<in> set ys"
  shows "foldl join s xs = foldl join t ys"
proof (rule antisym)
  have c: "carrier s" "carrier t" "\<forall>x \<in> set ys. carrier x" using assms by auto
  show "carrier (foldl join s xs)" "carrier (foldl join t ys)" using assms(1) c by (simp_all add: fold_closed)
  then show "join (foldl join s xs) (foldl join t ys) = foldl join t ys"
    "join (foldl join t ys) (foldl join s xs) = foldl join s xs"
    using assms c by (simp_all add: fold_least fold_above_elem)
qed

end

text \<open>
  A second contract on top of the first: values with a component in a join-semilattice, of
  which the one with the greater key wins while the components are joined. If the key
  separates values up to that component, the operation is a join-semilattice again.
\<close>

locale ranked_join = part: join_semilattice carrier join
  for carrier :: "'a \<Rightarrow> bool" and join :: "'a \<Rightarrow> 'a \<Rightarrow> 'a" +
  fixes dom_ok :: "'r \<Rightarrow> bool"
    and key :: "'r \<Rightarrow> 'k::linorder"
    and get :: "'r \<Rightarrow> 'a"
    and put :: "'a \<Rightarrow> 'r \<Rightarrow> 'r"
    and pick :: "'r \<Rightarrow> 'r \<Rightarrow> 'r"
  assumes pick_eq: "pick r s = put (join (get r) (get s)) (if key s \<le> key r then r else s)"
    and key_put: "key (put c r) = key r"
    and get_put: "get (put c r) = c"
    and put_put: "put c (put d r) = put c r"
    and put_get: "put (get r) r = r"
    and get_ok: "dom_ok r \<Longrightarrow> carrier (get r)"
    and put_ok: "dom_ok r \<Longrightarrow> carrier c \<Longrightarrow> dom_ok (put c r)"
    and key_inj: "dom_ok r \<Longrightarrow> dom_ok s \<Longrightarrow> key r = key s \<Longrightarrow> put c r = put c s"
begin

lemma key_pick: "key (pick r s) = max (key r) (key s)"
  by (auto simp: pick_eq key_put max_def)

lemma get_pick: "get (pick r s) = join (get r) (get s)"
  by (simp add: pick_eq get_put)

lemma pick_ok: "dom_ok r \<Longrightarrow> dom_ok s \<Longrightarrow> dom_ok (pick r s)"
  by (simp add: pick_eq put_ok get_ok part.closed)

lemma pick_commute:
  assumes "dom_ok r" "dom_ok s"
  shows "pick r s = pick s r"
proof -
  have "join (get r) (get s) = join (get s) (get r)"
    using assms by (simp add: get_ok part.commute)
  then show ?thesis using key_inj [OF assms] by (auto simp: pick_eq)
qed

lemma put_pick: "put c (pick r s) = put c (if key s \<le> key r then r else s)"
  by (simp add: pick_eq put_put)

lemma pick_assoc:
  assumes "dom_ok r" "dom_ok s" "dom_ok t"
  shows "pick (pick r s) t = pick r (pick s t)"
proof -
  have "join (join (get r) (get s)) (get t) = join (get r) (join (get s) (get t))"
    using assms by (simp add: get_ok part.assoc)
  then show ?thesis
    unfolding pick_eq [of "pick r s" t] pick_eq [of r "pick s t"]
    by (auto simp: get_pick key_pick put_pick le_max_iff_disj)
qed

lemma pick_idem: "dom_ok r \<Longrightarrow> pick r r = r"
  by (simp add: pick_eq get_ok part.idem put_get)

end

sublocale ranked_join \<subseteq> all: join_semilattice dom_ok pick
  by unfold_locales (fact pick_ok pick_commute pick_assoc pick_idem)+

end
