(* ===== verification/Vector_Clock.thy ===== *)
theory Vector_Clock
  imports Semilattice
begin

section \<open>Vector clocks (consensus.py, class VectorClock)\<close>

text \<open>
  Immutable vector clocks. The dictionary of a clock is only looked up, compared with
  \<^verbatim>\<open>==\<close>, or serialised in sorted key order, so its insertion order cannot be observed: the
  constructor keeps the entries sorted by peer, which makes equality of the model the
  equality of the code. The merge function interprets the \<open>join_semilattice\<close> contract.
\<close>

datatype clock_comparison = BEFORE | AFTER | EQUAL | CONCURRENT

record vector_clock =
  clock :: "(string, int) dict"

definition VectorClock :: "(string, int) dict \<Rightarrow> vector_clock" where
  "VectorClock d = \<lparr>clock = sort_key fst (filter (\<lambda>(k, v). v > 0) d)\<rparr>"

definition vc_get :: "vector_clock \<Rightarrow> string \<Rightarrow> int" where
  "vc_get c peer_id = get_default (clock c) peer_id 0"

definition increment :: "vector_clock \<Rightarrow> string \<Rightarrow> vector_clock" where
  "increment c peer_id =
     VectorClock (AList.update peer_id (get_default (clock c) peer_id 0 + 1) (clock c))"

text \<open>\<^verbatim>\<open>set(self.clock.keys()) | set(other.clock.keys())\<close>, in sorted order.\<close>

definition all_keys :: "vector_clock \<Rightarrow> vector_clock \<Rightarrow> string list" where
  "all_keys c d = sort (remdups (keys (clock c) @ keys (clock d)))"

definition vc_merge :: "vector_clock \<Rightarrow> vector_clock \<Rightarrow> vector_clock" where
  "vc_merge c d = VectorClock (map (\<lambda>k. (k, max (vc_get c k) (vc_get d k))) (all_keys c d))"

definition compare_clocks :: "vector_clock \<Rightarrow> vector_clock \<Rightarrow> clock_comparison" where
  "compare_clocks c d =
     (let self_leq_other = list_all (\<lambda>k. vc_get c k \<le> vc_get d k) (all_keys c d);
          other_leq_self = list_all (\<lambda>k. vc_get d k \<le> vc_get c k) (all_keys c d)
      in if self_leq_other \<and> other_leq_self then EQUAL
         else if self_leq_other \<and> \<not> other_leq_self then BEFORE
         else if other_leq_self \<and> \<not> self_leq_other then AFTER
         else CONCURRENT)"

definition vc_to_dict :: "vector_clock \<Rightarrow> (string, int) dict" where
  "vc_to_dict c = clock c"

text \<open>Normal form: no zero counter, one entry per peer.\<close>

definition wf_clock :: "vector_clock \<Rightarrow> bool" where
  "wf_clock c \<longleftrightarrow>
     sorted (keys (clock c)) \<and> distinct (keys (clock c)) \<and> (\<forall>v \<in> snd ` set (clock c). 0 < v)"

subsection \<open>Lookups decide equality\<close>

lemma map_of_filter_pos:
  fixes d :: "('k, int) dict"
  shows "distinct (keys d) \<Longrightarrow> map_of (filter (\<lambda>(k, v). v > 0) d) k =
     (case map_of d k of None \<Rightarrow> None | Some v \<Rightarrow> if v > 0 then Some v else None)"
  by (induction d) (auto simp: map_of_eq_None_iff rev_image_eqI split: option.splits)

lemma distinct_keys_filter: "distinct (keys d) \<Longrightarrow> distinct (keys (filter P d))"
  by (induction d) auto

lemma wf_VectorClock: "distinct (keys d) \<Longrightarrow> wf_clock (VectorClock d)"
  using distinct_keys_filter [of d]
  by (auto simp: wf_clock_def VectorClock_def keys_sort_key_fst)

lemma vc_get_VectorClock:
  assumes "distinct (keys d)"
  shows "vc_get (VectorClock d) k = max 0 (get_default d k 0)"
  using distinct_keys_filter [OF assms] map_of_filter_pos [OF assms]
  by (simp add: vc_get_def VectorClock_def get_default_def map_of_sort_key_fst split: option.splits)

lemma vc_get_nonneg: "wf_clock c \<Longrightarrow> 0 \<le> vc_get c k"
  by (force simp: wf_clock_def vc_get_def get_default_def dest: map_of_SomeD split: option.splits)

lemma vc_get_outside: "k \<notin> set (keys (clock c)) \<Longrightarrow> vc_get c k = 0"
  by (metis get_default_def map_of_eq_None_iff option.case(1) set_map vc_get_def)

lemma map_of_clock:
  "wf_clock c \<Longrightarrow> map_of (clock c) k = (if vc_get c k = 0 then None else Some (vc_get c k))"
  by (force simp: wf_clock_def vc_get_def get_default_def dest: map_of_SomeD split: option.splits)

lemma clock_eqI:
  assumes "wf_clock c" "wf_clock d" "\<And>k. vc_get c k = vc_get d k"
  shows "c = d"
proof -
  have "map_of (clock c) = map_of (clock d)"
    using assms by (intro ext) (simp add: map_of_clock)
  then have "clock c = clock d"
    using assms(1,2) by (intro sorted_key_list_unique) (simp_all add: wf_clock_def)
  then show ?thesis by simp
qed

lemma set_all_keys: "set (all_keys c d) = set (keys (clock c)) \<union> set (keys (clock d))"
  by (simp add: all_keys_def)

lemma get_default_map: "get_default (map (\<lambda>k. (k, f k)) ks) k x = (if k \<in> set ks then f k else x)"
  by (simp add: get_default_def map_of_map_restrict)

lemma vc_get_merge:
  assumes "wf_clock c" "wf_clock d"
  shows "vc_get (vc_merge c d) k = max (vc_get c k) (vc_get d k)"
proof -
  have "distinct (keys (map (\<lambda>k. (k, max (vc_get c k) (vc_get d k))) (all_keys c d)))"
    by (simp add: all_keys_def comp_def)
  from vc_get_VectorClock [OF this] show ?thesis
    using assms vc_get_nonneg [of c k] vc_get_outside [of k c] vc_get_outside [of k d]
    by (auto simp: vc_merge_def get_default_map set_all_keys)
qed

lemma wf_merge: "wf_clock (vc_merge c d)"
  unfolding vc_merge_def by (rule wf_VectorClock) (simp add: all_keys_def comp_def)

lemma wf_increment: "wf_clock c \<Longrightarrow> wf_clock (increment c p)"
  unfolding increment_def by (rule wf_VectorClock) (simp add: wf_clock_def distinct_keys_update)

lemma vc_get_increment:
  assumes "wf_clock c"
  shows "vc_get (increment c p) k = (if k = p then vc_get c p + 1 else vc_get c k)"
proof -
  have "distinct (keys (AList.update p (vc_get c p + 1) (clock c)))"
    using assms by (simp add: wf_clock_def distinct_keys_update)
  from vc_get_VectorClock [OF this, of k] vc_get_nonneg [OF assms, of k] show ?thesis
    by (auto simp: increment_def get_default_update vc_get_def [symmetric])
qed

lemmas vc_get_simps = vc_get_merge vc_get_increment

interpretation vc: join_semilattice wf_clock vc_merge
  by unfold_locales
     (auto intro!: clock_eqI simp: vc_get_merge wf_merge max.assoc max.commute)

subsection \<open>Comparison is the causal order\<close>

lemma all_keys_leq:
  assumes "wf_clock d"
  shows "list_all (\<lambda>k. vc_get c k \<le> vc_get d k) (all_keys c d) \<longleftrightarrow> (\<forall>k. vc_get c k \<le> vc_get d k)"
  using vc_get_outside [of _ c] vc_get_nonneg [OF assms]
  by (fastforce simp: list_all_iff set_all_keys)

lemma all_keys_commute: "all_keys c d = all_keys d c"
  by (auto simp: all_keys_def intro!: sorted_distinct_set_unique)

lemma compare_cases:
  assumes "wf_clock c" "wf_clock d"
  shows "compare_clocks c d =
    (if \<forall>k. vc_get c k \<le> vc_get d k
     then if \<forall>k. vc_get d k \<le> vc_get c k then EQUAL else BEFORE
     else if \<forall>k. vc_get d k \<le> vc_get c k then AFTER else CONCURRENT)"
proof -
  have "list_all (\<lambda>k. vc_get d k \<le> vc_get c k) (all_keys c d) \<longleftrightarrow> (\<forall>k. vc_get d k \<le> vc_get c k)"
    using all_keys_leq [OF assms(1), of d] unfolding all_keys_commute [of d c] .
  with all_keys_leq [OF assms(2), of c] show ?thesis
    unfolding compare_clocks_def Let_def by auto
qed

text \<open>\<open>clock_below c d\<close>: the code's test that \<open>c\<close> is in the causal past of \<open>d\<close>, or is \<open>d\<close>.\<close>

definition clock_below :: "vector_clock \<Rightarrow> vector_clock \<Rightarrow> bool" where
  "clock_below c d \<longleftrightarrow> compare_clocks c d = BEFORE \<or> compare_clocks c d = EQUAL"

lemma clock_below_iff:
  "wf_clock c \<Longrightarrow> wf_clock d \<Longrightarrow> clock_below c d \<longleftrightarrow> (\<forall>k. vc_get c k \<le> vc_get d k)"
  by (simp add: clock_below_def compare_cases)

lemma clock_below_join:
  "wf_clock c \<Longrightarrow> wf_clock d \<Longrightarrow> clock_below c d \<longleftrightarrow> vc_merge c d = d"
proof
  assume wf: "wf_clock c" "wf_clock d" and "clock_below c d"
  then show "vc_merge c d = d"
    by (intro clock_eqI) (simp_all add: clock_below_iff wf_merge vc_get_merge)
next
  assume wf: "wf_clock c" "wf_clock d" and "vc_merge c d = d"
  then show "clock_below c d"
    using vc_get_merge [OF wf] by (metis clock_below_iff max.cobounded1)
qed

text \<open>
  On normalised clocks \<^verbatim>\<open>compare\<close> decides the causal partial order: EQUAL exactly for equal
  clocks, BEFORE exactly when the second clock strictly dominates the first, AFTER exactly
  when the first strictly dominates the second, CONCURRENT exactly when neither does.
\<close>

theorem compare_decides_causality:
  assumes "wf_clock c" "wf_clock d"
  shows "(compare_clocks c d = EQUAL \<longleftrightarrow> c = d) \<and>
    (compare_clocks c d = BEFORE \<longleftrightarrow> vc_merge c d = d \<and> c \<noteq> d) \<and>
    (compare_clocks c d = AFTER \<longleftrightarrow> vc_merge c d = c \<and> c \<noteq> d) \<and>
    (compare_clocks c d = CONCURRENT \<longleftrightarrow>
      (\<exists>k. vc_get c k < vc_get d k) \<and> (\<exists>k. vc_get d k < vc_get c k))"
proof -
  have eq: "c = d \<longleftrightarrow> (\<forall>k. vc_get c k \<le> vc_get d k) \<and> (\<forall>k. vc_get d k \<le> vc_get c k)"
    using clock_eqI [OF assms] by (auto intro: order_antisym)
  have le: "vc_merge c d = d \<longleftrightarrow> (\<forall>k. vc_get c k \<le> vc_get d k)"
    "vc_merge c d = c \<longleftrightarrow> (\<forall>k. vc_get d k \<le> vc_get c k)"
    using clock_below_join clock_below_iff assms vc.commute by metis+
  show ?thesis
    unfolding compare_cases [OF assms] eq le by (auto simp: not_le [symmetric])
qed

theorem compare_decides_causality_witness:
  "compare_clocks (VectorClock [(''a'', 1)]) (VectorClock [(''b'', 2), (''a'', 1)]) = BEFORE"
proof -
  let ?c = "VectorClock [(''a'', 1)]" and ?d = "VectorClock [(''b'', 2), (''a'', 1)]"
  have "wf_clock ?c" "wf_clock ?d" by (simp_all add: wf_VectorClock)
  from compare_decides_causality [OF this] have
    "compare_clocks ?c ?d = BEFORE \<longleftrightarrow> vc_merge ?c ?d = ?d \<and> ?c \<noteq> ?d" by blast
  moreover have "vc_merge ?c ?d = ?d \<and> ?c \<noteq> ?d" by code_simp
  ultimately show ?thesis by blast
qed

text \<open>
  An increment is a strict causal successor, increments of one clock by two different
  peers are concurrent, and merging them keeps both counters.
\<close>

theorem concurrent_increments:
  assumes "wf_clock c" "p \<noteq> q"
  shows "compare_clocks c (increment c p) = BEFORE \<and>
    compare_clocks (increment c p) (increment c q) = CONCURRENT \<and>
    vc_merge (increment c p) (increment c q) = increment (increment c p) q"
proof -
  have wf: "wf_clock (increment c p)" "wf_clock (increment c q)"
    "wf_clock (increment (increment c p) q)"
    using assms(1) by (simp_all add: wf_increment)
  have "vc_merge (increment c p) (increment c q) = increment (increment c p) q"
    using assms wf by (intro clock_eqI wf_merge) (simp_all add: vc_get_simps)
  moreover have "\<not> (\<forall>k. vc_get (increment c p) k \<le> vc_get (increment c q) k)"
    "\<not> (\<forall>k. vc_get (increment c q) k \<le> vc_get (increment c p) k)"
    using assms by (auto simp: vc_get_increment)
  moreover have "\<forall>k. vc_get c k \<le> vc_get (increment c p) k"
    "\<not> (\<forall>k. vc_get (increment c p) k \<le> vc_get c k)"
    using assms by (auto simp: vc_get_increment)
  ultimately show ?thesis
    by (simp only: compare_cases [OF assms(1) wf(1)] compare_cases [OF wf(1,2)] if_False if_True simp_thms)
qed

theorem concurrent_increments_witness:
  "compare_clocks (increment (VectorClock []) ''a'') (increment (VectorClock []) ''b'') = CONCURRENT"
  using concurrent_increments [of "VectorClock []" "''a''" "''b''"] by (simp add: wf_VectorClock)

end
