(* ===== verification/Task_Record.thy ===== *)
theory Task_Record
  imports Security Vector_Clock "HOL-Library.Log_Nat"
begin

section \<open>Task records (consensus.py, TaskState, FenceToken, TaskRecord)\<close>

text \<open>
  The replicated task record, its states and fencing tokens, and the two functions between a
  record and its JSON object. \<^verbatim>\<open>from_dict\<close> is the validation every record received from the
  network or read from the log passes; each of its checks is a step of the error monad, in
  the order of the code.
\<close>

subsection \<open>States and fencing tokens\<close>

datatype task_state = PENDING | CLAIMED | RUNNING | DONE | FAILED

fun state_value :: "task_state \<Rightarrow> string" where
  "state_value PENDING = ''pending''"
| "state_value CLAIMED = ''claimed''"
| "state_value RUNNING = ''running''"
| "state_value DONE = ''done''"
| "state_value FAILED = ''failed''"

definition task_states :: "task_state list" where
  "task_states = [PENDING, CLAIMED, RUNNING, DONE, FAILED]"

text \<open>The call \<^verbatim>\<open>TaskState(value)\<close>.\<close>

definition TaskState :: "string \<Rightarrow> task_state result" where
  "TaskState v =
     (case find (\<lambda>s. state_value s = v) task_states of None \<Rightarrow> Inl ValueError | Some s \<Rightarrow> Inr s)"

definition is_terminal :: "task_state \<Rightarrow> bool" where
  "is_terminal s \<longleftrightarrow> s = DONE \<or> s = FAILED"

definition lattice_rank :: "task_state \<Rightarrow> int" where
  "lattice_rank s =
     (if s = PENDING then 0
      else if s = CLAIMED then 1
      else if s = RUNNING then 2
      else if s = FAILED then 3
      else 4)"

datatype fence_token = FenceToken (epoch: int) (fence_peer: string)

definition next_for :: "fence_token \<Rightarrow> string \<Rightarrow> fence_token" where
  "next_for t peer_id = FenceToken (epoch t + 1) peer_id"

text \<open>\<^verbatim>\<open>@dataclass(order=True)\<close> compares the tuples of fields.\<close>

instantiation fence_token :: linorder
begin

definition less_eq_fence_token :: "fence_token \<Rightarrow> fence_token \<Rightarrow> bool" where
  "less_eq_fence_token s t \<longleftrightarrow> (epoch s, fence_peer s) \<le> (epoch t, fence_peer t)"

definition less_fence_token :: "fence_token \<Rightarrow> fence_token \<Rightarrow> bool" where
  "less_fence_token s t \<longleftrightarrow> (epoch s, fence_peer s) < (epoch t, fence_peer t)"

instance
  by standard
     (auto simp: less_eq_fence_token_def less_fence_token_def fence_token.expand)

end

lemma next_for_greater: "t < next_for t p"
  by (simp add: less_fence_token_def next_for_def)

lemma TaskState_value [simp]: "TaskState (state_value s) = Inr s"
  by (cases s) (simp_all add: TaskState_def task_states_def)

lemma TaskState_Inr: "TaskState v = Inr s \<longleftrightarrow> v = state_value s"
proof
  assume "TaskState v = Inr s"
  then have "find (\<lambda>s. state_value s = v) task_states = Some s"
    by (simp add: TaskState_def split: option.splits)
  then show "v = state_value s" unfolding find_Some_iff by auto
qed simp

lemma lattice_rank_inj: "lattice_rank s = lattice_rank t \<longleftrightarrow> s = t"
  by (cases s; cases t) (simp_all add: lattice_rank_def)

subsection \<open>Records\<close>

record task_record =
  task_id :: string
  state :: task_state
  payload :: bytes
  result :: "bytes option"
  error :: "string option"
  claimed_by :: "string option"
  fence_token :: fence_token
  lease_expiry :: real
  vector_clock :: vector_clock
  updated_by :: string
  signature :: "bytes option"
  signer_id :: "string option"

fun opt_json :: "('a \<Rightarrow> json) \<Rightarrow> 'a option \<Rightarrow> json" where
  "opt_json f None = JNull"
| "opt_json f (Some x) = f x"

definition hex_json :: "bytes \<Rightarrow> json" where
  "hex_json b = JStr (hex_of b)"

definition to_dict :: "task_record \<Rightarrow> json" where
  "to_dict r = JDict
     [(''task_id'', JStr (task_id r)),
      (''state'', JStr (state_value (state r))),
      (''payload'', hex_json (payload r)),
      (''result'', opt_json hex_json (result r)),
      (''error'', opt_json JStr (error r)),
      (''claimed_by'', opt_json JStr (claimed_by r)),
      (''fence_token'', JDict [(''epoch'', JInt (epoch (fence_token r))),
                               (''peer_id'', JStr (fence_peer (fence_token r)))]),
      (''lease_expiry'', JFloat (Fin (lease_expiry r))),
      (''vector_clock'', JDict (map (\<lambda>(k, v). (k, JInt v)) (clock (vector_clock r)))),
      (''updated_by'', JStr (updated_by r)),
      (''signature'', opt_json hex_json (signature r)),
      (''signer_id'', opt_json JStr (signer_id r))]"

subsection \<open>Conversion of an integer to a float\<close>

text \<open>
  \<^verbatim>\<open>float(i)\<close>: the nearest number of 53 significant bits, ties to even, or \<^verbatim>\<open>OverflowError\<close>.
\<close>

definition round_half_even :: "nat \<Rightarrow> nat \<Rightarrow> nat" where
  "round_half_even n m =
     (let q = n div m; r = n mod m
      in if 2 * r > m \<or> 2 * r = m \<and> odd q then q + 1 else q)"

definition float_limit :: nat where
  "float_limit = 2 ^ 1024"

definition float_of_int :: "int \<Rightarrow> real result" where
  "float_of_int i =
     (let n = nat \<bar>i\<bar>; u = 2 ^ (floorlog 2 n - 53); m = round_half_even n u * u
      in if m \<ge> float_limit then Inl OverflowError
         else Inr (if i < 0 then - real m else real m))"

lemma round_half_even_1: "round_half_even n 1 = n"
  by (simp add: round_half_even_def Let_def)

lemma float_of_int_exact:
  assumes "\<bar>i\<bar> < 2 ^ 53"
  shows "float_of_int i = Inr (of_int i)"
proof -
  have n: "nat \<bar>i\<bar> < 2 ^ 53" using assms by (simp add: nat_less_iff)
  then have "floorlog 2 (nat \<bar>i\<bar>) \<le> 53" by (intro floorlog_leI) simp_all
  then have u: "floorlog 2 (nat \<bar>i\<bar>) - 53 = 0" by simp
  have "nat \<bar>i\<bar> < float_limit"
    unfolding float_limit_def using n by (rule less_le_trans) (rule power_increasing; simp)
  then have "\<not> float_limit \<le> nat \<bar>i\<bar>" by simp
  then show ?thesis
    unfolding float_of_int_def Let_def u power_0 mult_1_right round_half_even_1 by simp
qed

subsection \<open>Validation\<close>

text \<open>\<^verbatim>\<open>data.get(key)\<close>: an absent key reads as null.\<close>

definition jget :: "(string, json) dict \<Rightarrow> string \<Rightarrow> json" where
  "jget d k = get_default d k JNull"

fun as_dict :: "json \<Rightarrow> (string, json) dict result" where
  "as_dict (JDict d) = Inr d"
| "as_dict _ = Inl ValueError"

text \<open>A string within a length limit.\<close>

fun bounded_str :: "int \<Rightarrow> json \<Rightarrow> string result" where
  "bounded_str n (JStr s) = (if len s > n then Inl ValueError else Inr s)"
| "bounded_str n _ = Inl ValueError"

definition nonempty_str :: "int \<Rightarrow> json \<Rightarrow> string result" where
  "nonempty_str n j = rbind (bounded_str n j) (\<lambda>s. if s = [] then Inl ValueError else Inr s)"

definition hex_bytes :: "string \<Rightarrow> bytes result" where
  "hex_bytes s = (case fromhex s of None \<Rightarrow> Inl ValueError | Some b \<Rightarrow> Inr b)"

definition optional :: "(json \<Rightarrow> 'a result) \<Rightarrow> json \<Rightarrow> 'a option result" where
  "optional f j = (if j = JNull then Inr None else rbind (f j) (\<lambda>x. Inr (Some x)))"

fun exact_str :: "int \<Rightarrow> json \<Rightarrow> string result" where
  "exact_str n (JStr s) = (if len s \<noteq> n then Inl ValueError else Inr s)"
| "exact_str n _ = Inl ValueError"

text \<open>An \<^verbatim>\<open>int\<close> that is not a \<^verbatim>\<open>bool\<close>, at least zero.\<close>

fun nonneg_int :: "json \<Rightarrow> int result" where
  "nonneg_int (JInt i) = (if i < 0 then Inl ValueError else Inr i)"
| "nonneg_int _ = Inl ValueError"

definition read_fence_token :: "json \<Rightarrow> fence_token result" where
  "read_fence_token j =
     rbind (as_dict j) (\<lambda>ft.
     rbind (nonneg_int (jget ft ''epoch'')) (\<lambda>e.
     rbind (bounded_str MAX_PEER_ID_LENGTH (jget ft ''peer_id'')) (\<lambda>p.
     Inr (FenceToken e p))))"

fun read_counters :: "(string, json) dict \<Rightarrow> (string, int) dict result" where
  "read_counters [] = Inr []"
| "read_counters ((peer, counter) # d) =
     rbind (require (peer \<noteq> [] \<and> len peer \<le> MAX_PEER_ID_LENGTH) ValueError) (\<lambda>_.
     rbind (nonneg_int counter) (\<lambda>c.
     rbind (read_counters d) (\<lambda>cs. Inr ((peer, c) # cs))))"

definition read_vector_clock :: "json \<Rightarrow> vector_clock result" where
  "read_vector_clock j =
     rbind (as_dict j) (\<lambda>d.
     rbind (require (len d \<le> 128) ValueError) (\<lambda>_.
     rbind (read_counters d) (\<lambda>cs. Inr (VectorClock cs))))"

fun read_lease_expiry :: "json \<Rightarrow> real result" where
  "read_lease_expiry (JInt i) = float_of_int i"
| "read_lease_expiry (JFloat (Fin x)) = Inr x"
| "read_lease_expiry _ = Inl ValueError"

definition from_dict :: "json \<Rightarrow> task_record result" where
  "from_dict data =
     rbind (as_dict data) (\<lambda>d.
     rbind (nonempty_str MAX_TASK_ID_LENGTH (jget d ''task_id'')) (\<lambda>task_id.
     rbind (case jget d ''state'' of JStr s \<Rightarrow> TaskState s | _ \<Rightarrow> Inl ValueError) (\<lambda>state.
     rbind (rbind (bounded_str (MAX_TASK_PAYLOAD * 2) (jget d ''payload'')) hex_bytes) (\<lambda>payload.
     rbind (optional (\<lambda>j. rbind (bounded_str (MAX_TASK_RESULT * 2) j) hex_bytes)
              (jget d ''result'')) (\<lambda>result.
     rbind (optional (bounded_str MAX_ERROR_LENGTH) (jget d ''error'')) (\<lambda>error.
     rbind (optional (nonempty_str MAX_PEER_ID_LENGTH) (jget d ''claimed_by'')) (\<lambda>claimed_by.
     rbind (optional (nonempty_str MAX_PEER_ID_LENGTH) (jget d ''updated_by'')) (\<lambda>updated_by.
     rbind (optional (nonempty_str MAX_PEER_ID_LENGTH) (jget d ''signer_id'')) (\<lambda>signer_id.
     rbind (read_fence_token (jget d ''fence_token'')) (\<lambda>fence_token.
     rbind (read_vector_clock (jget d ''vector_clock'')) (\<lambda>vector_clock.
     rbind (read_lease_expiry (jget d ''lease_expiry'')) (\<lambda>lease_expiry.
     rbind (optional (\<lambda>j. rbind (exact_str 128 j) hex_bytes) (jget d ''signature'')) (\<lambda>signature.
     Inr \<lparr>task_id = task_id, state = state, payload = payload, result = result, error = error,
          claimed_by = claimed_by, fence_token = fence_token, lease_expiry = lease_expiry,
          vector_clock = vector_clock,
          updated_by = (case updated_by of None \<Rightarrow> [] | Some u \<Rightarrow> u),
          signature = signature, signer_id = signer_id\<rparr>)))))))))))))"

subsection \<open>Round trip\<close>

definition clock_ok :: "vector_clock \<Rightarrow> bool" where
  "clock_ok c \<longleftrightarrow> wf_clock c \<and> len (clock c) \<le> 128 \<and>
     (\<forall>k \<in> fst ` set (clock c). k \<noteq> [] \<and> len k \<le> MAX_PEER_ID_LENGTH)"

definition peer_ok :: "string option \<Rightarrow> bool" where
  "peer_ok x \<longleftrightarrow> (\<forall>p \<in> set_option x. p \<noteq> [] \<and> len p \<le> MAX_PEER_ID_LENGTH)"

text \<open>The limits a record read from JSON respects.\<close>

definition record_valid :: "task_record \<Rightarrow> bool" where
  "record_valid r \<longleftrightarrow>
     task_id r \<noteq> [] \<and> len (task_id r) \<le> MAX_TASK_ID_LENGTH \<and>
     len (payload r) \<le> MAX_TASK_PAYLOAD \<and>
     (\<forall>b \<in> set_option (result r). len b \<le> MAX_TASK_RESULT) \<and>
     (\<forall>e \<in> set_option (error r). len e \<le> MAX_ERROR_LENGTH) \<and>
     peer_ok (claimed_by r) \<and> peer_ok (signer_id r) \<and>
     0 \<le> epoch (fence_token r) \<and> len (fence_peer (fence_token r)) \<le> MAX_PEER_ID_LENGTH \<and>
     clock_ok (vector_clock r) \<and> len (updated_by r) \<le> MAX_PEER_ID_LENGTH \<and>
     (\<forall>s \<in> set_option (signature r). length s \<le> 64)"

text \<open>The records whose JSON object reads back.\<close>

definition record_ok :: "task_record \<Rightarrow> bool" where
  "record_ok r \<longleftrightarrow> record_valid r \<and> updated_by r \<noteq> [] \<and>
     (\<forall>s \<in> set_option (signature r). length s = 64)"

lemma rbind_if [simp]:
  "rbind (if b then Inr x else Inl e) f = (if b then f x else Inl e)"
  by simp

lemma read_str:
  "bounded_str n (JStr s) = (if len s \<le> n then Inr s else Inl ValueError)"
  "nonempty_str n (JStr s) = (if s \<noteq> [] \<and> len s \<le> n then Inr s else Inl ValueError)"
  by (simp_all add: nonempty_str_def)

lemma read_hex:
  "rbind (bounded_str (n * 2) (hex_json b)) hex_bytes = (if len b \<le> n then Inr b else Inl ValueError)"
  "rbind (exact_str 128 (hex_json b)) hex_bytes = (if length b = 64 then Inr b else Inl ValueError)"
  by (auto simp: hex_json_def hex_bytes_def)

lemma read_optional:
  assumes "\<And>x. f (g x) = (if P x then Inr x else Inl ValueError)" "\<And>x. g x \<noteq> JNull"
  shows "optional f (opt_json g y) = (if \<forall>x \<in> set_option y. P x then Inr y else Inl ValueError)"
  using assms by (cases y) (simp_all add: optional_def)

lemma read_counters_JInt:
  assumes "\<forall>v \<in> snd ` set d. 0 < v"
  shows "read_counters (map (\<lambda>(k, v). (k, JInt v)) d) =
    (if \<forall>k \<in> fst ` set d. k \<noteq> [] \<and> len k \<le> MAX_PEER_ID_LENGTH then Inr d else Inl ValueError)"
  using assms by (induction d) (auto simp: require_def ball_Un split: prod.splits if_splits)

lemma VectorClock_clock: "wf_clock c \<Longrightarrow> VectorClock (clock c) = c"
proof -
  assume wf: "wf_clock c"
  then have "filter (\<lambda>(k, v). v > 0) (clock c) = clock c"
    by (force simp: wf_clock_def filter_id_conv)
  with wf show ?thesis
    by (simp add: VectorClock_def wf_clock_def sort_key_id_if_sorted)
qed

lemma read_vector_clock_JInt:
  assumes "wf_clock c"
  shows "read_vector_clock (JDict (map (\<lambda>(k, v). (k, JInt v)) (clock c))) =
    (if clock_ok c then Inr c else Inl ValueError)"
proof -
  have "\<forall>v \<in> snd ` set (clock c). 0 < v" using assms by (simp add: wf_clock_def)
  from read_counters_JInt [OF this] show ?thesis
    using assms by (simp add: read_vector_clock_def require_def clock_ok_def VectorClock_clock)
qed

lemma read_fence_token_JInt:
  "read_fence_token (JDict [(''epoch'', JInt e), (''peer_id'', JStr p)]) =
    (if 0 \<le> e \<and> len p \<le> MAX_PEER_ID_LENGTH then Inr (FenceToken e p) else Inl ValueError)"
  by (simp add: read_fence_token_def jget_def get_default_def)

lemma jget_to_dict:
  "\<exists>d. to_dict r = JDict d \<and> jget d ''task_id'' = JStr (task_id r) \<and>
     jget d ''state'' = JStr (state_value (state r)) \<and>
     jget d ''payload'' = hex_json (payload r) \<and>
     jget d ''result'' = opt_json hex_json (result r) \<and>
     jget d ''error'' = opt_json JStr (error r) \<and>
     jget d ''claimed_by'' = opt_json JStr (claimed_by r) \<and>
     jget d ''fence_token'' = JDict [(''epoch'', JInt (epoch (fence_token r))),
                               (''peer_id'', JStr (fence_peer (fence_token r)))] \<and>
     jget d ''lease_expiry'' = JFloat (Fin (lease_expiry r)) \<and>
     jget d ''vector_clock'' = JDict (map (\<lambda>(k, v). (k, JInt v)) (clock (vector_clock r))) \<and>
     jget d ''updated_by'' = JStr (updated_by r) \<and>
     jget d ''signature'' = opt_json hex_json (signature r) \<and>
     jget d ''signer_id'' = opt_json JStr (signer_id r)"
  unfolding to_dict_def by (rule exI, rule conjI [OF refl]) (simp add: jget_def get_default_def)

lemma from_dict_to_dict:
  assumes "wf_clock (vector_clock r)"
  shows "from_dict (to_dict r) = (if record_ok r then Inr r else Inl ValueError)"
proof -
  obtain d where d: "to_dict r = JDict d" "jget d ''task_id'' = JStr (task_id r)"
     "jget d ''state'' = JStr (state_value (state r))"
     "jget d ''payload'' = hex_json (payload r)"
     "jget d ''result'' = opt_json hex_json (result r)"
     "jget d ''error'' = opt_json JStr (error r)"
     "jget d ''claimed_by'' = opt_json JStr (claimed_by r)"
     "jget d ''fence_token'' = JDict [(''epoch'', JInt (epoch (fence_token r))),
                               (''peer_id'', JStr (fence_peer (fence_token r)))]"
     "jget d ''lease_expiry'' = JFloat (Fin (lease_expiry r))"
     "jget d ''vector_clock'' = JDict (map (\<lambda>(k, v). (k, JInt v)) (clock (vector_clock r)))"
     "jget d ''updated_by'' = JStr (updated_by r)"
     "jget d ''signature'' = opt_json hex_json (signature r)"
     "jget d ''signer_id'' = opt_json JStr (signer_id r)"
    using jget_to_dict [of r] by (elim exE conjE)
  have o: "optional (bounded_str n) (opt_json JStr x) =
      (if \<forall>s \<in> set_option x. len s \<le> n then Inr x else Inl ValueError)"
    "optional (nonempty_str n) (opt_json JStr x) =
      (if \<forall>s \<in> set_option x. s \<noteq> [] \<and> len s \<le> n then Inr x else Inl ValueError)"
    "optional (nonempty_str n) (JStr s) =
      (if s \<noteq> [] \<and> len s \<le> n then Inr (Some s) else Inl ValueError)" for n x s
    by (simp_all only: read_optional [OF read_str(1)] read_optional [OF read_str(2)] json.distinct simp_thms)
       (simp add: optional_def read_str)
  have h: "optional (\<lambda>j. rbind (bounded_str (n * 2) j) hex_bytes) (opt_json hex_json x) =
      (if \<forall>b \<in> set_option x. len b \<le> n then Inr x else Inl ValueError)"
    "optional (\<lambda>j. rbind (exact_str 128 j) hex_bytes) (opt_json hex_json x) =
      (if \<forall>b \<in> set_option x. length b = 64 then Inr x else Inl ValueError)" for n x
    by (rule read_optional [OF read_hex(1)] read_optional [OF read_hex(2)]; simp add: hex_json_def)+
  show ?thesis
    unfolding from_dict_def d(1)
    using assms
    by (simp add: d(2-) o h read_str read_hex read_fence_token_JInt read_vector_clock_JInt
        record_ok_def record_valid_def peer_ok_def del: bounded_str.simps)
qed

text \<open>Reading depends on the values of the keys only, so not on their order in the text.\<close>

lemma from_dict_cong: "(\<And>k. jget d k = jget d' k) \<Longrightarrow> from_dict (JDict d) = from_dict (JDict d')"
  by (simp add: from_dict_def)

lemma jget_sort_json:
  assumes "sort_json (JDict d) = JDict d'" "distinct (keys d)"
  shows "jget d' k = sort_json (jget d k)"
proof -
  have "distinct (keys (map (\<lambda>(k, v). (k, sort_json v)) d))"
    using assms(2) by (simp only: keys_map_snd)
  from map_of_sort_key_fst [OF this] assms(1) show ?thesis
    by (auto simp: jget_def get_default_def map_of_map_snd split: option.splits)
qed

lemma keys_to_dict: "to_dict r = JDict d \<Longrightarrow> distinct (keys d)"
  by (auto simp: to_dict_def)

lemma sort_json_clock:
  assumes "wf_clock c"
  shows "sort_json (JDict (map (\<lambda>(k, v). (k, JInt v)) (clock c))) =
    JDict (map (\<lambda>(k, v). (k, JInt v)) (clock c))"
proof -
  have "map (\<lambda>(k, v). (k, sort_json v)) (map (\<lambda>(k, v). (k, JInt v)) (clock c)) =
      map (\<lambda>(k, v). (k, JInt v)) (clock c)"
    by (induction "clock c") auto
  moreover have "sorted (keys (map (\<lambda>(k, v). (k, JInt v)) (clock c)))"
    using assms by (simp only: keys_map_snd wf_clock_def)
  ultimately show ?thesis by (simp only: sort_json.simps sort_key_id_if_sorted)
qed

lemma sort_json_opt: "(\<And>x. sort_json (f x) = f x) \<Longrightarrow> sort_json (opt_json f y) = opt_json f y"
  by (cases y) simp_all

lemma sort_json_leaf: "sort_json (JStr s) = JStr s" "sort_json (hex_json b) = hex_json b"
  by (simp_all add: hex_json_def)

lemma sort_json_fence:
  "sort_json (JDict [(''epoch'', JInt e), (''peer_id'', JStr p)]) =
   JDict [(''epoch'', JInt e), (''peer_id'', JStr p)]"
  by (simp add: sort_key_simps)

lemma from_dict_sorted:
  assumes "wf_clock (vector_clock r)"
  shows "from_dict (sort_json (to_dict r)) = from_dict (to_dict r)"
proof -
  obtain d where d: "to_dict r = JDict d" by (simp add: to_dict_def)
  obtain d' where d': "sort_json (JDict d) = JDict d'" by simp
  have "\<forall>v \<in> snd ` set d. sort_json v = v"
    using d assms unfolding to_dict_def json.inject
    by (auto simp: sort_json_opt sort_json_leaf sort_json_clock sort_json_fence simp del: sort_json.simps(2))
       (simp add: sort_json.simps)?
  then have "sort_json (jget d k) = jget d k" for k
    by (force simp: jget_def get_default_def dest: map_of_SomeD split: option.splits)
  then have "jget d' k = jget d k" for k
    using jget_sort_json [OF d' keys_to_dict [OF d]] by simp
  then show ?thesis unfolding d d' by (rule from_dict_cong)
qed

subsection \<open>Validation\<close>

lemma bounded_str_Inr: "bounded_str n j = Inr s \<longleftrightarrow> j = JStr s \<and> len s \<le> n"
  by (cases j) auto

lemma nonempty_str_Inr: "nonempty_str n j = Inr s \<longleftrightarrow> j = JStr s \<and> s \<noteq> [] \<and> len s \<le> n"
  by (auto simp: nonempty_str_def rbind_Inr_iff bounded_str_Inr)

lemma optional_Inr: "optional f j = Inr x \<Longrightarrow> y \<in> set_option x \<Longrightarrow> f j = Inr y"
  by (auto simp: optional_def rbind_Inr_iff split: if_splits)

lemma hex_bytes_Inr: "hex_bytes s = Inr b \<Longrightarrow> 2 * length b \<le> length s"
  by (auto simp: hex_bytes_def dest: fromhex_length split: option.splits)

lemma nonneg_int_Inr: "nonneg_int j = Inr i \<Longrightarrow> 0 \<le> i"
  by (cases j) (auto split: if_splits)

lemma exact_str_Inr: "exact_str n j = Inr s \<Longrightarrow> len s = n"
  by (cases j) (auto split: if_splits)

lemma read_counters_Inr:
  "read_counters d = Inr cs \<Longrightarrow>
   keys cs = keys d \<and> (\<forall>k \<in> fst ` set cs. k \<noteq> [] \<and> len k \<le> MAX_PEER_ID_LENGTH)"
  by (induction d arbitrary: cs rule: read_counters.induct) (fastforce simp: rbind_Inr_iff)+

lemma clock_ok_VectorClock:
  assumes "distinct (keys cs)" "len cs \<le> 128"
    "\<forall>k \<in> fst ` set cs. k \<noteq> [] \<and> len k \<le> MAX_PEER_ID_LENGTH"
  shows "clock_ok (VectorClock cs)"
proof -
  have "len (filter (\<lambda>(k, v). v > 0) cs) \<le> 128"
    using assms(2) length_filter_le [of "\<lambda>(k, v). v > 0" cs] by linarith
  then show ?thesis
    using assms wf_VectorClock [OF assms(1)] by (auto simp: clock_ok_def VectorClock_def)
qed

lemma read_vector_clock_Inr:
  assumes "read_vector_clock j = Inr c" "json_wf j"
  shows "clock_ok c"
proof -
  obtain d cs where d: "j = JDict d" "len d \<le> 128" "read_counters d = Inr cs" "c = VectorClock cs"
    using assms(1) by (cases j) (auto simp: read_vector_clock_def rbind_Inr_iff)
  note cs = read_counters_Inr [OF d(3)]
  then have "length cs = length d" using map_eq_imp_length_eq by blast
  with cs d assms(2) show ?thesis by (auto intro!: clock_ok_VectorClock)
qed

lemma json_wf_jget: "json_wf (JDict d) \<Longrightarrow> json_wf (jget d k)"
  by (force simp: jget_def get_default_def dest: map_of_SomeD split: option.splits)

lemma read_fence_token_Inr:
  "read_fence_token j = Inr t \<Longrightarrow> 0 \<le> epoch t \<and> len (fence_peer t) \<le> MAX_PEER_ID_LENGTH"
  by (auto simp: read_fence_token_def rbind_Inr_iff bounded_str_Inr dest: nonneg_int_Inr)

lemma read_bytes_Inr:
  "rbind (bounded_str (n * 2) j) hex_bytes = Inr b \<Longrightarrow> len b \<le> n"
  "rbind (exact_str 128 j) hex_bytes = Inr b \<Longrightarrow> length b \<le> 64"
  by (auto simp: rbind_Inr_iff bounded_str_Inr dest!: hex_bytes_Inr exact_str_Inr)

lemma read_peer_Inr:
  "optional (nonempty_str MAX_PEER_ID_LENGTH) j = Inr x \<Longrightarrow> peer_ok x"
  by (auto simp: peer_ok_def nonempty_str_Inr dest: optional_Inr)

lemma read_errors:
  assumes "ValueError \<in> E"
  shows "raises_only E (as_dict j)" "raises_only E (bounded_str n j)" "raises_only E (nonneg_int j)"
    "raises_only E (exact_str n j)" "raises_only E (hex_bytes s)" "raises_only E (TaskState s)"
    "raises_only E (require b ValueError)"
  using assms
  by ((cases j)?; auto simp: raises_only_def hex_bytes_def TaskState_def require_def
      split: if_splits option.splits)+

lemma read_composite_errors:
  assumes E: "ValueError \<in> E"
  shows "raises_only E (nonempty_str n j)" "raises_only E (read_fence_token j)"
    "raises_only E (read_counters d)" "raises_only E (read_vector_clock j)"
    "(\<And>j. raises_only E (f j)) \<Longrightarrow> raises_only E (optional f j)"
proof -
  show c: "raises_only E (read_counters d)" for d
    by (induction d rule: read_counters.induct)
       (auto intro!: raises_only_rules read_errors E)
  show "raises_only E (nonempty_str n j)" "raises_only E (read_fence_token j)"
    "raises_only E (read_vector_clock j)"
    "(\<And>j. raises_only E (f j)) \<Longrightarrow> raises_only E (optional f j)"
    using E unfolding nonempty_str_def read_fence_token_def read_vector_clock_def optional_def
    by (auto intro!: raises_only_rules read_errors c) (auto simp: raises_only_def)
qed

lemma read_lease_expiry_errors: "raises_only {ValueError, OverflowError} (read_lease_expiry j)"
  by (cases j rule: read_lease_expiry.cases)
     (auto simp: raises_only_def float_of_int_def Let_def split: if_splits)

lemma from_dict_errors: "raises_only {ValueError, OverflowError} (from_dict j)"
  unfolding from_dict_def
  by (intro raises_only_rules read_errors read_composite_errors read_lease_expiry_errors)
     (auto intro: read_errors simp: raises_only_def [of _ "Inl _"] split: json.split)

lemma from_dict_fields:
  assumes "from_dict (JDict d) = Inr r"
  shows "nonempty_str MAX_TASK_ID_LENGTH (jget d ''task_id'') = Inr (task_id r)"
    "rbind (bounded_str (MAX_TASK_PAYLOAD * 2) (jget d ''payload'')) hex_bytes = Inr (payload r)"
    "optional (\<lambda>j. rbind (bounded_str (MAX_TASK_RESULT * 2) j) hex_bytes) (jget d ''result'') = Inr (result r)"
    "optional (bounded_str MAX_ERROR_LENGTH) (jget d ''error'') = Inr (error r)"
    "optional (nonempty_str MAX_PEER_ID_LENGTH) (jget d ''claimed_by'') = Inr (claimed_by r)"
    "\<exists>u. optional (nonempty_str MAX_PEER_ID_LENGTH) (jget d ''updated_by'') = Inr u \<and>
       updated_by r = (case u of None \<Rightarrow> [] | Some u \<Rightarrow> u)"
    "optional (nonempty_str MAX_PEER_ID_LENGTH) (jget d ''signer_id'') = Inr (signer_id r)"
    "read_fence_token (jget d ''fence_token'') = Inr (fence_token r)"
    "read_vector_clock (jget d ''vector_clock'') = Inr (vector_clock r)"
    "read_lease_expiry (jget d ''lease_expiry'') = Inr (lease_expiry r)"
    "optional (\<lambda>j. rbind (exact_str 128 j) hex_bytes) (jget d ''signature'') = Inr (signature r)"
    "jget d ''state'' = JStr (state_value (state r))"
  using assms unfolding from_dict_def as_dict.simps rbind.simps
  by (clarsimp simp: rbind_Inr_iff TaskState_Inr split: json.splits)+

lemma from_dict_valid:
  assumes "from_dict j = Inr r" "json_wf j"
  shows "record_valid r"
proof -
  obtain d where j: "j = JDict d" using assms(1) by (cases j) (auto simp: from_dict_def)
  note f = from_dict_fields [OF assms(1) [unfolded j]]
  have "task_id r \<noteq> []" "len (task_id r) \<le> MAX_TASK_ID_LENGTH"
    using f(1) by (simp_all add: nonempty_str_Inr)
  moreover have "len (payload r) \<le> MAX_TASK_PAYLOAD"
    "\<forall>b \<in> set_option (result r). len b \<le> MAX_TASK_RESULT"
    "\<forall>e \<in> set_option (error r). len e \<le> MAX_ERROR_LENGTH"
    "\<forall>s \<in> set_option (signature r). length s \<le> 64"
    using read_bytes_Inr(1) [OF f(2)] read_bytes_Inr optional_Inr [OF f(3)] optional_Inr [OF f(4)]
      optional_Inr [OF f(11)] bounded_str_Inr by blast+
  moreover have "peer_ok (claimed_by r)" "peer_ok (signer_id r)"
    using read_peer_Inr [OF f(5)] read_peer_Inr [OF f(7)] by simp_all
  moreover obtain u where "peer_ok u" "updated_by r = (case u of None \<Rightarrow> [] | Some u \<Rightarrow> u)"
    using f(6) read_peer_Inr by blast
  then have "len (updated_by r) \<le> MAX_PEER_ID_LENGTH"
    by (cases u) (simp_all add: peer_ok_def MAX_PEER_ID_LENGTH_def)
  moreover have "clock_ok (vector_clock r)"
    using read_vector_clock_Inr [OF f(9)] json_wf_jget assms(2) j by blast
  ultimately show ?thesis
    using read_fence_token_Inr [OF f(8)] by (simp add: record_valid_def)
qed

definition sample_record :: task_record where
  "sample_record = \<lparr>task_id = ''t1'', state = CLAIMED, payload = [1, 255], result = None,
     error = None, claimed_by = Some ''a'', fence_token = FenceToken 1 ''a'', lease_expiry = 1 / 2,
     vector_clock = VectorClock [(''b'', 1), (''a'', 2)], updated_by = ''a'', signature = None,
     signer_id = None\<rparr>"

lemma sample_record_clock: "clock (vector_clock sample_record) = [(''a'', 2), (''b'', 1)]"
  by (simp add: sample_record_def VectorClock_def sort_key_simps)

lemma sample_record_ok: "wf_clock (vector_clock sample_record)" "record_ok sample_record"
proof -
  show wf: "wf_clock (vector_clock sample_record)"
    unfolding sample_record_def by (simp add: wf_VectorClock)
  show "record_ok sample_record"
    using sample_record_clock wf
    by (simp add: record_ok_def record_valid_def peer_ok_def clock_ok_def MAX_PEER_ID_LENGTH_def
        MAX_TASK_ID_LENGTH_def MAX_TASK_PAYLOAD_def) (simp add: sample_record_def)
qed

lemma json_wf_to_dict: "wf_clock (vector_clock r) \<Longrightarrow> json_wf (to_dict r)"
  unfolding to_dict_def wf_clock_def
  by (cases "result r"; cases "error r"; cases "claimed_by r"; cases "signature r"; cases "signer_id r")
     (auto simp: hex_json_def fst_comp_map_snd)

text \<open>
  C32: validation is sound. Every record that \<^verbatim>\<open>from_dict\<close> accepts respects the protocol limits
  on identifiers, payload, result, error, clock and signature and carries a normalised clock,
  and the only errors are \<^verbatim>\<open>ValueError\<close> and, for an integer lease beyond the range of a float,
  \<^verbatim>\<open>OverflowError\<close>.
\<close>

theorem from_dict_sound:
  assumes "json_wf j"
  shows "case from_dict j of Inl e \<Rightarrow> e = ValueError \<or> e = OverflowError | Inr r \<Rightarrow> record_valid r"
proof (cases "from_dict j")
  case (Inr r)
  then show ?thesis using from_dict_valid [OF _ assms] by simp
next
  case (Inl e)
  have "e = ValueError \<or> e = OverflowError"
    using Inl from_dict_errors [of j] by (simp add: raises_only_def)
  with Inl show ?thesis by simp
qed

theorem from_dict_sound_witness:
  "record_valid sample_record \<and> from_dict (JDict [(''task_id'', JInt 3)]) = Inl ValueError"
proof -
  have "case from_dict (to_dict sample_record) of
      Inl e \<Rightarrow> e = ValueError \<or> e = OverflowError | Inr r \<Rightarrow> record_valid r"
    by (intro from_dict_sound json_wf_to_dict sample_record_ok)
  then have "record_valid sample_record"
    using from_dict_to_dict [OF sample_record_ok(1)] sample_record_ok(2) by simp
  moreover have "from_dict (JDict [(''task_id'', JInt 3)]) = Inl ValueError"
    by (simp add: from_dict_def jget_def get_default_def nonempty_str_def)
  ultimately show ?thesis by simp
qed

text \<open>
  \<^verbatim>\<open>from_dict(r.to_dict())\<close> gives the record back exactly when the record respects the limits,
  has a non-empty \<^verbatim>\<open>updated_by\<close> and, if signed, a signature of 64 bytes; every other record is
  refused with \<^verbatim>\<open>ValueError\<close>, and never read as a different record.
\<close>

theorem record_dict_roundtrip:
  assumes "wf_clock (vector_clock r)"
  shows "from_dict (to_dict r) = (if record_ok r then Inr r else Inl ValueError)"
  using assms by (rule from_dict_to_dict)

theorem record_dict_roundtrip_witness:
  "from_dict (to_dict sample_record) = Inr sample_record \<and>
   from_dict (to_dict (sample_record\<lparr>updated_by := []\<rparr>)) = Inl ValueError"
  using record_dict_roundtrip [of sample_record] record_dict_roundtrip [of "sample_record\<lparr>updated_by := []\<rparr>"]
    sample_record_ok by (simp add: record_ok_def)

text \<open>
  A record survives the wire: serialised canonically, encoded, decoded, parsed and
  validated, it is the same record, although the parsed object has its keys in another order.
\<close>

theorem record_wire_roundtrip:
  assumes "record_ok r" "printable fr pf (to_dict r)"
  shows "\<exists>b t j. canonical_json_bytes fr (to_dict r) = Inr b \<and> utf8_decode b = Some t \<and>
    loads pf t = Some j \<and> from_dict j = Inr r"
proof -
  have wf: "wf_clock (vector_clock r)"
    using assms(1) by (simp add: record_ok_def record_valid_def clock_ok_def)
  have "loads pf (dump fr False (sort_json (to_dict r))) = Some (sort_json (to_dict r))"
    using assms(2) by (simp add: loads_dump printable_sort_json)
  moreover have "dumpable (to_dict r)" using assms(2) by (simp add: printable_def)
  moreover have "from_dict (sort_json (to_dict r)) = Inr r"
    using from_dict_sorted [OF wf] from_dict_to_dict [OF wf] assms(1) by simp
  ultimately show ?thesis by (simp add: canonical_json_bytes_def dumps_def)
qed

lemma sample_record_printable: "printable sample_repr sample_parse (to_dict sample_record)"
  unfolding printable_def
  using json_wf_to_dict [OF sample_record_ok(1)] sample_float_text_ok(2)
  by (simp add: to_dict_def sample_record_clock hex_json_def)
     (simp add: sample_record_def max_str_digits_def dec_nat.simps)

theorem record_wire_roundtrip_witness:
  "\<exists>b t j. canonical_json_bytes sample_repr (to_dict sample_record) = Inr b \<and>
    utf8_decode b = Some t \<and> loads sample_parse t = Some j \<and> from_dict j = Inr sample_record"
  by (rule record_wire_roundtrip [OF sample_record_ok(2) sample_record_printable])

end
