(* ===== verification/Crypto.thy ===== *)
theory Crypto
  imports Task_Record
begin

section \<open>Signatures and the key ring (crypto.py)\<close>

text \<open>
  The wrappers around Ed25519 keys, the registry of authorised peers, the bytes of a record
  that are signed, and the verification of a record. The primitives of the
  \<^verbatim>\<open>cryptography\<close> package are the record \<open>ed25519\<close> of functions on raw bytes, an argument of every
  operation; what a property needs of them is a hypothesis of it.
\<close>

record ed25519 =
  public_ok :: "bytes \<Rightarrow> bool"
  private_ok :: "bytes \<Rightarrow> bool"
  public_of :: "bytes \<Rightarrow> bytes"
  sign_raw :: "bytes \<Rightarrow> bytes \<Rightarrow> bytes"
  verify_raw :: "bytes \<Rightarrow> bytes \<Rightarrow> bytes \<Rightarrow> bool"

text \<open>A signature made with a key verifies under its public key and has 64 bytes.\<close>

definition ed25519_correct :: "ed25519 \<Rightarrow> bool" where
  "ed25519_correct E \<longleftrightarrow>
     (\<forall>k d. verify_raw E (public_of E k) (sign_raw E k d) d \<and> length (sign_raw E k d) = 64)"

subsection \<open>Keys\<close>

datatype public_key = PublicKey (public_raw: bytes)
datatype key_pair = KeyPair (private_raw: bytes)

definition public_from_bytes :: "ed25519 \<Rightarrow> bytes \<Rightarrow> public_key result" where
  "public_from_bytes E data =
     (if length data \<noteq> 32 then Inl InvalidKeyError
      else if public_ok E data then Inr (PublicKey data)
      else Inl InvalidKeyError)"

definition public_from_hex :: "ed25519 \<Rightarrow> string \<Rightarrow> public_key result" where
  "public_from_hex E hex_str =
     (case fromhex hex_str of None \<Rightarrow> Inl InvalidKeyError | Some raw \<Rightarrow> public_from_bytes E raw)"

definition public_to_bytes :: "public_key \<Rightarrow> bytes" where
  "public_to_bytes k = public_raw k"

definition public_to_hex :: "public_key \<Rightarrow> string" where
  "public_to_hex k = hex_of (public_to_bytes k)"

definition public_verify :: "ed25519 \<Rightarrow> public_key \<Rightarrow> bytes \<Rightarrow> bytes \<Rightarrow> bool" where
  "public_verify E k sig data \<longleftrightarrow> length sig = 64 \<and> verify_raw E (public_raw k) sig data"

definition private_from_bytes :: "ed25519 \<Rightarrow> bytes \<Rightarrow> key_pair result" where
  "private_from_bytes E data =
     (if length data \<noteq> 32 then Inl InvalidKeyError
      else if private_ok E data then Inr (KeyPair data)
      else Inl InvalidKeyError)"

definition private_from_hex :: "ed25519 \<Rightarrow> string \<Rightarrow> key_pair result" where
  "private_from_hex E hex_str =
     (case fromhex hex_str of None \<Rightarrow> Inl InvalidKeyError | Some raw \<Rightarrow> private_from_bytes E raw)"

definition private_to_bytes :: "key_pair \<Rightarrow> bytes" where
  "private_to_bytes k = private_raw k"

definition private_to_hex :: "key_pair \<Rightarrow> string" where
  "private_to_hex k = hex_of (private_to_bytes k)"

definition public_key_of :: "ed25519 \<Rightarrow> key_pair \<Rightarrow> public_key" where
  "public_key_of E k = PublicKey (public_of E (private_raw k))"

definition key_sign :: "ed25519 \<Rightarrow> key_pair \<Rightarrow> bytes \<Rightarrow> bytes" where
  "key_sign E k data = sign_raw E (private_raw k) data"

definition key_verify :: "ed25519 \<Rightarrow> key_pair \<Rightarrow> bytes \<Rightarrow> bytes \<Rightarrow> bool" where
  "key_verify E k sig data = public_verify E (public_key_of E k) sig data"

subsection \<open>Key ring\<close>

type_synonym key_ring = "(string, public_key) dict"

datatype key_arg = KeyObject public_key | KeyBytes bytes | KeyHex string | KeyOther

definition add_peer :: "ed25519 \<Rightarrow> key_ring \<Rightarrow> string \<Rightarrow> key_arg \<Rightarrow> key_ring result" where
  "add_peer E ring peer_id arg =
     (if peer_id = [] \<or> len peer_id > MAX_PEER_ID_LENGTH then Inl ValueError
      else
        (case arg of
           KeyObject k \<Rightarrow> Inr (AList.update peer_id k ring)
         | KeyBytes b \<Rightarrow> rbind (public_from_bytes E b) (\<lambda>k. Inr (AList.update peer_id k ring))
         | KeyHex h \<Rightarrow> rbind (public_from_hex E h) (\<lambda>k. Inr (AList.update peer_id k ring))
         | KeyOther \<Rightarrow> Inl TypeError))"

definition remove_peer :: "key_ring \<Rightarrow> string \<Rightarrow> key_ring" where
  "remove_peer ring peer_id = AList.delete peer_id ring"

definition has_peer :: "key_ring \<Rightarrow> string \<Rightarrow> bool" where
  "has_peer ring peer_id = has_key ring peer_id"

definition get_peer_key :: "key_ring \<Rightarrow> string \<Rightarrow> public_key option" where
  "get_peer_key ring peer_id = map_of ring peer_id"

definition ring_items :: "key_ring \<Rightarrow> (string \<times> public_key) list" where
  "ring_items ring = ring"

definition ring_verify :: "ed25519 \<Rightarrow> key_ring \<Rightarrow> string \<Rightarrow> bytes \<Rightarrow> bytes \<Rightarrow> bool" where
  "ring_verify E ring peer_id sig data =
     (case get_peer_key ring peer_id of
        None \<Rightarrow> False
      | Some key \<Rightarrow> public_verify E key sig data)"

subsection \<open>Signed bytes of a record\<close>

text \<open>
  \<^verbatim>\<open>f"{x:.6f}"\<close>: the nearest multiple of a millionth, ties to even, with six decimals. Zero
  has one sign in this model.
\<close>

definition round_real :: "real \<Rightarrow> nat" where
  "round_real y =
     (let f = nat \<lfloor>y\<rfloor>; r = y - real f
      in if r > 1 / 2 \<or> r = 1 / 2 \<and> odd f then f + 1 else f)"

definition pad6 :: "nat \<Rightarrow> string" where
  "pad6 n = replicate (6 - length (dec_nat n)) (CHR ''0'') @ dec_nat n"

definition fmt6 :: "real \<Rightarrow> string" where
  "fmt6 x =
     (let n = round_real (\<bar>x\<bar> * 10 ^ 6)
      in (if x < 0 then ''-'' else []) @ dec_nat (n div 10 ^ 6) @ ''.'' @ pad6 (n mod 10 ^ 6))"

definition canonical_doc :: "task_record \<Rightarrow> json" where
  "canonical_doc task = JDict
     [(''claimed_by'', opt_json JStr (claimed_by task)),
      (''error'', opt_json JStr (error task)),
      (''fence_epoch'', JInt (epoch (fence_token task))),
      (''fence_peer'', JStr (fence_peer (fence_token task))),
      (''lease_expiry'', JStr (fmt6 (lease_expiry task))),
      (''payload'', hex_json (payload task)),
      (''result'', opt_json hex_json (result task)),
      (''signer_id'', opt_json JStr (signer_id task)),
      (''state'', JStr (state_value (state task))),
      (''task_id'', JStr (task_id task)),
      (''updated_by'', JStr (updated_by task)),
      (''vector_clock'', JList (map (\<lambda>(k, v). JList [JStr k, JInt v])
                                 (sort_key fst (clock (vector_clock task)))))]"

text \<open>The document holds no float, so the float printer of \<open>dumps\<close> is never used.\<close>

definition canonical_task_bytes :: "task_record \<Rightarrow> bytes result" where
  "canonical_task_bytes task =
     (case dumps (\<lambda>_. []) True (canonical_doc task) of
        None \<Rightarrow> Inl ValueError
      | Some t \<Rightarrow> Inr (utf8_encode t))"

definition sign_task :: "ed25519 \<Rightarrow> key_pair \<Rightarrow> task_record \<Rightarrow> string \<Rightarrow> task_record result" where
  "sign_task E key task signer =
     (let staged = task\<lparr>signer_id := Some signer, signature := None\<rparr>
      in rbind (canonical_task_bytes staged) (\<lambda>data.
         Inr (staged\<lparr>signature := Some (key_sign E key data)\<rparr>)))"

definition verify_task_signature :: "ed25519 \<Rightarrow> task_record \<Rightarrow> key_ring \<Rightarrow> bool result" where
  "verify_task_signature E task ring =
     (case (signature task, signer_id task) of
        (Some sig, Some signer) \<Rightarrow>
          (let staged = task\<lparr>signature := None\<rparr>
           in rbind (canonical_task_bytes staged) (\<lambda>data. Inr (ring_verify E ring signer sig data)))
      | _ \<Rightarrow> Inr False)"

definition verify_task_authorization :: "ed25519 \<Rightarrow> task_record \<Rightarrow> key_ring \<Rightarrow> bool result" where
  "verify_task_authorization E task ring =
     rbind (verify_task_signature E task ring) (\<lambda>ok.
       if \<not> ok then Inr False
       else case claimed_by task of
              None \<Rightarrow> Inr True
            | Some owner \<Rightarrow>
                if signer_id task \<noteq> Some owner then Inr False
                else if fence_peer (fence_token task) \<noteq> owner then Inr False
                else Inr True)"

subsection \<open>The signed bytes determine the record\<close>

lemma opt_json_inj:
  assumes "\<And>x y. f x = f y \<longleftrightarrow> x = y" "\<And>x. f x \<noteq> JNull"
  shows "opt_json f x = opt_json f y \<longleftrightarrow> x = y"
  using assms by (cases x; cases y) (auto dest: sym)

lemma hex_json_inj [simp]: "hex_json a = hex_json b \<longleftrightarrow> a = b" "hex_json a \<noteq> JNull"
  by (simp_all add: hex_json_def hex_of_inj)

lemma state_value_inj: "state_value s = state_value t \<longleftrightarrow> s = t"
  using TaskState_value by (metis sum.inject(2))

lemma clock_json_inj:
  "map (\<lambda>(k, v). JList [JStr k, JInt v]) c = map (\<lambda>(k, v). JList [JStr k, JInt v]) d \<longleftrightarrow> c = d"
  by (rule inj_map_eq_map) (auto intro!: injI)

lemma canonical_doc_inj:
  assumes "wf_clock (vector_clock r)" "wf_clock (vector_clock r')"
  shows "canonical_doc r = canonical_doc r' \<longleftrightarrow>
    r\<lparr>lease_expiry := 0, signature := None\<rparr> = r'\<lparr>lease_expiry := 0, signature := None\<rparr> \<and>
    fmt6 (lease_expiry r) = fmt6 (lease_expiry r')"
proof -
  have c: "sort_key fst (clock (vector_clock x)) = clock (vector_clock x)"
    if "wf_clock (vector_clock x)" for x :: task_record
    using that by (simp add: wf_clock_def sort_key_id_if_sorted)
  have "canonical_doc r = canonical_doc r' \<longleftrightarrow>
      claimed_by r = claimed_by r' \<and> error r = error r' \<and> fence_token r = fence_token r' \<and>
      fmt6 (lease_expiry r) = fmt6 (lease_expiry r') \<and> payload r = payload r' \<and>
      result r = result r' \<and> signer_id r = signer_id r' \<and> state r = state r' \<and>
      task_id r = task_id r' \<and> updated_by r = updated_by r' \<and>
      clock (vector_clock r) = clock (vector_clock r')"
    unfolding canonical_doc_def json.inject list.inject prod.inject simp_thms c [OF assms(1)] c [OF assms(2)]
    by (simp add: opt_json_inj state_value_inj clock_json_inj) (auto simp: fence_token.expand)
  then show ?thesis by (cases r; cases r') auto
qed

lemma canonical_doc_facts:
  "json_wf (canonical_doc r)" "json_floats (canonical_doc r) = {}"
proof -
  have o: "json_wf (opt_json f x)" "json_floats (opt_json f x) = {}"
    if "\<And>x. json_wf (f x)" "\<And>x. json_floats (f x) = {}" for x :: "'a option" and f
    using that by (cases x; simp)+
  have c: "\<forall>x \<in> set (map (\<lambda>(k, v). JList [JStr k, JInt v]) d). json_wf x \<and> json_floats x = {}" for d
    by auto
  show "json_wf (canonical_doc r)" "json_floats (canonical_doc r) = {}"
    using c unfolding canonical_doc_def by (simp_all add: o hex_json_def)
qed

lemma canonical_doc_sorted: "sort_json (canonical_doc r) = canonical_doc r"
proof -
  have o: "sort_json (opt_json f x) = opt_json f x" if "\<And>x. sort_json (f x) = f x" for x :: "'a option" and f
    using that by (cases x) simp_all
  have c: "map sort_json (map (\<lambda>(k, v). JList [JStr k, JInt v]) d) = map (\<lambda>(k, v). JList [JStr k, JInt v]) d" for d
    by (induction d) auto
  show ?thesis
    unfolding canonical_doc_def sort_json.simps c
    by (simp add: o hex_json_def sort_key_simps) auto
qed

lemma canonical_task_bytes_Inr:
  "canonical_task_bytes r = Inr b \<longleftrightarrow>
     dumpable (canonical_doc r) \<and> b = utf8_encode (dump (\<lambda>_. []) True (canonical_doc r))"
  by (auto simp: canonical_task_bytes_def dumps_def canonical_doc_sorted)

lemma canonical_task_bytes_eq:
  assumes "canonical_task_bytes r = Inr b" "canonical_task_bytes r' = Inr b'"
  shows "b = b' \<longleftrightarrow> canonical_doc r = canonical_doc r'"
proof -
  have l: "loads pf (dump (\<lambda>_. []) True (canonical_doc x)) = Some (canonical_doc x)"
    if "dumpable (canonical_doc x)" for x and pf :: "string \<Rightarrow> pyfloat"
    using that canonical_doc_facts [of x] by (intro loads_dump) (simp add: printable_def)
  with assms show ?thesis
    unfolding canonical_task_bytes_Inr by (metis option.inject utf8_encode_inj)
qed

subsection \<open>Six decimals\<close>

lemma not_in_dec_nat: "\<not> is_digit c \<Longrightarrow> c \<notin> set (dec_nat n)"
  using dec_nat_digits by blast

lemma dec_nat_inj: "dec_nat m = dec_nat n \<longleftrightarrow> m = n"
  by (metis dec_nat_simps(1))

lemma read_nat_zeros: "read_nat (replicate k (CHR ''0'') @ s) = read_nat s"
proof -
  have "foldl (\<lambda>acc c. 10 * acc + (code c - 48)) 0 (replicate k (CHR ''0'')) = 0"
    by (induction k) simp_all
  then show ?thesis by (simp add: read_nat_def)
qed

lemma pad6_inj: "pad6 m = pad6 n \<longleftrightarrow> m = n"
  by (metis dec_nat_simps(1) pad6_def read_nat_zeros)

lemma split_at_dot:
  assumes "CHR ''.'' \<notin> set a" "CHR ''.'' \<notin> set b" "a @ ''.'' @ x = b @ ''.'' @ y"
  shows "a = b \<and> x = y"
proof -
  have "takeWhile (\<lambda>c. c \<noteq> CHR ''.'') (a @ ''.'' @ x) = a" "takeWhile (\<lambda>c. c \<noteq> CHR ''.'') (b @ ''.'' @ y) = b"
    using assms(1,2) by (auto simp: takeWhile_append)
  with assms(3) show ?thesis by auto
qed

lemma fmt6_inj:
  "fmt6 x = fmt6 y \<longleftrightarrow> (x < 0 \<longleftrightarrow> y < 0) \<and> round_real (\<bar>x\<bar> * 10 ^ 6) = round_real (\<bar>y\<bar> * 10 ^ 6)"
proof
  assume eq: "fmt6 x = fmt6 y"
  let ?n = "round_real (\<bar>x\<bar> * 10 ^ 6)" and ?m = "round_real (\<bar>y\<bar> * 10 ^ 6)"
  let ?s = "\<lambda>z::real. if z < 0 then ''-'' else []"
  have "\<not> is_digit (CHR ''.'')" "\<not> is_digit (CHR ''-'')" by (simp_all add: is_digit_def)
  note nd = this [THEN not_in_dec_nat]
  have "(?s x @ dec_nat (?n div 10 ^ 6)) @ ''.'' @ pad6 (?n mod 10 ^ 6) =
      (?s y @ dec_nat (?m div 10 ^ 6)) @ ''.'' @ pad6 (?m mod 10 ^ 6)"
    using eq unfolding fmt6_def Let_def append_assoc .
  then have "?s x @ dec_nat (?n div 10 ^ 6) = ?s y @ dec_nat (?m div 10 ^ 6) \<and>
      pad6 (?n mod 10 ^ 6) = pad6 (?m mod 10 ^ 6)"
    using nd(1) by (intro split_at_dot) auto
  then have s: "?s x @ dec_nat (?n div 10 ^ 6) = ?s y @ dec_nat (?m div 10 ^ 6)"
    and r: "?n mod 10 ^ 6 = ?m mod 10 ^ 6" by (simp_all only: pad6_inj)
  have neg: "x < 0 \<longleftrightarrow> y < 0"
  proof (rule ccontr)
    assume "\<not> ?thesis"
    with s have "CHR ''-'' # dec_nat (?n div 10 ^ 6) = dec_nat (?m div 10 ^ 6) \<or>
        dec_nat (?n div 10 ^ 6) = CHR ''-'' # dec_nat (?m div 10 ^ 6)"
      by (cases "x < 0"; cases "y < 0") (simp_all only: if_True if_False append.simps simp_thms)
    then show False using nd(2) by (metis list.set_intros(1))
  qed
  then have "dec_nat (?n div 10 ^ 6) = dec_nat (?m div 10 ^ 6)" using s by simp
  then have "?n div 10 ^ 6 = ?m div 10 ^ 6" by (simp only: dec_nat_inj)
  with r have "?n = ?m" by (metis div_mult_mod_eq)
  with neg show "(x < 0 \<longleftrightarrow> y < 0) \<and> ?n = ?m" by simp
qed (simp add: fmt6_def)

lemma round_real_dist: "0 \<le> y \<Longrightarrow> \<bar>y - real (round_real y)\<bar> \<le> 1 / 2"
proof -
  assume "0 \<le> y"
  then have "real (nat \<lfloor>y\<rfloor>) \<le> y" "y < real (nat \<lfloor>y\<rfloor>) + 1" by linarith+
  moreover define f where "f = nat \<lfloor>y\<rfloor>"
  ultimately have "real f \<le> y" "y < real f + 1" by simp_all
  then show ?thesis unfolding round_real_def Let_def f_def [symmetric]
    by (auto simp: abs_real_def)
qed

lemma fmt6_close:
  assumes "fmt6 x = fmt6 y"
  shows "\<bar>x - y\<bar> \<le> 1 / 10 ^ 6"
proof -
  let ?n = "round_real (\<bar>x\<bar> * 10 ^ 6)"
  have "\<bar>\<bar>x\<bar> * 10 ^ 6 - real ?n\<bar> \<le> 1 / 2" "\<bar>\<bar>y\<bar> * 10 ^ 6 - real ?n\<bar> \<le> 1 / 2"
    using round_real_dist [of "\<bar>x\<bar> * 10 ^ 6"] round_real_dist [of "\<bar>y\<bar> * 10 ^ 6"] assms
    by (simp_all add: fmt6_inj)
  then have "\<bar>\<bar>x\<bar> - \<bar>y\<bar>\<bar> \<le> 1 / 10 ^ 6" by (auto simp: abs_real_def split: if_splits)
  then show ?thesis using assms unfolding fmt6_inj by (auto simp: abs_real_def split: if_splits)
qed

subsection \<open>Signing and verifying\<close>

lemma canonical_doc_signature [simp]: "canonical_doc (r\<lparr>signature := s\<rparr>) = canonical_doc r"
  by (simp add: canonical_doc_def)

lemma canonical_task_bytes_signature [simp]:
  "canonical_task_bytes (r\<lparr>signature := s\<rparr>) = canonical_task_bytes r"
  by (simp add: canonical_task_bytes_def)

lemma verify_task_signature_True:
  "verify_task_signature E r ring = Inr True \<longleftrightarrow>
     (\<exists>sig signer key data. signature r = Some sig \<and> signer_id r = Some signer \<and>
        map_of ring signer = Some key \<and> canonical_task_bytes r = Inr data \<and>
        length sig = 64 \<and> verify_raw E (public_raw key) sig data)"
  by (auto simp: verify_task_signature_def ring_verify_def get_peer_key_def public_verify_def
      rbind_Inr_iff Let_def split: option.splits)

definition ownership_ok :: "task_record \<Rightarrow> bool" where
  "ownership_ok r \<longleftrightarrow>
     (\<forall>p. claimed_by r = Some p \<longrightarrow> signer_id r = Some p \<and> fence_peer (fence_token r) = p)"

lemma verify_task_authorization_True:
  "verify_task_authorization E r ring = Inr True \<longleftrightarrow>
     verify_task_signature E r ring = Inr True \<and> ownership_ok r"
  by (auto simp: verify_task_authorization_def rbind_Inr_iff ownership_ok_def split: option.splits if_splits)

lemma signed_record_ok:
  assumes "ed25519_correct E" "sign_task E key r signer = Inr r'"
    and "get_peer_key ring signer = Some (public_key_of E key)"
  shows "verify_task_signature E r' ring = Inr True \<and>
    (verify_task_authorization E r' ring = Inr True \<longleftrightarrow>
      (\<forall>p. claimed_by r = Some p \<longrightarrow> p = signer \<and> fence_peer (fence_token r) = signer))"
proof -
  let ?s = "r\<lparr>signer_id := Some signer\<rparr>"
  obtain data where d: "canonical_task_bytes ?s = Inr data"
    "r' = ?s\<lparr>signature := Some (key_sign E key data)\<rparr>"
    using assms(2) by (auto simp: sign_task_def Let_def rbind_Inr_iff)
  then have "verify_task_signature E r' ring = Inr True"
    using assms(1,3) by (simp add: verify_task_signature_True get_peer_key_def key_sign_def
        public_key_of_def ed25519_correct_def)
  moreover have "ownership_ok r' \<longleftrightarrow>
      (\<forall>p. claimed_by r = Some p \<longrightarrow> p = signer \<and> fence_peer (fence_token r) = signer)"
    using d(2) by (auto simp: ownership_ok_def)
  ultimately show ?thesis by (simp add: verify_task_authorization_True)
qed

text \<open>
  A record signed by a registered peer verifies, and it is authorised exactly when the
  record is unclaimed or the signer is both the claimant and the peer of the fencing token.
\<close>

theorem signed_record_authorized:
  assumes "ed25519_correct E" "sign_task E key r signer = Inr r'"
    and "get_peer_key ring signer = Some (public_key_of E key)"
  shows "verify_task_signature E r' ring = Inr True \<and>
    (verify_task_authorization E r' ring = Inr True \<longleftrightarrow>
      (\<forall>p. claimed_by r = Some p \<longrightarrow> p = signer \<and> fence_peer (fence_token r) = signer))"
  using assms by (rule signed_record_ok)

text \<open>
  A stand-in for the primitives, for concrete instances: a signature is the length of the
  data and its sum, in 64 bytes.
\<close>

definition sample_tag :: "bytes \<Rightarrow> bytes \<Rightarrow> bytes" where
  "sample_tag k d = take 64 (k @ [sum_list d, word_of_nat (length d)] @ replicate 64 0)"

definition sample_ed25519 :: ed25519 where
  "sample_ed25519 = \<lparr>public_ok = (\<lambda>b. True), private_ok = (\<lambda>b. True), public_of = (\<lambda>k. k),
     sign_raw = sample_tag, verify_raw = (\<lambda>k s d. s = sample_tag k d)\<rparr>"

lemma sample_ed25519_correct: "ed25519_correct sample_ed25519"
  by (auto simp: ed25519_correct_def sample_ed25519_def sample_tag_def min_def)

lemma sample_doc_dumpable: "dumpable (canonical_doc (sample_record\<lparr>signer_id := s\<rparr>))"
  by (cases s) (simp_all add: canonical_doc_def sample_record_def VectorClock_def sort_key_simps hex_json_def
      max_str_digits_def dec_nat.simps)

lemma sample_signed: "\<exists>r'. sign_task sample_ed25519 (KeyPair [7]) sample_record ''a'' = Inr r'"
proof -
  obtain b where "canonical_task_bytes (sample_record\<lparr>signer_id := Some ''a''\<rparr>) = Inr b"
    using sample_doc_dumpable [of "Some ''a''"] canonical_task_bytes_Inr by blast
  then show ?thesis by (simp add: sign_task_def Let_def)
qed

theorem signed_record_authorized_witness:
  "\<exists>r'. sign_task sample_ed25519 (KeyPair [7]) sample_record ''a'' = Inr r' \<and>
     verify_task_authorization sample_ed25519 r' [(''a'', PublicKey [7])] = Inr True"
proof -
  obtain r' where r': "sign_task sample_ed25519 (KeyPair [7]) sample_record ''a'' = Inr r'"
    using sample_signed by blast
  have "get_peer_key [(''a'', PublicKey [7])] ''a'' = Some (public_key_of sample_ed25519 (KeyPair [7]))"
    by (simp add: get_peer_key_def public_key_of_def sample_ed25519_def)
  from signed_record_authorized [OF sample_ed25519_correct r' this] r' show ?thesis
    by (simp add: sample_record_def)
qed


definition sample_binding :: "bytes \<Rightarrow> ed25519" where
  "sample_binding b = sample_ed25519\<lparr>verify_raw := (\<lambda>k s d. d = b)\<rparr>"


end
