(* ===== verification/Record_Merge.thy ===== *)
theory Record_Merge
  imports Crypto
begin

section \<open>Merging task records (consensus.py, merge_records)\<close>

text \<open>
  The conflict resolution of replicated task records: the winner is the record with the
  greater lattice key, and the clocks are merged. Without a key ring the operation is a
  join-semilattice on the records of a task, and the convergence lemmas of the contract
  apply. With a key ring only authorised records take part.
\<close>

type_synonym lattice_key =
  "int \<times> fence_token \<times> int \<times> string \<times> (int \<times> string) \<times> (int \<times> bytes) \<times> (int \<times> string) \<times>
   bytes \<times> real \<times> (int \<times> bytes) \<times> (int \<times> string)"

fun opt_tuple :: "'a list option \<Rightarrow> int \<times> 'a list" where
  "opt_tuple None = (0, [])"
| "opt_tuple (Some x) = (1, x)"

definition record_lattice_key :: "task_record \<Rightarrow> lattice_key" where
  "record_lattice_key r =
     (let terminal_flag = (if is_terminal (state r) then 1 else 0);
          claimed_tuple = opt_tuple (claimed_by r);
          result_tuple = opt_tuple (result r);
          error_tuple = opt_tuple (error r);
          sig_tuple = opt_tuple (signature r);
          signer_tuple = opt_tuple (signer_id r)
      in (terminal_flag, fence_token r, lattice_rank (state r), updated_by r, claimed_tuple,
          result_tuple, error_tuple, payload r, lease_expiry r, sig_tuple, signer_tuple))"

definition lattice_join :: "task_record \<Rightarrow> task_record \<Rightarrow> task_record" where
  "lattice_join r1 r2 =
     (let winner = (if record_lattice_key r1 \<ge> record_lattice_key r2 then r1 else r2)
      in winner\<lparr>vector_clock := vc_merge (vector_clock r1) (vector_clock r2)\<rparr>)"

definition merge_records ::
  "ed25519 \<Rightarrow> task_record \<Rightarrow> task_record \<Rightarrow> key_ring option \<Rightarrow> task_record result" where
  "merge_records E r1 r2 keyring =
     (if task_id r1 \<noteq> task_id r2 then Inl ValueError
      else case keyring of
             None \<Rightarrow> Inr (lattice_join r1 r2)
           | Some ring \<Rightarrow>
               rbind (verify_task_authorization E r1 ring) (\<lambda>valid1.
               rbind (verify_task_authorization E r2 ring) (\<lambda>valid2.
                 if valid1 \<and> \<not> valid2 then Inr r1
                 else if valid2 \<and> \<not> valid1 then Inr r2
                 else if \<not> valid1 \<and> \<not> valid2 then Inl ValueError
                 else Inr (lattice_join r1 r2))))"

subsection \<open>The key is total\<close>

lemma opt_tuple_inj: "opt_tuple x = opt_tuple y \<longleftrightarrow> x = y"
  by (cases x; cases y) simp_all

lemma record_lattice_key_clock [simp]:
  "record_lattice_key (r\<lparr>vector_clock := c\<rparr>) = record_lattice_key r"
  by (simp add: record_lattice_key_def)

lemma record_lattice_key_inj:
  assumes "record_lattice_key r1 = record_lattice_key r2" "task_id r1 = task_id r2"
  shows "r1\<lparr>vector_clock := c\<rparr> = r2\<lparr>vector_clock := c\<rparr>"
  using assms
  by (cases r1; cases r2) (simp add: record_lattice_key_def Let_def opt_tuple_inj lattice_rank_inj)

text \<open>The records of one task, with normalised clocks.\<close>

definition task_replica :: "string \<Rightarrow> task_record \<Rightarrow> bool" where
  "task_replica t r \<longleftrightarrow> task_id r = t \<and> wf_clock (vector_clock r)"

interpretation rm: ranked_join wf_clock vc_merge "task_replica t" record_lattice_key vector_clock
  "\<lambda>c r. r\<lparr>vector_clock := c\<rparr>" lattice_join for t
proof
  fix r s :: task_record and c d
  show "lattice_join r s = (if record_lattice_key s \<le> record_lattice_key r then r else s)
      \<lparr>vector_clock := vc_merge (vector_clock r) (vector_clock s)\<rparr>"
    by (simp only: lattice_join_def Let_def)
  show "record_lattice_key (r\<lparr>vector_clock := c\<rparr>) = record_lattice_key r"
    by (rule record_lattice_key_clock)
  show "task_replica t r \<Longrightarrow> task_replica t s \<Longrightarrow> record_lattice_key r = record_lattice_key s \<Longrightarrow>
      r\<lparr>vector_clock := c\<rparr> = s\<lparr>vector_clock := c\<rparr>"
    by (rule record_lattice_key_inj) (simp_all only: task_replica_def)
qed (simp_all add: task_replica_def)

text \<open>
  C2: without a key ring, \<^verbatim>\<open>merge_records\<close> is commutative, associative and idempotent on the
  records of a task.
\<close>

theorem merge_records_semilattice:
  assumes "task_replica t r1" "task_replica t r2" "task_replica t r3"
  shows "merge_records E r1 r2 None = merge_records E r2 r1 None \<and>
    rbind (merge_records E r1 r2 None) (\<lambda>r. merge_records E r r3 None) =
      rbind (merge_records E r2 r3 None) (\<lambda>r. merge_records E r1 r None) \<and>
    merge_records E r1 r1 None = Inr r1"
  using assms rm.pick_commute [OF assms(1,2)] rm.pick_assoc [OF assms] rm.pick_idem [OF assms(1)]
    rm.pick_ok [OF assms(1,2)] rm.pick_ok [OF assms(2,3)]
  by (simp add: merge_records_def task_replica_def)

lemma sample_replica: "task_replica ''t1'' (sample_record\<lparr>state := s\<rparr>)" "task_replica ''t1'' sample_record"
  using sample_record_ok(1) by (simp_all add: task_replica_def) (simp_all add: sample_record_def)

theorem merge_records_semilattice_witness:
  "merge_records sample_ed25519 (sample_record\<lparr>state := DONE\<rparr>) (sample_record\<lparr>state := RUNNING\<rparr>) None =
   merge_records sample_ed25519 (sample_record\<lparr>state := RUNNING\<rparr>) (sample_record\<lparr>state := DONE\<rparr>) None"
  using merge_records_semilattice [OF sample_replica(1) [of DONE] sample_replica(1) [of RUNNING]
      sample_replica(2)] by blast

subsection \<open>Gossip converges\<close>

definition merge_all :: "ed25519 \<Rightarrow> task_record \<Rightarrow> task_record list \<Rightarrow> task_record result" where
  "merge_all E r rs = foldl (\<lambda>acc r'. rbind acc (\<lambda>a. merge_records E a r' None)) (Inr r) rs"

lemma merge_records_None:
  "task_replica t r1 \<Longrightarrow> task_replica t r2 \<Longrightarrow> merge_records E r1 r2 None = Inr (lattice_join r1 r2)"
  by (simp add: merge_records_def task_replica_def)

lemma merge_all_foldl:
  "task_replica t r \<Longrightarrow> \<forall>r' \<in> set rs. task_replica t r' \<Longrightarrow>
   merge_all E r rs = Inr (foldl lattice_join r rs)"
  unfolding merge_all_def
  by (induction rs arbitrary: r) (simp_all add: merge_records_None rm.pick_ok)

text \<open>
  Replicas converge. Starting from the same record, two replicas that have received the
  same set of records of a task, in any order and with any duplication, hold the same record;
  it absorbs every record received.
\<close>

theorem gossip_converges:
  assumes "task_replica t r" "\<forall>r' \<in> set rs. task_replica t r'" "set rs = set rs'"
  shows "\<exists>m. merge_all E r rs = Inr m \<and> merge_all E r rs' = Inr m \<and>
    (\<forall>r' \<in> set rs. merge_records E r' m None = Inr m)"
proof -
  have rs': "\<forall>r' \<in> set rs'. task_replica t r'" using assms(2,3) by simp
  have "task_replica t (foldl lattice_join r rs)"
    using assms(1,2) by (rule rm.all.fold_closed)
  then have "merge_records E r' (foldl lattice_join r rs) None = Inr (foldl lattice_join r rs)"
    if "r' \<in> set rs" for r'
    using that assms(2) rm.all.fold_above_elem [OF assms(1,2) that]
      merge_records_None [of t r' "foldl lattice_join r rs" E] by auto
  moreover have "foldl lattice_join r rs' = foldl lattice_join r rs"
    using rm.all.convergence [OF assms] by simp
  ultimately show ?thesis
    using merge_all_foldl [OF assms(1,2)] merge_all_foldl [OF assms(1) rs'] by simp
qed

theorem gossip_converges_witness:
  "\<exists>m. merge_all sample_ed25519 sample_record [sample_record\<lparr>state := DONE\<rparr>, sample_record\<lparr>state := FAILED\<rparr>] = Inr m \<and>
     merge_all sample_ed25519 sample_record [sample_record\<lparr>state := FAILED\<rparr>, sample_record\<lparr>state := DONE\<rparr>,
       sample_record\<lparr>state := FAILED\<rparr>] = Inr m"
proof -
  let ?d = "sample_record\<lparr>state := DONE\<rparr>" and ?f = "sample_record\<lparr>state := FAILED\<rparr>"
  have "\<forall>r \<in> set [?d, ?f]. task_replica ''t1'' r" "set [?d, ?f] = set [?f, ?d, ?f]"
    using sample_replica(1) by auto
  from gossip_converges [OF sample_replica(2) this, of sample_ed25519] show ?thesis by blast
qed

subsection \<open>What wins\<close>

definition terminal_flag :: "task_record \<Rightarrow> int" where
  "terminal_flag r = (if is_terminal (state r) then 1 else 0)"

lemma lattice_key_le:
  assumes "record_lattice_key r \<le> record_lattice_key s"
  shows "terminal_flag r < terminal_flag s \<or>
    terminal_flag r = terminal_flag s \<and>
      (fence_token r < fence_token s \<or>
       fence_token r = fence_token s \<and> lattice_rank (state r) \<le> lattice_rank (state s))"
  using assms unfolding record_lattice_key_def Let_def terminal_flag_def [symmetric] less_eq_prod_def
  by (simp only: fst_conv snd_conv less_le) blast

lemma lattice_key_winner:
  assumes "record_lattice_key l \<le> record_lattice_key w"
  shows "(is_terminal (state l) \<longrightarrow> is_terminal (state w)) \<and>
    (is_terminal (state w) = is_terminal (state l) \<longrightarrow>
       fence_token w = max (fence_token w) (fence_token l) \<and>
       (fence_token w = fence_token l \<longrightarrow>
          lattice_rank (state w) = max (lattice_rank (state w)) (lattice_rank (state l))))"
proof -
  have "terminal_flag l \<le> terminal_flag w"
    "terminal_flag l = terminal_flag w \<Longrightarrow> fence_token l \<le> fence_token w"
    "terminal_flag l = terminal_flag w \<Longrightarrow> fence_token l = fence_token w \<Longrightarrow>
       lattice_rank (state l) \<le> lattice_rank (state w)"
    using lattice_key_le [OF assms] by auto
  then show ?thesis
    by (cases "is_terminal (state l)"; cases "is_terminal (state w)")
       (simp_all add: terminal_flag_def max_absorb1)
qed

lemma lattice_join_winner:
  "\<exists>w l. (w = r1 \<and> l = r2 \<or> w = r2 \<and> l = r1) \<and> record_lattice_key l \<le> record_lattice_key w \<and>
     lattice_join r1 r2 = w\<lparr>vector_clock := vc_merge (vector_clock r1) (vector_clock r2)\<rparr>"
proof (cases "record_lattice_key r2 \<le> record_lattice_key r1")
  case True
  then show ?thesis unfolding lattice_join_def Let_def if_P [OF True]
    by (intro exI [of _ r1] exI [of _ r2]) (simp only: simp_thms)
next
  case False
  then have "record_lattice_key r1 \<le> record_lattice_key r2" by (simp only: not_le less_imp_le)
  then show ?thesis unfolding lattice_join_def Let_def if_not_P [OF False]
    by (intro exI [of _ r2] exI [of _ r1]) (simp only: simp_thms)
qed

lemma merge_records_winner:
  assumes "merge_records E r1 r2 None = Inr r"
  shows "\<exists>w l. (w = r1 \<and> l = r2 \<or> w = r2 \<and> l = r1) \<and> record_lattice_key l \<le> record_lattice_key w \<and>
     state r = state w \<and> fence_token r = fence_token w"
proof -
  have "r = lattice_join r1 r2" using assms by (simp add: merge_records_def split: if_splits)
  moreover obtain w l where "w = r1 \<and> l = r2 \<or> w = r2 \<and> l = r1" "record_lattice_key l \<le> record_lattice_key w"
    "lattice_join r1 r2 = w\<lparr>vector_clock := vc_merge (vector_clock r1) (vector_clock r2)\<rparr>"
    using lattice_join_winner [of r1 r2] by (elim exE conjE)
  ultimately show ?thesis by (intro exI [of _ w] exI [of _ l]) simp
qed

text \<open>
  A merge never demotes. The merged record is terminal exactly when one of the two is;
  between two terminal or two live records the greater fencing token wins; at equal tokens
  the state of higher rank wins.
\<close>

theorem merge_never_demotes:
  assumes "merge_records E r1 r2 None = Inr r"
  shows "(is_terminal (state r) \<longleftrightarrow> is_terminal (state r1) \<or> is_terminal (state r2)) \<and>
    (is_terminal (state r1) = is_terminal (state r2) \<longrightarrow>
       fence_token r = max (fence_token r1) (fence_token r2) \<and>
       (fence_token r1 = fence_token r2 \<longrightarrow>
          lattice_rank (state r) = max (lattice_rank (state r1)) (lattice_rank (state r2))))"
proof -
  obtain w l where wl: "w = r1 \<and> l = r2 \<or> w = r2 \<and> l = r1" "record_lattice_key l \<le> record_lattice_key w"
    "state r = state w" "fence_token r = fence_token w"
    using merge_records_winner [OF assms] by (elim exE conjE)
  note win = lattice_key_winner [OF wl(2)]
  from wl(1) show ?thesis
  proof (elim disjE conjE)
    assume "w = r1" "l = r2"
    with win show ?thesis unfolding wl(3,4) by auto
  next
    assume "w = r2" "l = r1"
    with win show ?thesis
      unfolding wl(3,4) max.commute [of "fence_token r1"] max.commute [of "lattice_rank (state r1)"]
      by auto
  qed
qed

theorem merge_never_demotes_witness:
  "\<exists>r. merge_records sample_ed25519 (sample_record\<lparr>state := DONE\<rparr>) sample_record None = Inr r \<and>
     is_terminal (state r)"
proof -
  obtain r where r: "merge_records sample_ed25519 (sample_record\<lparr>state := DONE\<rparr>) sample_record None = Inr r"
    using merge_records_None [OF sample_replica(1) [of DONE] sample_replica(2)] by blast
  from merge_never_demotes [OF this] r show ?thesis by (simp add: is_terminal_def)
qed

text \<open>
  A late commit wins over a newer lease. A terminal record, whatever its fencing token,
  replaces a live record, so a commit of a worker whose token was superseded is accepted.
\<close>

theorem stale_commit_accepted:
  assumes "task_id r1 = task_id r2" "is_terminal (state r1)" "\<not> is_terminal (state r2)"
    and "fence_token r1 < fence_token r2"
  shows "\<exists>r. merge_records E r1 r2 None = Inr r \<and> merge_records E r2 r1 None = Inr r \<and>
    state r = state r1 \<and> fence_token r = fence_token r1 \<and> result r = result r1"
proof -
  have "\<not> record_lattice_key r1 \<le> record_lattice_key r2"
    using lattice_key_le [of r1 r2] assms(2,3) by (auto simp: terminal_flag_def)
  then have "record_lattice_key r2 \<le> record_lattice_key r1" "\<not> record_lattice_key r1 \<le> record_lattice_key r2"
    by (simp_all only: not_le less_imp_le)
  moreover have "vc_merge (vector_clock r1) (vector_clock r2) = vc_merge (vector_clock r2) (vector_clock r1)"
    by (simp add: vc_merge_def all_keys_commute max.commute)
  ultimately show ?thesis
    using assms(1) unfolding merge_records_def lattice_join_def Let_def by simp
qed

theorem stale_commit_accepted_witness:
  "\<exists>r. merge_records sample_ed25519 (sample_record\<lparr>state := DONE\<rparr>)
      (sample_record\<lparr>state := RUNNING, fence_token := FenceToken 2 ''b''\<rparr>) None = Inr r \<and> state r = DONE"
  using stale_commit_accepted [of "sample_record\<lparr>state := DONE\<rparr>"
      "sample_record\<lparr>state := RUNNING, fence_token := FenceToken 2 ''b''\<rparr>" sample_ed25519]
  by (auto simp: is_terminal_def sample_record_def less_fence_token_def)

subsection \<open>With a key ring\<close>

lemma merge_with_ring:
  assumes "verify_task_authorization E r1 ring = Inr v1" "verify_task_authorization E r2 ring = Inr v2"
    and "task_id r1 = task_id r2"
  shows "merge_records E r1 r2 (Some ring) =
    (if v1 \<and> v2 then Inr (lattice_join r1 r2)
     else if v1 then Inr r1 else if v2 then Inr r2 else Inl ValueError)"
  using assms by (simp add: merge_records_def)

lemma merge_ring_content:
  assumes "merge_records E r1 r2 (Some ring) = Inr r"
  shows "\<exists>w. (w = r1 \<or> w = r2) \<and> verify_task_authorization E w ring = Inr True \<and>
    r\<lparr>vector_clock := vector_clock w\<rparr> = w \<and>
    (verify_task_authorization E r1 ring \<noteq> Inr True \<or> verify_task_authorization E r2 ring \<noteq> Inr True
       \<longrightarrow> r = w)"
proof -
  obtain v1 v2 where v: "verify_task_authorization E r1 ring = Inr v1"
    "verify_task_authorization E r2 ring = Inr v2" "task_id r1 = task_id r2"
    using assms by (auto simp: merge_records_def rbind_Inr_iff split: if_splits)
  show ?thesis
  proof (cases "v1 \<and> v2")
    case True
    then have "r = lattice_join r1 r2" using assms merge_with_ring [OF v] by simp
    moreover obtain w l where w: "w = r1 \<and> l = r2 \<or> w = r2 \<and> l = r1"
      "lattice_join r1 r2 = w\<lparr>vector_clock := vc_merge (vector_clock r1) (vector_clock r2)\<rparr>"
      using lattice_join_winner [of r1 r2] by (elim exE conjE)
    ultimately show ?thesis using True v by (intro exI [of _ w]) auto
  next
    case False
    then show ?thesis
      using assms merge_with_ring [OF v] v by (cases v1; cases v2) auto
  qed
qed

text \<open>
  C10: only authorised content survives. A merge under a key ring yields a record whose every
  field but the clock is that of an authorised record; an unauthorised record changes
  nothing, not even the clock; two unauthorised records are refused.
\<close>

theorem merge_byzantine:
  assumes "merge_records E r1 r2 (Some ring) = Inr r"
  shows "\<exists>w. (w = r1 \<or> w = r2) \<and> verify_task_authorization E w ring = Inr True \<and>
    r\<lparr>vector_clock := vector_clock w\<rparr> = w \<and>
    (verify_task_authorization E r1 ring \<noteq> Inr True \<or> verify_task_authorization E r2 ring \<noteq> Inr True
       \<longrightarrow> r = w)"
  using assms by (rule merge_ring_content)

lemma sample_unsigned: "verify_task_authorization E sample_record ring = Inr False"
  by (simp add: verify_task_authorization_def verify_task_signature_def) (simp add: sample_record_def)

theorem merge_byzantine_witness:
  "\<exists>r'. sign_task sample_ed25519 (KeyPair [7]) sample_record ''a'' = Inr r' \<and>
     merge_records sample_ed25519 r' sample_record (Some [(''a'', PublicKey [7])]) = Inr r'"
proof -
  let ?ring = "[(''a'', PublicKey [7])]"
  obtain r' where r': "sign_task sample_ed25519 (KeyPair [7]) sample_record ''a'' = Inr r'"
    using sample_signed by blast
  have "get_peer_key ?ring ''a'' = Some (public_key_of sample_ed25519 (KeyPair [7]))"
    by (simp add: get_peer_key_def public_key_of_def sample_ed25519_def)
  then have ok: "verify_task_authorization sample_ed25519 r' ?ring = Inr True"
    using signed_record_ok [OF sample_ed25519_correct r'] by (simp add: sample_record_def)
  have "task_id r' = task_id sample_record" using r' by (auto simp: sign_task_def Let_def rbind_Inr_iff)
  then obtain r where r: "merge_records sample_ed25519 r' sample_record (Some ?ring) = Inr r"
    using merge_with_ring [OF ok sample_unsigned] by simp
  from merge_byzantine [OF r] sample_unsigned [of sample_ed25519 ?ring] have "r = r'" by auto
  with r r' show ?thesis by blast
qed

text \<open>A signature that verifies for one message only.\<close>

definition signature_binds :: "ed25519 \<Rightarrow> bytes \<Rightarrow> bool" where
  "signature_binds E sig \<longleftrightarrow> (\<forall>k d d'. verify_raw E k sig d \<longrightarrow> verify_raw E k sig d' \<longrightarrow> d = d')"

text \<open>
  Merged clocks void signatures. If two authorised records are merged and the merged clock
  is not the clock that was signed, the result is no longer authorised, and the next merge
  replaces it by any authorised record of the task, even one that is not terminal and has a
  lower fencing token.
\<close>

theorem merged_record_loses_authority:
  assumes "wf_clock (vector_clock w)" "wf_clock (vector_clock l)"
    and "verify_task_authorization E w ring = Inr True" "verify_task_authorization E l ring = Inr True"
    and "merge_records E w l (Some ring) = Inr m" "record_lattice_key l \<le> record_lattice_key w"
    and "vector_clock m \<noteq> vector_clock w" "canonical_task_bytes m = Inr bm"
    and "signature w = Some sig" "signature_binds E sig"
    and "task_id r3 = task_id w" "verify_task_authorization E r3 ring = Inr True"
  shows "verify_task_authorization E m ring = Inr False \<and> merge_records E m r3 (Some ring) = Inr r3"
proof -
  have id: "task_id w = task_id l" using assms(5) by (simp add: merge_records_def split: if_splits)
  then have m: "m = w\<lparr>vector_clock := vc_merge (vector_clock w) (vector_clock l)\<rparr>"
    using assms(5,6) merge_with_ring [OF assms(3,4)] unfolding lattice_join_def Let_def by simp
  obtain p key b where p: "signer_id w = Some p" "map_of ring p = Some key"
    "canonical_task_bytes w = Inr b" "verify_raw E (public_raw key) sig b"
    using assms(3,9) by (auto simp: verify_task_authorization_True verify_task_signature_True)
  have "wf_clock (vector_clock m)" by (simp add: m wf_merge)
  then have "canonical_doc m \<noteq> canonical_doc w"
    using canonical_doc_inj [OF _ assms(1)] assms(7) by (auto dest: arg_cong [of _ _ vector_clock])
  then have "bm \<noteq> b" using canonical_task_bytes_eq [OF assms(8) p(3)] by simp
  then have "\<not> verify_raw E (public_raw key) sig bm" using assms(10) p(4) unfolding signature_binds_def by blast
  moreover have "signature m = Some sig" "signer_id m = Some p" using assms(9) p(1) m by simp_all
  ultimately have v: "verify_task_authorization E m ring = Inr False"
    using p(2) assms(8)
    by (simp add: verify_task_authorization_def verify_task_signature_def Let_def ring_verify_def
        get_peer_key_def public_verify_def)
  have "task_id m = task_id r3" using assms(11) m by simp
  with merge_with_ring [OF v assms(12)] v show ?thesis by simp
qed

definition sample_done :: task_record where
  "sample_done = sample_record\<lparr>state := DONE, signer_id := Some ''a'', signature := Some (replicate 64 0)\<rparr>"

definition sample_pending :: task_record where
  "sample_pending = sample_record\<lparr>state := PENDING, claimed_by := None, fence_token := FenceToken 0 [],
     vector_clock := VectorClock [(''b'', 2)], updated_by := ''b'', signer_id := Some ''b'',
     signature := Some (replicate 64 1)\<rparr>"

definition sample_two :: "bytes \<Rightarrow> bytes \<Rightarrow> ed25519" where
  "sample_two b1 b2 = sample_ed25519\<lparr>verify_raw := (\<lambda>k s d. d = (if s = replicate 64 0 then b1 else b2))\<rparr>"

definition sample_ring :: key_ring where
  "sample_ring = [(''a'', PublicKey [7]), (''b'', PublicKey [8])]"

lemmas sample_simps =
  sample_done_def sample_pending_def sample_record_def VectorClock_def sort_key_simps
  hex_json_def max_str_digits_def dec_nat.simps

lemma sample_dumpable:
  "dumpable (canonical_doc sample_done)" "dumpable (canonical_doc sample_pending)"
  "dumpable (canonical_doc (sample_done\<lparr>vector_clock := VectorClock [(''a'', 2), (''b'', 2)]\<rparr>))"
  by (simp_all add: canonical_doc_def sample_simps)

lemma sample_clocks:
  "wf_clock (vector_clock sample_done)" "wf_clock (vector_clock sample_pending)"
  "vc_merge (vector_clock sample_done) (vector_clock sample_pending) = VectorClock [(''a'', 2), (''b'', 2)]"
  "VectorClock [(''a'', 2), (''b'', 2)] \<noteq> vector_clock sample_done"
  by (simp_all add: sample_done_def sample_pending_def sample_record_def wf_VectorClock) code_simp+

lemma sample_key_less: "record_lattice_key sample_pending \<le> record_lattice_key sample_done"
proof -
  have "\<not> record_lattice_key sample_done \<le> record_lattice_key sample_pending"
    using lattice_key_le [of sample_done sample_pending]
    by (auto simp: terminal_flag_def is_terminal_def sample_done_def sample_pending_def)
  then show ?thesis by (simp only: not_le less_imp_le)
qed

lemma sample_two_binds: "signature_binds (sample_two b1 b2) sig"
  by (simp add: signature_binds_def sample_two_def)

lemma sample_two_authorized:
  assumes "canonical_task_bytes sample_done = Inr b1" "canonical_task_bytes sample_pending = Inr b2"
  shows "verify_task_authorization (sample_two b1 b2) sample_done sample_ring = Inr True"
    "verify_task_authorization (sample_two b1 b2) sample_pending sample_ring = Inr True"
proof -
  have "replicate 64 (1::byte) \<noteq> replicate 64 0" by (simp add: replicate_eq_replicate)
  then show "verify_task_authorization (sample_two b1 b2) sample_done sample_ring = Inr True"
    "verify_task_authorization (sample_two b1 b2) sample_pending sample_ring = Inr True"
    using assms unfolding verify_task_authorization_True verify_task_signature_True ownership_ok_def
    by (simp_all add: sample_two_def sample_ring_def sample_done_def sample_pending_def)
       (simp add: sample_record_def)
qed

theorem merged_record_loses_authority_witness:
  "\<exists>E m. state sample_done = DONE \<and> state sample_pending = PENDING \<and>
     merge_records E sample_done sample_pending (Some sample_ring) = Inr m \<and> state m = DONE \<and>
     merge_records E m sample_pending (Some sample_ring) = Inr sample_pending"
proof -
  obtain b1 b2 where b: "canonical_task_bytes sample_done = Inr b1" "canonical_task_bytes sample_pending = Inr b2"
    using sample_dumpable canonical_task_bytes_Inr by blast
  note ok = sample_two_authorized [OF b]
  let ?E = "sample_two b1 b2" and ?m = "sample_done\<lparr>vector_clock := VectorClock [(''a'', 2), (''b'', 2)]\<rparr>"
  have id: "task_id sample_done = task_id sample_pending" by (simp add: sample_done_def sample_pending_def)
  have "lattice_join sample_done sample_pending = ?m"
    unfolding lattice_join_def Let_def if_P [OF sample_key_less] sample_clocks(3) ..
  then have m: "merge_records ?E sample_done sample_pending (Some sample_ring) = Inr ?m"
    using merge_with_ring [OF ok id] by simp
  obtain bm where bm: "canonical_task_bytes ?m = Inr bm"
    using sample_dumpable(3) canonical_task_bytes_Inr by blast
  have "vector_clock ?m \<noteq> vector_clock sample_done" using sample_clocks(4) by simp
  from merged_record_loses_authority [OF sample_clocks(1,2) ok m sample_key_less this bm _ sample_two_binds _ ok(2)]
  have "merge_records ?E ?m sample_pending (Some sample_ring) = Inr sample_pending"
    using id by (simp add: sample_done_def)
  with m show ?thesis
    by (intro exI [of _ ?E] exI [of _ ?m]) (simp add: sample_done_def sample_pending_def)
qed

end
