(* ===== verification/Wal.thy ===== *)
theory Wal
  imports Task_Record
begin

section \<open>The write-ahead log (wal.py)\<close>

text \<open>
  The log is a file: a magic header followed by frames, each with the length, the CRC32 and
  the type of its JSON payload. The state holds the contents of the file at the log's path;
  \<^verbatim>\<open>fsync\<close> has no effect on the contents and a crash is a truncation of the file. A replay is a
  generator: the model returns the records it yields and the exception that ends it, if any.
  Failures of the operating system are not modelled.
\<close>

unbundle bit_operations_syntax

subsection \<open>Binary formats\<close>

text \<open>\<^verbatim>\<open>zlib.crc32\<close>, bit by bit.\<close>

definition crc_bit :: "32 word \<Rightarrow> 32 word" where
  "crc_bit c = (if bit c 0 then drop_bit 1 c XOR 0xEDB88320 else drop_bit 1 c)"

definition crc_byte :: "32 word \<Rightarrow> byte \<Rightarrow> 32 word" where
  "crc_byte c b = (crc_bit ^^ 8) (c XOR ucast b)"

definition crc32 :: "bytes \<Rightarrow> 32 word" where
  "crc32 bs = NOT (foldl crc_byte 0xFFFFFFFF bs)"

text \<open>The check value of the CRC-32 catalogue.\<close>

lemma crc_byte_unfold:
  "crc_byte c b =
     crc_bit (crc_bit (crc_bit (crc_bit (crc_bit (crc_bit (crc_bit (crc_bit (c XOR ucast b))))))))"
  by (simp add: crc_byte_def eval_nat_numeral)

lemma crc32_check:
  "crc32 [0x31, 0x32, 0x33, 0x34, 0x35, 0x36, 0x37, 0x38, 0x39] = 0xCBF43926"
  by (simp add: crc32_def crc_byte_unfold crc_bit_def)

definition WAL_MAGIC :: bytes where
  "WAL_MAGIC = [0x50, 0x51, 0x57, 0x4C, 1, 0, 0, 0]"

definition WAL_HEADER_LEN :: nat where
  "WAL_HEADER_LEN = length WAL_MAGIC"

definition FRAME_HEADER_LEN :: nat where
  "FRAME_HEADER_LEN = 9"

definition RECORD_TASK :: nat where
  "RECORD_TASK = 1"

definition RECORD_CLOCK :: nat where
  "RECORD_CLOCK = 2"

definition RECORD_CHECKPOINT :: nat where
  "RECORD_CHECKPOINT = 3"

definition record_types :: "nat set" where
  "record_types = {RECORD_TASK, RECORD_CLOCK, RECORD_CHECKPOINT}"

text \<open>\<^verbatim>\<open>struct.Struct(">IIB")\<close>, packing and unpacking.\<close>

definition pack_header :: "nat \<Rightarrow> 32 word \<Rightarrow> nat \<Rightarrow> bytes result" where
  "pack_header n crc ty =
     (if n < 2 ^ 32 then Inr (be32 n @ be32 (unat crc) @ [word_of_nat ty]) else Inl StructError)"

definition unpack_header :: "bytes \<Rightarrow> nat \<times> 32 word \<times> nat" where
  "unpack_header h =
     (un_be32 (take 4 h), word_of_nat (un_be32 (take 4 (drop 4 h))), unat (h ! 8))"

subsection \<open>State\<close>

record wal_record =
  offset :: nat
  record_type :: nat
  wal_payload :: json

record wal =
  sync_on_write :: bool
  max_record_bytes :: int
  contents :: "bytes option"
  file_open :: bool

definition verify_header :: "bytes \<Rightarrow> unit result" where
  "verify_header data =
     (let hdr = take WAL_HEADER_LEN data
      in if length hdr < WAL_HEADER_LEN \<or> take 4 hdr \<noteq> take 4 WAL_MAGIC then Inl WalCorruptError
         else if hdr ! 4 \<noteq> 1 then Inl WalCorruptError
         else Inr ())"

definition open_log :: "wal \<Rightarrow> wal result" where
  "open_log w =
     (let data = (case contents w of None \<Rightarrow> WAL_MAGIC | Some d \<Rightarrow> if d = [] then WAL_MAGIC else d)
      in rbind (verify_header data) (\<lambda>_. Inr (w\<lparr>contents := Some data, file_open := True\<rparr>)))"

definition WriteAheadLog :: "bytes option \<Rightarrow> bool \<Rightarrow> int \<Rightarrow> wal result" where
  "WriteAheadLog disk sync max_bytes =
     (if max_bytes \<le> 0 then Inl ValueError
      else open_log \<lparr>sync_on_write = sync, max_record_bytes = max_bytes, contents = disk,
                     file_open = False\<rparr>)"

definition close_log :: "wal \<Rightarrow> wal" where
  "close_log w = w\<lparr>file_open := False\<rparr>"

definition sync_log :: "wal \<Rightarrow> wal" where
  "sync_log w = w"

subsection \<open>Appending\<close>

definition wal_limits :: "wal \<Rightarrow> json_limits" where
  "wal_limits w = \<lparr>lim_depth = 16, lim_items = 10000, lim_string = max_record_bytes w\<rparr>"

text \<open>Validation and serialisation of a payload; every failure becomes \<^verbatim>\<open>WalError\<close>.\<close>

definition payload_bytes :: "(real \<Rightarrow> string) \<Rightarrow> wal \<Rightarrow> json \<Rightarrow> bytes result" where
  "payload_bytes fr w body =
     (case validate_json_tree (wal_limits w) body of
        Inl e \<Rightarrow> Inl WalError
      | Inr _ \<Rightarrow>
          (case dumps fr True body of
             None \<Rightarrow> Inl WalError
           | Some t \<Rightarrow>
               if len (utf8_encode t) > max_record_bytes w then Inl WalError
               else Inr (utf8_encode t)))"

definition frame :: "nat \<Rightarrow> bytes \<Rightarrow> bytes result" where
  "frame ty pb =
     rbind (pack_header (length pb) (crc32 (word_of_nat ty # pb)) ty) (\<lambda>h. Inr (h @ pb))"

definition append_record ::
  "(real \<Rightarrow> string) \<Rightarrow> wal \<Rightarrow> nat \<Rightarrow> json \<Rightarrow> (nat \<times> wal) result" where
  "append_record fr w ty body =
     (if \<not> file_open w then Inl WalError
      else if ty \<notin> record_types then Inl WalError
      else
        rbind (payload_bytes fr w body) (\<lambda>pb.
        rbind (frame ty pb) (\<lambda>fb.
        (let data = (case contents w of None \<Rightarrow> [] | Some d \<Rightarrow> d)
         in Inr (length data, w\<lparr>contents := Some (data @ fb)\<rparr>)))))"

definition append_task :: "(real \<Rightarrow> string) \<Rightarrow> wal \<Rightarrow> task_record \<Rightarrow> (nat \<times> wal) result" where
  "append_task fr w r = append_record fr w RECORD_TASK (to_dict r)"

definition clock_json :: "vector_clock \<Rightarrow> json" where
  "clock_json c = JDict (map (\<lambda>(k, v). (k, JInt v)) (vc_to_dict c))"

definition append_clock :: "(real \<Rightarrow> string) \<Rightarrow> wal \<Rightarrow> vector_clock \<Rightarrow> (nat \<times> wal) result" where
  "append_clock fr w c = append_record fr w RECORD_CLOCK (clock_json c)"

subsection \<open>Replay\<close>

definition decode_payload :: "(string \<Rightarrow> pyfloat) \<Rightarrow> wal \<Rightarrow> bytes \<Rightarrow> json option" where
  "decode_payload pf w pb =
     (case utf8_decode pb of
        None \<Rightarrow> None
      | Some t \<Rightarrow>
          (case loads pf t of
             None \<Rightarrow> None
           | Some j \<Rightarrow>
               (case validate_json_tree (wal_limits w) j of
                  Inl _ \<Rightarrow> None
                | Inr _ \<Rightarrow> (case j of JDict d \<Rightarrow> Some j | _ \<Rightarrow> None))))"

text \<open>What a frame at an offset is: the end of the log, a torn frame, garbage, or a record.\<close>

datatype frame_read = Eof | Torn | Corrupt | Frame nat json nat

definition read_body ::
  "(string \<Rightarrow> pyfloat) \<Rightarrow> wal \<Rightarrow> bytes \<Rightarrow> nat \<Rightarrow> nat \<Rightarrow> 32 word \<Rightarrow> nat \<Rightarrow> frame_read" where
  "read_body pf w data pos payload_len expected_crc ty =
     (if ty \<notin> record_types then Corrupt
      else if int payload_len > max_record_bytes w then Corrupt
      else
        (let pb = take payload_len (drop (pos + FRAME_HEADER_LEN) data)
         in if length pb < payload_len then Torn
            else if crc32 (word_of_nat ty # pb) \<noteq> expected_crc then Corrupt
            else (case decode_payload pf w pb of
                    None \<Rightarrow> Corrupt
                  | Some j \<Rightarrow> Frame ty j (FRAME_HEADER_LEN + payload_len))))"

definition read_frame :: "(string \<Rightarrow> pyfloat) \<Rightarrow> wal \<Rightarrow> bytes \<Rightarrow> nat \<Rightarrow> frame_read" where
  "read_frame pf w data pos =
     (let hdr_bytes = take FRAME_HEADER_LEN (drop pos data)
      in if hdr_bytes = [] then Eof
         else if length hdr_bytes < FRAME_HEADER_LEN then Torn
         else
           (let (payload_len, expected_crc, ty) = unpack_header hdr_bytes
            in read_body pf w data pos payload_len expected_crc ty))"

lemma FRAME_HEADER_LEN_simps [simp]: "0 < FRAME_HEADER_LEN" "FRAME_HEADER_LEN \<noteq> 0"
  by (simp_all add: FRAME_HEADER_LEN_def)

lemma read_body_progress: "read_body pf w data pos n crc ty = Frame ty' j m \<Longrightarrow> m = FRAME_HEADER_LEN + n"
  by (auto simp: read_body_def Let_def split: if_splits option.splits)

lemma read_frame_progress:
  "read_frame pf w data pos = Frame ty j n \<Longrightarrow> pos < length data \<and> 0 < n"
  by (cases "length data \<le> pos")
     (auto simp: read_frame_def Let_def case_prod_unfold dest!: read_body_progress split: if_splits)

function replay_loop ::
  "(string \<Rightarrow> pyfloat) \<Rightarrow> bool \<Rightarrow> wal \<Rightarrow> bytes \<Rightarrow> nat \<Rightarrow> wal_record list \<times> py_error option" where
  "replay_loop pf strict w data pos =
     (case read_frame pf w data pos of
        Eof \<Rightarrow> ([], None)
      | Torn \<Rightarrow> ([], if strict then Some WalCorruptError else None)
      | Corrupt \<Rightarrow> ([], Some WalCorruptError)
      | Frame ty j n \<Rightarrow>
          (let (rs, e) = replay_loop pf strict w data (pos + n)
           in (\<lparr>offset = pos, record_type = ty, wal_payload = j\<rparr> # rs, e)))"
  by pat_completeness auto

termination
  by (relation "measure (\<lambda>(pf, strict, w, data, pos). length data - pos)")
     (auto dest!: read_frame_progress)

declare replay_loop.simps [simp del]

definition replay ::
  "(string \<Rightarrow> pyfloat) \<Rightarrow> bool \<Rightarrow> wal \<Rightarrow> wal_record list \<times> py_error option" where
  "replay pf strict w =
     (case contents w of
        None \<Rightarrow> ([], None)
      | Some data \<Rightarrow>
          (let hdr = take WAL_HEADER_LEN data
           in if length hdr < WAL_HEADER_LEN
              then ([], if strict then Some WalCorruptError else None)
              else if take 4 hdr \<noteq> take 4 WAL_MAGIC \<or> hdr ! 4 \<noteq> 1 then ([], Some WalCorruptError)
              else replay_loop pf strict w data WAL_HEADER_LEN))"

subsection \<open>Checkpoint\<close>

definition checkpoint_json :: "(string, task_record) dict \<Rightarrow> vector_clock \<Rightarrow> json" where
  "checkpoint_json tasks c =
     JDict [(''tasks'', JDict (map (\<lambda>(k, r). (k, to_dict r)) tasks)),
            (''vector_clock'', clock_json c)]"

definition checkpoint ::
  "(real \<Rightarrow> string) \<Rightarrow> wal \<Rightarrow> (string, task_record) dict \<Rightarrow> vector_clock \<Rightarrow> wal result" where
  "checkpoint fr w tasks c =
     rbind (payload_bytes fr w (checkpoint_json tasks c)) (\<lambda>pb.
     rbind (frame RECORD_CHECKPOINT pb) (\<lambda>fb.
       open_log ((close_log w)\<lparr>contents := Some (WAL_MAGIC @ fb)\<rparr>)))"

subsection \<open>Frames read back\<close>

lemma unpack_header_pack:
  assumes "n < 2 ^ 32" "ty < 256"
  shows "unpack_header (be32 n @ be32 (unat (crc :: 32 word)) @ [word_of_nat ty]) = (n, crc, ty)"
proof -
  have "unat crc < 2 ^ 32" using unsigned_less [of crc, where ?'a = nat] by simp
  then show ?thesis
    using assms by (simp add: unpack_header_def un_be32_be32 unat_byte nth_append)
qed

definition frame_bytes :: "nat \<Rightarrow> bytes \<Rightarrow> bytes" where
  "frame_bytes ty pb =
     (be32 (length pb) @ be32 (unat (crc32 (word_of_nat ty # pb))) @ [word_of_nat ty]) @ pb"

lemma frame_Inr: "frame ty pb = Inr fb \<longleftrightarrow> length pb < 2 ^ 32 \<and> fb = frame_bytes ty pb"
  by (auto simp: frame_def pack_header_def rbind_Inr_iff frame_bytes_def)

lemma length_frame_bytes: "length (frame_bytes ty pb) = FRAME_HEADER_LEN + length pb"
  by (simp add: frame_bytes_def FRAME_HEADER_LEN_def)

lemma record_types_byte: "ty \<in> record_types \<Longrightarrow> ty < 256"
  by (auto simp: record_types_def RECORD_TASK_def RECORD_CLOCK_def RECORD_CHECKPOINT_def)

text \<open>A payload that can stand in a frame of the log and what it decodes to.\<close>

definition frame_ok :: "(string \<Rightarrow> pyfloat) \<Rightarrow> wal \<Rightarrow> nat \<times> bytes \<times> json \<Rightarrow> bool" where
  "frame_ok pf w f =
     (case f of (ty, pb, j) \<Rightarrow>
        ty \<in> record_types \<and> length pb < 2 ^ 32 \<and> int (length pb) \<le> max_record_bytes w \<and>
        decode_payload pf w pb = Some j)"

lemma take_header:
  "take FRAME_HEADER_LEN (frame_bytes ty pb) =
     be32 (length pb) @ be32 (unat (crc32 (word_of_nat ty # pb))) @ [word_of_nat ty]"
  "drop FRAME_HEADER_LEN (frame_bytes ty pb) = pb"
  by (simp_all add: frame_bytes_def FRAME_HEADER_LEN_def)

abbreviation header_bytes :: "nat \<Rightarrow> bytes \<Rightarrow> bytes" where
  "header_bytes ty pb \<equiv> be32 (length pb) @ be32 (unat (crc32 (word_of_nat ty # pb))) @ [word_of_nat ty]"

lemma read_frame_header:
  assumes "take FRAME_HEADER_LEN (drop pos data) = header_bytes ty pb" "frame_ok pf w (ty, pb, j)"
  shows "read_frame pf w data pos = read_body pf w data pos (length pb) (crc32 (word_of_nat ty # pb)) ty"
proof -
  have "unpack_header (header_bytes ty pb) = (length pb, crc32 (word_of_nat ty # pb), ty)"
    using assms(2) by (intro unpack_header_pack) (simp_all add: frame_ok_def record_types_byte)
  moreover have "length (header_bytes ty pb) = FRAME_HEADER_LEN" by (simp add: FRAME_HEADER_LEN_def)
  ultimately show ?thesis unfolding read_frame_def Let_def assms(1) by simp
qed

lemma read_frame_whole:
  assumes "frame_ok pf w (ty, pb, j)"
  shows "read_frame pf w (xs @ frame_bytes ty pb @ ys) (length xs) =
    Frame ty j (FRAME_HEADER_LEN + length pb)"
proof -
  have "take FRAME_HEADER_LEN (frame_bytes ty pb @ ys) = take FRAME_HEADER_LEN (frame_bytes ty pb)"
    by (simp add: length_frame_bytes)
  then have h: "take FRAME_HEADER_LEN (drop (length xs) (xs @ frame_bytes ty pb @ ys)) = header_bytes ty pb"
    by (simp add: take_header)
  have d: "drop (length xs + FRAME_HEADER_LEN) (xs @ frame_bytes ty pb @ ys) = pb @ ys"
    by (simp add: length_frame_bytes take_header)
  have p: "take (length pb) (drop (length xs + FRAME_HEADER_LEN) (xs @ frame_bytes ty pb @ ys)) = pb"
    unfolding d by simp
  show ?thesis
    unfolding read_frame_header [OF h assms] read_body_def Let_def p
    using assms by (simp add: frame_ok_def)
qed

lemma read_frame_cut:
  assumes "frame_ok pf w (ty, pb, j)" "k < length (frame_bytes ty pb)"
  shows "read_frame pf w (xs @ take k (frame_bytes ty pb)) (length xs) = (if k = 0 then Eof else Torn)"
proof (cases "k < FRAME_HEADER_LEN")
  case True
  then show ?thesis using assms(2) by (auto simp: read_frame_def Let_def)
next
  case False
  then have h: "take FRAME_HEADER_LEN (drop (length xs) (xs @ take k (frame_bytes ty pb))) = header_bytes ty pb"
    by (simp add: take_header min_absorb1)
  have "length (take (length pb) (drop (length xs + FRAME_HEADER_LEN) (xs @ take k (frame_bytes ty pb)))) < length pb"
    using assms(2) False by (simp add: length_frame_bytes)
  moreover have "k \<noteq> 0" using False by (cases k) simp_all
  ultimately show ?thesis
    unfolding read_frame_header [OF h assms(1)] read_body_def Let_def
    using assms(1) by (simp only: frame_ok_def prod.case if_True if_False not_not simp_thms) simp
qed

subsection \<open>Whole logs\<close>

type_synonym frame_data = "nat \<times> bytes \<times> json"

definition log_bytes :: "frame_data list \<Rightarrow> bytes" where
  "log_bytes fs = concat (map (\<lambda>(ty, pb, j). frame_bytes ty pb) fs)"

fun log_records :: "nat \<Rightarrow> frame_data list \<Rightarrow> wal_record list" where
  "log_records pos [] = []"
| "log_records pos ((ty, pb, j) # fs) =
     \<lparr>offset = pos, record_type = ty, wal_payload = j\<rparr> #
     log_records (pos + FRAME_HEADER_LEN + length pb) fs"

text \<open>How many leading frames lie entirely within the first \<open>k\<close> bytes.\<close>

fun whole_frames :: "nat \<Rightarrow> frame_data list \<Rightarrow> nat" where
  "whole_frames k [] = 0"
| "whole_frames k ((ty, pb, j) # fs) =
     (let n = FRAME_HEADER_LEN + length pb in if n \<le> k then Suc (whole_frames (k - n) fs) else 0)"

lemma replay_loop_end:
  "read_frame pf w data pos = Eof \<Longrightarrow> replay_loop pf strict w data pos = ([], None)"
  "read_frame pf w data pos = Torn \<Longrightarrow> replay_loop pf False w data pos = ([], None)"
  by (simp_all add: replay_loop.simps [of pf _ w data pos])

lemma replay_loop_frame:
  assumes "read_frame pf w data pos = Frame ty j n" "replay_loop pf strict w data (pos + n) = (rs, e)"
  shows "replay_loop pf strict w data pos =
    (\<lparr>offset = pos, record_type = ty, wal_payload = j\<rparr> # rs, e)"
  using assms by (simp add: replay_loop.simps [of pf strict w data pos])

lemma replay_frames:
  assumes "\<forall>f \<in> set fs. frame_ok pf w f"
    and "replay_loop pf strict w (xs @ log_bytes fs @ ys) (length xs + length (log_bytes fs)) = (rs, e)"
  shows "replay_loop pf strict w (xs @ log_bytes fs @ ys) (length xs) = (log_records (length xs) fs @ rs, e)"
  using assms
proof (induction fs arbitrary: xs)
  case (Cons f fs)
  obtain ty pb j where f: "f = (ty, pb, j)" by (cases f)
  let ?ys = "log_bytes fs @ ys" and ?xs = "xs @ frame_bytes ty pb"
  have data: "xs @ log_bytes (f # fs) @ ys = xs @ frame_bytes ty pb @ ?ys"
    "xs @ log_bytes (f # fs) @ ys = ?xs @ ?ys" by (simp_all add: f log_bytes_def)
  have pos: "length xs + (FRAME_HEADER_LEN + length pb) = length ?xs"
    by (simp add: length_frame_bytes)
  have "read_frame pf w (xs @ log_bytes (f # fs) @ ys) (length xs) = Frame ty j (FRAME_HEADER_LEN + length pb)"
    unfolding data(1) using Cons.prems(1) f by (intro read_frame_whole) simp
  moreover have "replay_loop pf strict w (xs @ log_bytes (f # fs) @ ys) (length xs + (FRAME_HEADER_LEN + length pb))
      = (log_records (length ?xs) fs @ rs, e)"
    unfolding pos data(2) using Cons.prems data(2)
    by (intro Cons.IH) (simp_all add: f log_bytes_def add.assoc)
  ultimately show ?case
    by (simp add: replay_loop_frame f length_frame_bytes add.assoc)
qed (simp add: log_bytes_def)

lemma replay_loop_full:
  assumes "\<forall>f \<in> set fs. frame_ok pf w f"
  shows "replay_loop pf strict w (xs @ log_bytes fs) (length xs) = (log_records (length xs) fs, None)"
proof -
  have "replay_loop pf strict w (xs @ log_bytes fs @ []) (length xs + length (log_bytes fs)) = ([], None)"
    by (intro replay_loop_end) (simp add: read_frame_def)
  from replay_frames [OF assms this] show ?thesis by simp
qed

lemma replay_loop_cut:
  "\<forall>f \<in> set fs. frame_ok pf w f \<Longrightarrow>
   replay_loop pf False w (xs @ take k (log_bytes fs)) (length xs) =
     (take (whole_frames k fs) (log_records (length xs) fs), None)"
proof (induction fs arbitrary: xs k)
  case Nil
  then show ?case by (simp add: replay_loop_end read_frame_def log_bytes_def)
next
  case (Cons f fs)
  obtain ty pb j where f: "f = (ty, pb, j)" by (cases f)
  have ok: "frame_ok pf w (ty, pb, j)" using Cons.prems f by simp
  let ?n = "FRAME_HEADER_LEN + length pb" and ?xs = "xs @ frame_bytes ty pb"
  show ?case
  proof (cases "?n \<le> k")
    case True
    have data: "xs @ take k (log_bytes (f # fs)) = xs @ frame_bytes ty pb @ take (k - ?n) (log_bytes fs)"
      "xs @ take k (log_bytes (f # fs)) = ?xs @ take (k - ?n) (log_bytes fs)"
      using True by (simp_all add: f log_bytes_def length_frame_bytes)
    have pos: "length xs + ?n = length ?xs" by (simp add: length_frame_bytes)
    have "read_frame pf w (xs @ take k (log_bytes (f # fs))) (length xs) = Frame ty j ?n"
      unfolding data(1) using ok by (rule read_frame_whole)
    moreover have "replay_loop pf False w (xs @ take k (log_bytes (f # fs))) (length xs + ?n) =
        (take (whole_frames (k - ?n) fs) (log_records (length ?xs) fs), None)"
      unfolding pos data(2) using Cons.prems by (intro Cons.IH) simp
    ultimately show ?thesis
      using True by (simp add: replay_loop_frame f length_frame_bytes Let_def add.assoc)
  next
    case False
    then have "take k (log_bytes (f # fs)) = take k (frame_bytes ty pb)"
      by (simp add: f log_bytes_def length_frame_bytes)
    moreover have "k < length (frame_bytes ty pb)" using False by (simp add: length_frame_bytes)
    ultimately have "read_frame pf w (xs @ take k (log_bytes (f # fs))) (length xs) = (if k = 0 then Eof else Torn)"
      using read_frame_cut [OF ok] by simp
    then show ?thesis
      using False by (cases "k = 0") (simp_all add: f Let_def replay_loop_end)
  qed
qed

subsection \<open>What append writes is what replay reads\<close>

lemma validate_wal_sort_json:
  "validate_json_tree (wal_limits w) (sort_json j) = validate_json_tree (wal_limits w) j"
  by (rule validate_sort_json) (simp add: wal_limits_def)

lemma decode_payload_bytes:
  assumes "payload_bytes fr w (JDict d) = Inr pb" "printable fr pf (JDict d)"
  shows "decode_payload pf w pb = Some (sort_json (JDict d))" "int (length pb) \<le> max_record_bytes w"
proof -
  have v: "validate_json_tree (wal_limits w) (JDict d) = Inr ()"
    and pb: "pb = utf8_encode (dump fr True (sort_json (JDict d)))" "int (length pb) \<le> max_record_bytes w"
    using assms(1) by (auto simp: payload_bytes_def dumps_def split: sum.splits if_splits)
  have "loads pf (dump fr True (sort_json (JDict d))) = Some (sort_json (JDict d))"
    using assms(2) by (intro loads_dump) (simp only: printable_sort_json)
  moreover have "validate_json_tree (wal_limits w) (sort_json (JDict d)) = Inr ()"
    using v by (simp only: validate_wal_sort_json)
  ultimately show "decode_payload pf w pb = Some (sort_json (JDict d))"
    unfolding pb(1) decode_payload_def utf8_decode_encode by simp
  show "int (length pb) \<le> max_record_bytes w" by (rule pb(2))
qed

text \<open>A run of appends, with the offsets it returns.\<close>

fun append_all ::
  "(real \<Rightarrow> string) \<Rightarrow> wal \<Rightarrow> (nat \<times> json) list \<Rightarrow> (nat list \<times> wal) result" where
  "append_all fr w [] = Inr ([], w)"
| "append_all fr w ((ty, body) # items) =
     rbind (append_record fr w ty body) (\<lambda>(n, w').
     rbind (append_all fr w' items) (\<lambda>(ns, w''). Inr (n # ns, w'')))"

lemma length_append_all: "append_all fr w items = Inr (ns, w') \<Longrightarrow> length ns = length items"
  by (induction fr w items arbitrary: ns rule: append_all.induct) (auto simp: rbind_Inr_iff)

lemma append_record_frame:
  assumes "append_record fr w ty (JDict d) = Inr (n, w')" "contents w = Some data"
    and "printable fr pf (JDict d)"
  shows "\<exists>pb. frame_ok pf w (ty, pb, sort_json (JDict d)) \<and> n = length data \<and>
    w' = w\<lparr>contents := Some (data @ frame_bytes ty pb)\<rparr>"
proof -
  obtain pb where "ty \<in> record_types" "payload_bytes fr w (JDict d) = Inr pb" "length pb < 2 ^ 32"
    "n = length data" "w' = w\<lparr>contents := Some (data @ frame_bytes ty pb)\<rparr>"
    using assms(1,2) by (auto simp: append_record_def rbind_Inr_iff frame_Inr split: if_splits)
  with decode_payload_bytes [OF this(2) assms(3)] show ?thesis
    by (intro exI [of _ pb]) (simp add: frame_ok_def)
qed

lemma wal_limits_contents [simp]:
  "wal_limits (w\<lparr>contents := x\<rparr>) = wal_limits w" "wal_limits (w\<lparr>file_open := b\<rparr>) = wal_limits w"
  by (simp_all add: wal_limits_def)

lemma frame_ok_contents [simp]: "frame_ok pf (w\<lparr>contents := x\<rparr>) f = frame_ok pf w f"
  unfolding frame_ok_def decode_payload_def wal_limits_contents by simp

lemma frame_ok_file_open [simp]: "frame_ok pf (w\<lparr>file_open := x\<rparr>) f = frame_ok pf w f"
  unfolding frame_ok_def decode_payload_def wal_limits_contents by simp

definition is_object :: "json \<Rightarrow> bool" where
  "is_object j = (case j of JDict d \<Rightarrow> True | _ \<Rightarrow> False)"

lemma append_all_frames:
  assumes "append_all fr w items = Inr (ns, w')" "contents w = Some data"
    and "\<forall>(ty, body) \<in> set items. is_object body \<and> printable fr pf body"
  shows "\<exists>fs. (\<forall>f \<in> set fs. frame_ok pf w f) \<and> w' = w\<lparr>contents := Some (data @ log_bytes fs)\<rparr> \<and>
    map (\<lambda>r. (offset r, record_type r, wal_payload r)) (log_records (length data) fs) =
      zip ns (map (\<lambda>(ty, body). (ty, sort_json body)) items)"
  using assms
proof (induction fr w items arbitrary: ns data rule: append_all.induct)
  case (1 fr w)
  then show ?case by (intro exI [of _ "[]"]) (simp add: log_bytes_def)
next
  case (2 fr w ty body items)
  obtain d where d: "body = JDict d" using 2(4) by (auto simp: is_object_def split: json.splits)
  obtain n w1 ns1 where s: "append_record fr w ty body = Inr (n, w1)" "append_all fr w1 items = Inr (ns1, w')"
    "ns = n # ns1"
    using 2(2) by (auto simp: rbind_Inr_iff)
  obtain pb where pb: "frame_ok pf w (ty, pb, sort_json body)" "n = length data"
    "w1 = w\<lparr>contents := Some (data @ frame_bytes ty pb)\<rparr>"
    using append_record_frame [of fr w ty d n w1 data pf] s(1) 2(3,4) d by auto
  have "contents w1 = Some (data @ frame_bytes ty pb)" using pb(3) by simp
  from 2(1) [OF s(2) this] 2(4) obtain fs where fs: "\<forall>f \<in> set fs. frame_ok pf w1 f"
    "w' = w1\<lparr>contents := Some ((data @ frame_bytes ty pb) @ log_bytes fs)\<rparr>"
    "map (\<lambda>r. (offset r, record_type r, wal_payload r)) (log_records (length (data @ frame_bytes ty pb)) fs) =
      zip ns1 (map (\<lambda>(ty, body). (ty, sort_json body)) items)" by auto
  show ?case
    using pb fs s(3)
    by (intro exI [of _ "(ty, pb, sort_json body) # fs"])
       (simp add: log_bytes_def length_frame_bytes add.assoc)
qed

subsection \<open>Crash recovery\<close>

lemma length_log_records [simp]: "length (log_records pos fs) = length fs"
  by (induction pos fs rule: log_records.induct) simp_all

lemma log_bytes_Cons: "log_bytes ((ty, pb, j) # fs) = frame_bytes ty pb @ log_bytes fs"
  by (simp add: log_bytes_def)

lemma offset_log_records:
  "i < length fs \<Longrightarrow> offset (log_records pos fs ! i) = pos + length (log_bytes (take i fs))"
proof (induction pos fs arbitrary: i rule: log_records.induct)
  case (2 pos ty pb j fs)
  then show ?case
    by (cases i) (simp_all add: log_bytes_Cons length_frame_bytes, simp add: log_bytes_def)
qed simp

lemma whole_frames_iff:
  "i < length fs \<Longrightarrow> i < whole_frames k fs \<longleftrightarrow> length (log_bytes (take (Suc i) fs)) \<le> k"
proof (induction k fs arbitrary: i rule: whole_frames.induct)
  case (2 k ty pb j fs)
  show ?case
  proof (cases i)
    case 0
    then show ?thesis by (simp add: Let_def log_bytes_Cons length_frame_bytes) (simp add: log_bytes_def)
  next
    case (Suc i')
    then show ?thesis
      using 2 by (auto simp: Let_def log_bytes_Cons length_frame_bytes)
  qed
qed simp

lemma new_log: "WriteAheadLog None s mb = Inr w \<Longrightarrow> contents w = Some WAL_MAGIC"
  by (auto simp: WriteAheadLog_def open_log_def rbind_Inr_iff Let_def split: if_splits)

lemma replay_magic:
  "contents w = Some (WAL_MAGIC @ data) \<Longrightarrow>
     replay pf strict w = replay_loop pf strict w (WAL_MAGIC @ data) WAL_HEADER_LEN"
  by (simp add: replay_def Let_def WAL_HEADER_LEN_def) (simp add: WAL_MAGIC_def)

definition record_view :: "wal_record \<Rightarrow> nat \<times> nat \<times> json" where
  "record_view r = (offset r, record_type r, wal_payload r)"

lemma replay_cut:
  assumes "\<forall>f \<in> set fs. frame_ok pf w f"
  shows "replay pf False (w\<lparr>contents := Some (take k (WAL_MAGIC @ log_bytes fs))\<rparr>) =
    (take (whole_frames (k - WAL_HEADER_LEN) fs) (log_records WAL_HEADER_LEN fs), None)"
proof (cases "k < WAL_HEADER_LEN")
  case True
  have "whole_frames 0 fs = 0" by (cases "(0::nat, fs)" rule: whole_frames.cases) simp_all
  moreover have "length (take WAL_HEADER_LEN (take k (WAL_MAGIC @ log_bytes fs))) < WAL_HEADER_LEN"
    using True by (simp only: length_take)
  ultimately show ?thesis
    using True unfolding replay_def Let_def by simp
next
  case False
  then have "take k (WAL_MAGIC @ log_bytes fs) = WAL_MAGIC @ take (k - WAL_HEADER_LEN) (log_bytes fs)"
    by (simp add: WAL_HEADER_LEN_def)
  then show ?thesis
    using replay_loop_cut [of fs pf "w\<lparr>contents := Some (take k (WAL_MAGIC @ log_bytes fs))\<rparr>" WAL_MAGIC] assms
    by (simp add: replay_magic WAL_HEADER_LEN_def [symmetric])
qed

lemma replay_appended:
  assumes "WriteAheadLog None s mb = Inr w0" "append_all fr w0 items = Inr (ns, w1)"
    and "\<forall>(ty, body) \<in> set items. is_object body \<and> printable fr pf body"
  shows "\<exists>recs. replay pf strict w1 = (recs, None) \<and>
    map record_view recs = zip ns (map (\<lambda>(ty, body). (ty, sort_json body)) items)"
proof -
  obtain fs where fs: "\<forall>f \<in> set fs. frame_ok pf w0 f" "w1 = w0\<lparr>contents := Some (WAL_MAGIC @ log_bytes fs)\<rparr>"
    "map record_view (log_records WAL_HEADER_LEN fs) = zip ns (map (\<lambda>(ty, body). (ty, sort_json body)) items)"
    using append_all_frames [OF assms(2) new_log [OF assms(1)] assms(3)]
    unfolding record_view_def WAL_HEADER_LEN_def by blast
  have "replay pf strict w1 = (log_records WAL_HEADER_LEN fs, None)"
    using replay_loop_full [of fs pf w1 strict WAL_MAGIC] fs(1,2)
    by (simp add: replay_magic WAL_HEADER_LEN_def [symmetric])
  with fs(3) show ?thesis by blast
qed

text \<open>
  C17: a log is read back. After any successful sequence of appends to a new log, a replay,
  strict or not, yields one record per append, in order, with the offset that append
  returned, its type and its payload (up to key order), and ends without an error.
\<close>

theorem wal_replay_roundtrip:
  assumes "WriteAheadLog None s mb = Inr w0" "append_all fr w0 items = Inr (ns, w1)"
    and "\<forall>(ty, body) \<in> set items. is_object body \<and> printable fr pf body"
  shows "\<exists>recs. replay pf strict w1 = (recs, None) \<and>
    map record_view recs = zip ns (map (\<lambda>(ty, body). (ty, sort_json body)) items)"
  using assms by (rule replay_appended)

text \<open>
  C18: torn writes are tolerated. If the file of such a log is cut at any byte, a replay that is
  not strict ends without an error and yields exactly the records whose frames lie before the
  cut.
\<close>

theorem wal_torn_tail:
  assumes "WriteAheadLog None s mb = Inr w0" "append_all fr w0 items = Inr (ns, w1)"
    and "\<forall>(ty, body) \<in> set items. is_object body \<and> printable fr pf body"
    and "contents w1 = Some data"
  shows "\<exists>recs m. replay pf True w1 = (recs, None) \<and>
    replay pf False (w1\<lparr>contents := Some (take k data)\<rparr>) = (take m recs, None) \<and>
    (\<forall>i < length items. i < m \<longleftrightarrow> (ns @ [length data]) ! Suc i \<le> k)"
proof -
  obtain fs where fs: "\<forall>f \<in> set fs. frame_ok pf w0 f" "w1 = w0\<lparr>contents := Some (WAL_MAGIC @ log_bytes fs)\<rparr>"
    "map record_view (log_records WAL_HEADER_LEN fs) = zip ns (map (\<lambda>(ty, body). (ty, sort_json body)) items)"
    using append_all_frames [OF assms(2) new_log [OF assms(1)] assms(3)]
    unfolding record_view_def WAL_HEADER_LEN_def by blast
  have l: "length fs = length items" "length ns = length items"
    using arg_cong [OF fs(3), of length] length_append_all [OF assms(2)] by simp_all
  have data: "data = WAL_MAGIC @ log_bytes fs" using assms(4) fs(2) by simp
  let ?m = "whole_frames (k - WAL_HEADER_LEN) fs"
  have e: "(ns @ [length data]) ! Suc i = WAL_HEADER_LEN + length (log_bytes (take (Suc i) fs))"
    if "i < length items" for i
  proof (cases "Suc i < length items")
    case True
    have "ns ! Suc i = fst (zip ns (map (\<lambda>(ty, body). (ty, sort_json body)) items) ! Suc i)"
      using True l by simp
    also have "\<dots> = offset (log_records WAL_HEADER_LEN fs ! Suc i)"
      unfolding fs(3) [symmetric] using True l by (simp add: record_view_def)
    finally show ?thesis using True l by (simp add: nth_append offset_log_records)
  next
    case False
    then have "Suc i = length items" using that by simp
    then show ?thesis using l data by (simp add: nth_append WAL_HEADER_LEN_def)
  qed
  have "i < ?m \<longleftrightarrow> (ns @ [length data]) ! Suc i \<le> k" if i: "i < length items" for i
  proof -
    obtain ty pb j fs' where "fs = (ty, pb, j) # fs'" using i l by (cases fs) auto
    then have "0 < length (log_bytes (take (Suc i) fs))"
      by (simp add: log_bytes_Cons length_frame_bytes)
    moreover have "i < ?m \<longleftrightarrow> length (log_bytes (take (Suc i) fs)) \<le> k - WAL_HEADER_LEN"
      using i l by (intro whole_frames_iff) simp
    ultimately show ?thesis unfolding e [OF i] by linarith
  qed
  moreover have "replay pf True w1 = (log_records WAL_HEADER_LEN fs, None)"
    using replay_loop_full [of fs pf w1 True WAL_MAGIC] fs(1,2)
    by (simp add: replay_magic WAL_HEADER_LEN_def [symmetric])
  moreover have "replay pf False (w1\<lparr>contents := Some (take k data)\<rparr>) =
      (take ?m (log_records WAL_HEADER_LEN fs), None)"
    using replay_cut [OF fs(1), of k] unfolding data fs(2) by simp
  ultimately show ?thesis by blast
qed

text \<open>A one-record log, for concrete instances.\<close>

definition sample_wal :: wal where
  "sample_wal = \<lparr>sync_on_write = False, max_record_bytes = 100, contents = Some WAL_MAGIC, file_open = True\<rparr>"

lemma sample_wal_new: "WriteAheadLog None False 100 = Inr sample_wal"
  by (simp add: WriteAheadLog_def open_log_def verify_header_def sample_wal_def WAL_HEADER_LEN_def Let_def)
     (simp add: WAL_MAGIC_def)

lemma sample_payload: "payload_bytes fr sample_wal (JDict []) = Inr (utf8_encode ''{}'')"
  by (simp add: payload_bytes_def validate_json_tree_def wal_limits_def push_children_def dumps_def
      sample_wal_def utf8_encode_def utf8_char_def)

lemma sample_append:
  "append_all fr sample_wal [(RECORD_CLOCK, JDict [])] =
     Inr ([8], sample_wal\<lparr>contents := Some (WAL_MAGIC @ frame_bytes RECORD_CLOCK (utf8_encode ''{}''))\<rparr>)"
proof -
  have "frame RECORD_CLOCK (utf8_encode ''{}'') = Inr (frame_bytes RECORD_CLOCK (utf8_encode ''{}''))"
    by (simp add: frame_Inr utf8_encode_def utf8_char_def)
  then show ?thesis
    by (simp add: append_record_def sample_payload record_types_def)
       (simp add: sample_wal_def WAL_MAGIC_def)
qed

theorem wal_replay_roundtrip_witness:
  "\<exists>w1 recs. append_all sample_repr sample_wal [(RECORD_CLOCK, JDict [])] = Inr ([8], w1) \<and>
     replay sample_parse True w1 = (recs, None) \<and> map record_view recs = [(8, RECORD_CLOCK, JDict [])]"
proof -
  have "\<forall>(ty, body) \<in> set [(RECORD_CLOCK, JDict [])].
      is_object body \<and> printable sample_repr sample_parse body"
    by (simp add: is_object_def printable_def)
  from wal_replay_roundtrip [OF sample_wal_new sample_append this, of True] show ?thesis
    using sample_append [of sample_repr] by auto
qed

theorem wal_torn_tail_witness:
  "\<exists>w1 data m recs. append_all sample_repr sample_wal [(RECORD_CLOCK, JDict [])] = Inr ([8], w1) \<and>
     contents w1 = Some data \<and> replay sample_parse True w1 = (recs, None) \<and>
     replay sample_parse False (w1\<lparr>contents := Some (take 12 data)\<rparr>) = (take m recs, None)"
proof -
  have "\<forall>(ty, body) \<in> set [(RECORD_CLOCK, JDict [])].
      is_object body \<and> printable sample_repr sample_parse body"
    by (simp add: is_object_def printable_def)
  from wal_torn_tail [OF sample_wal_new sample_append this, of _ 12] show ?thesis
    using sample_append [of sample_repr] by auto
qed

subsection \<open>Appending after a torn write\<close>

lemma read_frame_bad_type:
  assumes "FRAME_HEADER_LEN \<le> length hdr" "unat (hdr ! 8) \<notin> record_types"
  shows "read_frame pf w (xs @ hdr) (length xs) = Corrupt"
proof -
  have "take FRAME_HEADER_LEN hdr ! 8 = hdr ! 8" by (simp add: FRAME_HEADER_LEN_def)
  moreover have "take FRAME_HEADER_LEN hdr \<noteq> []" using assms(1) by auto
  ultimately show ?thesis
    using assms by (simp add: read_frame_def Let_def unpack_header_def read_body_def)
qed

lemma replay_loop_corrupt:
  "read_frame pf w data pos = Corrupt \<Longrightarrow> replay_loop pf strict w data pos = ([], Some WalCorruptError)"
  by (simp add: replay_loop.simps [of pf strict w data pos])

text \<open>
  Recovery does not repair the tail. If a crash leaves the first eight bytes of a frame
  header at the end of the file, the log opens and accepts appends, but the next replay, even
  one that is not strict, raises \<^verbatim>\<open>WalCorruptError\<close> where the torn frame starts and never
  reaches the new record.
\<close>

theorem append_after_torn_header:
  assumes "\<forall>f \<in> set fs. frame_ok pf w f" "max_record_bytes w < 2 ^ 24"
    and "contents w = Some (WAL_MAGIC @ log_bytes fs @ take 8 (frame_bytes ty pb))"
    and "open_log w = Inr w1" "append_record fr w1 ty' body = Inr (n, w2)"
  shows "replay pf False w2 = (log_records WAL_HEADER_LEN fs, Some WalCorruptError)"
proof -
  let ?t = "take 8 (frame_bytes ty pb)"
  have w1: "w1 = w\<lparr>file_open := True\<rparr>"
    using assms(3,4) by (auto simp: open_log_def Let_def rbind_Inr_iff WAL_MAGIC_def)
  obtain pb' where pb': "payload_bytes fr w1 body = Inr pb'"
    "w2 = w1\<lparr>contents := Some (WAL_MAGIC @ log_bytes fs @ ?t @ frame_bytes ty' pb')\<rparr>"
    using assms(3,5) by (auto simp: append_record_def w1 rbind_Inr_iff frame_Inr split: if_splits)
  have "int (length pb') < 2 ^ 24"
    using pb'(1) assms(2) by (auto simp: payload_bytes_def w1 split: sum.splits option.splits if_splits)
  then have small: "length pb' div 256 ^ 3 = 0" by simp
  have l: "length ?t = 8" by (simp add: length_frame_bytes FRAME_HEADER_LEN_def)
  have "(?t @ frame_bytes ty' pb') ! 8 = frame_bytes ty' pb' ! 0"
    using l by (simp only: nth_append) simp
  also have "\<dots> = 0" using small by (simp add: frame_bytes_def be32_def)
  finally have "unat ((?t @ frame_bytes ty' pb') ! 8) \<notin> record_types"
    by (simp add: record_types_def RECORD_TASK_def RECORD_CLOCK_def RECORD_CHECKPOINT_def)
  moreover have "FRAME_HEADER_LEN \<le> length (?t @ frame_bytes ty' pb')"
    by (simp add: length_frame_bytes)
  ultimately have "read_frame pf w2 ((WAL_MAGIC @ log_bytes fs) @ ?t @ frame_bytes ty' pb')
      (length (WAL_MAGIC @ log_bytes fs)) = Corrupt"
    by (intro read_frame_bad_type)
  from replay_loop_corrupt [OF this]
  have "replay_loop pf False w2 (WAL_MAGIC @ log_bytes fs @ ?t @ frame_bytes ty' pb')
      (length WAL_MAGIC + length (log_bytes fs)) = ([], Some WalCorruptError)" by simp
  moreover have "\<forall>f \<in> set fs. frame_ok pf w2 f"
    using assms(1) by (simp add: pb'(2) w1 frame_ok_file_open)
  ultimately have "replay_loop pf False w2 (WAL_MAGIC @ log_bytes fs @ ?t @ frame_bytes ty' pb') (length WAL_MAGIC)
      = (log_records (length WAL_MAGIC) fs @ [], Some WalCorruptError)"
    by (intro replay_frames)
  then show ?thesis by (simp add: pb'(2) replay_magic WAL_HEADER_LEN_def)
qed

definition sample_torn :: wal where
  "sample_torn = sample_wal\<lparr>contents :=
     Some (WAL_MAGIC @ log_bytes [] @ take 8 (frame_bytes RECORD_CLOCK (utf8_encode ''{}'')))\<rparr>"

lemma sample_torn_open: "open_log sample_torn = Inr sample_torn"
  by (simp add: open_log_def verify_header_def sample_torn_def sample_wal_def WAL_HEADER_LEN_def Let_def)
     (simp add: WAL_MAGIC_def)

lemma payload_bytes_contents: "payload_bytes fr (w\<lparr>contents := x\<rparr>) body = payload_bytes fr w body"
  by (auto simp: payload_bytes_def split: sum.split option.split)

lemma sample_torn_append: "\<exists>n w. append_record fr sample_torn RECORD_CLOCK (JDict []) = Inr (n, w)"
proof -
  have "payload_bytes fr sample_torn (JDict []) = Inr (utf8_encode ''{}'')"
    using sample_payload [of fr] by (simp add: sample_torn_def payload_bytes_contents)
  moreover have "frame RECORD_CLOCK (utf8_encode ''{}'') = Inr (frame_bytes RECORD_CLOCK (utf8_encode ''{}''))"
    by (simp add: frame_Inr utf8_encode_def utf8_char_def)
  ultimately show ?thesis
    by (simp add: append_record_def record_types_def) (simp add: sample_torn_def sample_wal_def)
qed

theorem append_after_torn_header_witness:
  "\<exists>n w. append_record sample_repr sample_torn RECORD_CLOCK (JDict []) = Inr (n, w) \<and>
     replay sample_parse False w = ([], Some WalCorruptError)"
proof -
  obtain n w where a: "append_record sample_repr sample_torn RECORD_CLOCK (JDict []) = Inr (n, w)"
    using sample_torn_append by blast
  have "\<forall>f \<in> set []. frame_ok sample_parse sample_torn f" "max_record_bytes sample_torn < 2 ^ 24"
    by (simp_all add: sample_torn_def sample_wal_def)
  from append_after_torn_header [OF this _ sample_torn_open a, of RECORD_CLOCK "utf8_encode ''{}''"]
  have "replay sample_parse False w = ([], Some WalCorruptError)" by (simp add: sample_torn_def)
  with a show ?thesis by blast
qed

subsection \<open>Checkpoints\<close>

text \<open>
  A successful checkpoint leaves an open log of one record, which a replay reads back as
  the given task table and clock, up to key order.
\<close>

theorem checkpoint_replay:
  assumes "checkpoint fr w tasks c = Inr w'" "printable fr pf (checkpoint_json tasks c)"
  shows "replay pf strict w' =
    ([\<lparr>offset = WAL_HEADER_LEN, record_type = RECORD_CHECKPOINT,
       wal_payload = sort_json (checkpoint_json tasks c)\<rparr>], None) \<and> file_open w'"
proof -
  obtain d where d: "checkpoint_json tasks c = JDict d" by (simp add: checkpoint_json_def)
  obtain pb fb where pb: "payload_bytes fr w (checkpoint_json tasks c) = Inr pb"
    "frame RECORD_CHECKPOINT pb = Inr fb"
    "open_log ((close_log w)\<lparr>contents := Some (WAL_MAGIC @ fb)\<rparr>) = Inr w'"
    using assms(1) by (auto simp: checkpoint_def rbind_Inr_iff)
  have w': "w' = w\<lparr>contents := Some (WAL_MAGIC @ fb), file_open := True\<rparr>"
    using pb(3) by (auto simp: open_log_def close_log_def Let_def rbind_Inr_iff WAL_MAGIC_def)
  have f: "frame_ok pf w (RECORD_CHECKPOINT, pb, sort_json (checkpoint_json tasks c))"
    "fb = log_bytes [(RECORD_CHECKPOINT, pb, sort_json (checkpoint_json tasks c))]"
    using decode_payload_bytes [of fr w d pb pf] pb(1,2) assms(2) d
    by (simp_all add: frame_ok_def frame_Inr record_types_def log_bytes_def)
  have "replay_loop pf strict w' (WAL_MAGIC @ fb) (length WAL_MAGIC) =
      (log_records (length WAL_MAGIC) [(RECORD_CHECKPOINT, pb, sort_json (checkpoint_json tasks c))], None)"
    unfolding f(2) using f(1) by (intro replay_loop_full) (simp add: w')
  then show ?thesis
    using replay_magic [of w' fb pf strict] by (simp add: w' WAL_HEADER_LEN_def)
qed

lemma sample_checkpoint: "\<exists>w'. checkpoint fr sample_wal [] (VectorClock []) = Inr w'"
proof -
  have j: "checkpoint_json [] (VectorClock []) = JDict [(''tasks'', JDict []), (''vector_clock'', JDict [])]"
    by (simp add: checkpoint_json_def clock_json_def vc_to_dict_def VectorClock_def)
  obtain pb where "payload_bytes fr sample_wal (checkpoint_json [] (VectorClock [])) = Inr pb" "length pb < 2 ^ 32"
    unfolding j
    by (simp add: payload_bytes_def validate_json_tree_def wal_limits_def push_children_def dumps_def
      sample_wal_def utf8_encode_def utf8_char_def sort_key_simps quote_def escape_char_def)
  then show ?thesis
    by (simp add: checkpoint_def frame_def pack_header_def open_log_def close_log_def verify_header_def
        WAL_HEADER_LEN_def Let_def) (simp add: WAL_MAGIC_def)
qed

theorem checkpoint_replay_witness:
  "\<exists>w' r. checkpoint sample_repr sample_wal [] (VectorClock []) = Inr w' \<and>
     replay sample_parse True w' = ([r], None)"
proof -
  obtain w' where w': "checkpoint sample_repr sample_wal [] (VectorClock []) = Inr w'"
    using sample_checkpoint by blast
  have "printable sample_repr sample_parse (checkpoint_json [] (VectorClock []))"
    by (simp add: printable_def checkpoint_json_def clock_json_def vc_to_dict_def VectorClock_def)
  from checkpoint_replay [OF w' this] w' show ?thesis by blast
qed

end
