(* ===== verification/Metrics.thy ===== *)
theory Metrics
  imports Prelude "HOL-Library.Log_Nat"
begin

section \<open>Histogram and counters (metrics.py)\<close>

text \<open>
  The log-linear histogram and the metrics collector. Recorded values are floats; the bucket
  arithmetic is on integers as in the code. \<^verbatim>\<open>math.log2\<close> is the real logarithm.
\<close>

unbundle bit_operations_syntax

record histogram =
  sub_bucket_bits :: nat
  sub_bucket_count :: nat
  sub_bucket_mask :: nat
  max_value :: real
  linear_sub_range :: nat
  total_buckets :: nat
  counts :: "nat list"
  total_count :: nat
  hsum :: real
  hmin :: pyfloat
  hmax :: real

definition octave_count :: "nat \<Rightarrow> real \<Rightarrow> nat" where
  "octave_count bits mv =
     (let max_octave = (if mv > 2 ^ bits then \<lceil>log 2 mv\<rceil> else int bits)
      in nat (max 1 (max_octave - int bits + 1)))"

definition LogLinearHistogram :: "int \<Rightarrow> real \<Rightarrow> histogram result" where
  "LogLinearHistogram bits mv =
     (if bits < 1 \<or> bits > 16 then Inl ValueError
      else
        (let b = nat bits; n = 2 ^ b; total = n + octave_count b mv * n
         in Inr \<lparr>sub_bucket_bits = b, sub_bucket_count = n, sub_bucket_mask = n - 1, max_value = mv,
                 linear_sub_range = n, total_buckets = total, counts = replicate total 0,
                 total_count = 0, hsum = 0, hmin = PosInf, hmax = 0\<rparr>))"

definition bit_length :: "nat \<Rightarrow> nat" where
  "bit_length n = floorlog 2 n"

definition value_to_index :: "histogram \<Rightarrow> real \<Rightarrow> nat" where
  "value_to_index h v =
     (if v < real (linear_sub_range h) then nat \<lfloor>v\<rfloor>
      else
        (let val_int = nat \<lfloor>v\<rfloor>;
             octave = bit_length val_int - 1;
             octave_index = octave - sub_bucket_bits h;
             sub_index = drop_bit (octave - sub_bucket_bits h) val_int AND sub_bucket_mask h;
             idx = linear_sub_range h + octave_index * sub_bucket_count h + sub_index
         in min idx (total_buckets h - 1)))"

definition index_to_approx_value :: "histogram \<Rightarrow> nat \<Rightarrow> real" where
  "index_to_approx_value h index =
     (if index < linear_sub_range h then real index + 1 / 2
      else
        (let off = index - linear_sub_range h;
             octave_index = off div sub_bucket_count h;
             sub_index = off mod sub_bucket_count h;
             octave = octave_index + sub_bucket_bits h;
             base = (push_bit octave 1 :: nat);
             bucket_width = (push_bit (octave - sub_bucket_bits h) 1 :: nat)
         in real (base + sub_index * bucket_width) + real bucket_width / 2))"

fun lt_float :: "real \<Rightarrow> pyfloat \<Rightarrow> bool" where
  "lt_float x (Fin y) = (x < y)"
| "lt_float x PosInf = True"
| "lt_float x _ = False"

definition hist_record :: "histogram \<Rightarrow> pyfloat \<Rightarrow> histogram result" where
  "hist_record h v =
     (case v of
        Fin x \<Rightarrow>
          if x < 0 then Inl ValueError
          else
            (let idx = value_to_index h x
             in if idx < length (counts h)
                then Inr (h\<lparr>counts := (counts h)[idx := counts h ! idx + 1],
                            total_count := total_count h + 1, hsum := hsum h + x,
                            hmin := (if lt_float x (hmin h) then Fin x else hmin h),
                            hmax := (if x > hmax h then x else hmax h)\<rparr>)
                else Inl IndexError)
      | PosInf \<Rightarrow> Inl OverflowError
      | NegInf \<Rightarrow> Inl ValueError
      | NaN \<Rightarrow> Inl ValueError)"

definition hist_count :: "histogram \<Rightarrow> nat" where
  "hist_count h = total_count h"

definition hist_min :: "histogram \<Rightarrow> pyfloat" where
  "hist_min h = (if total_count h > 0 then hmin h else Fin 0)"

definition hist_max :: "histogram \<Rightarrow> real" where
  "hist_max h = (if total_count h > 0 then hmax h else 0)"

definition hist_mean :: "histogram \<Rightarrow> real" where
  "hist_mean h = (if total_count h > 0 then hsum h / real (total_count h) else 0)"

text \<open>\<^verbatim>\<open>max(self._min, min(self._max, approx))\<close>\<close>

fun clamp :: "pyfloat \<Rightarrow> real \<Rightarrow> real \<Rightarrow> pyfloat" where
  "clamp (Fin lo) hi a = Fin (max lo (min hi a))"
| "clamp lo hi a = lo"

fun quantile_loop :: "histogram \<Rightarrow> nat list \<Rightarrow> nat \<Rightarrow> nat \<Rightarrow> nat \<Rightarrow> pyfloat" where
  "quantile_loop h [] idx cumulative target = Fin (hmax h)"
| "quantile_loop h (c # cs) idx cumulative target =
     (if cumulative + c \<ge> target then clamp (hmin h) (hmax h) (index_to_approx_value h idx)
      else quantile_loop h cs (idx + 1) (cumulative + c) target)"

definition quantile :: "histogram \<Rightarrow> real \<Rightarrow> pyfloat" where
  "quantile h q =
     (if total_count h = 0 then Fin 0
      else if q \<le> 0 then hmin h
      else if q \<ge> 1 then Fin (hmax h)
      else quantile_loop h (counts h) 0 0 (nat \<lceil>q * real (total_count h)\<rceil>))"

subsection \<open>Buckets\<close>

text \<open>The shape every histogram of the constructor has.\<close>

definition hist_shape :: "histogram \<Rightarrow> bool" where
  "hist_shape h \<longleftrightarrow> sub_bucket_count h = 2 ^ sub_bucket_bits h \<and>
     sub_bucket_mask h = 2 ^ sub_bucket_bits h - 1 \<and> linear_sub_range h = 2 ^ sub_bucket_bits h \<and>
     total_buckets h = (octave_count (sub_bucket_bits h) (max_value h) + 1) * 2 ^ sub_bucket_bits h \<and>
     length (counts h) = total_buckets h"

text \<open>The bucket of an integer, before clamping, in closed form.\<close>

definition bucket_shift :: "nat \<Rightarrow> nat \<Rightarrow> nat" where
  "bucket_shift b v = floorlog 2 v - 1 - b"

definition bucket :: "nat \<Rightarrow> nat \<Rightarrow> nat" where
  "bucket b v = bucket_shift b v * 2 ^ b + v div 2 ^ bucket_shift b v"

lemma bucket_small: "v < 2 ^ b \<Longrightarrow> bucket b v = v"
proof -
  assume "v < 2 ^ b"
  then have "floorlog 2 v \<le> b" by (intro floorlog_leI) simp_all
  then show ?thesis by (simp add: bucket_def bucket_shift_def)
qed

lemma bucket_large:
  assumes "2 ^ b \<le> v"
  shows "floorlog 2 v = bucket_shift b v + b + 1" "2 ^ b \<le> v div 2 ^ bucket_shift b v"
    "v div 2 ^ bucket_shift b v < 2 ^ (b + 1)"
proof -
  have "0 < v" using assms by (metis gr0I not_less zero_less_numeral zero_less_power)
  then have bd: "2 ^ (floorlog 2 v - 1) \<le> v" "v < 2 ^ floorlog 2 v"
    using floorlog_bounds [of v 2] by simp_all
  have "(2::nat) ^ b < 2 ^ floorlog 2 v" using assms bd(2) by (rule le_less_trans)
  then have "b < floorlog 2 v" by (simp only: power_strict_increasing_iff)
  then show e: "floorlog 2 v = bucket_shift b v + b + 1" by (simp add: bucket_shift_def)
  have "2 ^ bucket_shift b v * 2 ^ b \<le> v" "v < 2 ^ bucket_shift b v * 2 ^ (b + 1)"
    using bd unfolding e by (simp_all add: power_add mult_ac)
  then show "2 ^ b \<le> v div 2 ^ bucket_shift b v" "v div 2 ^ bucket_shift b v < 2 ^ (b + 1)"
    by (simp_all add: less_eq_div_iff_mult_less_eq div_less_iff_less_mult mult.commute)
qed

lemma bucket_mono: "u \<le> v \<Longrightarrow> bucket b u \<le> bucket b v"
proof -
  assume uv: "u \<le> v"
  show ?thesis
  proof (cases "bucket_shift b u = bucket_shift b v")
    case True
    then show ?thesis using uv by (simp add: bucket_def div_le_mono)
  next
    case False
    have "floorlog 2 u \<le> floorlog 2 v" using uv by (rule floorlog_mono)
    then have lt: "bucket_shift b u < bucket_shift b v" using False by (auto simp: bucket_shift_def)
    then have v: "2 ^ b \<le> v"
      by (metis bucket_small bucket_def bucket_shift_def not_le diff_is_0_eq floorlog_leI less_zeroE
          one_less_numeral_iff semiring_norm(76) zero_le diff_le_self le_trans)
    have "u div 2 ^ bucket_shift b u < 2 ^ (b + 1)"
    proof (cases "2 ^ b \<le> u")
      case True
      then show ?thesis by (rule bucket_large)
    next
      case False
      then have "u div 2 ^ bucket_shift b u < 2 ^ b"
        by (intro le_less_trans [OF div_le_dividend]) simp
      then show ?thesis by simp
    qed
    then have "bucket b u \<le> bucket_shift b u * 2 ^ b + 2 ^ (b + 1)" by (simp add: bucket_def)
    also have "\<dots> = (bucket_shift b u + 1) * 2 ^ b + 2 ^ b" by (simp add: algebra_simps)
    also have "\<dots> \<le> bucket_shift b v * 2 ^ b + 2 ^ b" using lt by (intro add_mono mult_le_mono1) simp_all
    also have "\<dots> \<le> bucket b v" using bucket_large(2) [OF v] by (simp add: bucket_def)
    finally show ?thesis .
  qed
qed

text \<open>The code computes the closed form, clamped to the last bucket.\<close>

lemma drop_bit_and_mask:
  "drop_bit k v AND (2 ^ b - Suc 0) = (v div 2 ^ k) mod 2 ^ b" for v :: nat
proof -
  have "(2::nat) ^ b - Suc 0 = mask b" by (simp add: mask_eq_exp_minus_1)
  then show ?thesis by (simp add: drop_bit_eq_div take_bit_eq_mod flip: take_bit_eq_mask)
qed

lemma value_to_index_min:
  assumes "hist_shape h" "0 \<le> x"
  shows "value_to_index h x = min (bucket (sub_bucket_bits h) (nat \<lfloor>x\<rfloor>)) (total_buckets h - 1)"
proof -
  let ?b = "sub_bucket_bits h" and ?v = "nat \<lfloor>x\<rfloor>"
  show ?thesis
  proof (cases "x < 2 ^ ?b")
    case True
    then have v: "?v < 2 ^ ?b" using assms(2) by (simp add: nat_less_iff floor_less_iff)
    moreover have "2 ^ ?b \<le> total_buckets h" using assms(1) by (simp add: hist_shape_def)
    ultimately have "min (bucket ?b ?v) (total_buckets h - 1) = ?v"
      unfolding bucket_small [OF v] by (intro min_absorb1) linarith
    then show ?thesis using True assms(1) by (simp add: value_to_index_def hist_shape_def)
  next
    case False
    then have v: "2 ^ ?b \<le> ?v" by (simp add: le_nat_iff le_floor_iff)
    note L = bucket_large [OF v]
    have "(?v div 2 ^ bucket_shift ?b ?v) mod 2 ^ ?b = ?v div 2 ^ bucket_shift ?b ?v - 2 ^ ?b"
      using L(2,3) by (simp add: le_mod_geq)
    then show ?thesis
      using False assms(1) L
      by (simp add: value_to_index_def hist_shape_def Let_def bit_length_def drop_bit_and_mask bucket_def
          bucket_shift_def [symmetric])
  qed
qed

lemma value_to_index_bucket:
  assumes "hist_shape h" "0 \<le> x" "bucket (sub_bucket_bits h) (nat \<lfloor>x\<rfloor>) < total_buckets h"
  shows "value_to_index h x = bucket (sub_bucket_bits h) (nat \<lfloor>x\<rfloor>)"
  using assms by (simp add: value_to_index_min)

lemma value_to_index_mono:
  assumes "hist_shape h" "0 \<le> x" "x \<le> y"
  shows "value_to_index h x \<le> value_to_index h y"
proof -
  have "bucket (sub_bucket_bits h) (nat \<lfloor>x\<rfloor>) \<le> bucket (sub_bucket_bits h) (nat \<lfloor>y\<rfloor>)"
    using assms(3) by (intro bucket_mono nat_mono floor_mono)
  then show ?thesis using assms by (simp add: value_to_index_min min_le_iff_disj)
qed

lemma approx_bucket:
  assumes "hist_shape h" "2 ^ sub_bucket_bits h \<le> v"
  shows "index_to_approx_value h (bucket (sub_bucket_bits h) v) =
    real (v div 2 ^ bucket_shift (sub_bucket_bits h) v * 2 ^ bucket_shift (sub_bucket_bits h) v)
      + 2 ^ bucket_shift (sub_bucket_bits h) v / 2"
proof -
  let ?b = "sub_bucket_bits h"
  define k where "k = bucket_shift ?b v"
  define s where "s = v div 2 ^ k - 2 ^ ?b"
  have d: "v div 2 ^ k = s + 2 ^ ?b" "s < 2 ^ ?b"
    using bucket_large [OF assms(2)] by (simp_all add: k_def s_def)
  have i: "bucket ?b v = 2 ^ ?b + (k * 2 ^ ?b + s)" by (simp add: bucket_def k_def [symmetric] d(1))
  have "(k * 2 ^ ?b + s) div 2 ^ ?b = k" "(k * 2 ^ ?b + s) mod 2 ^ ?b = s" using d(2) by simp_all
  then show ?thesis
    using assms(1) unfolding k_def [symmetric] d(1) i index_to_approx_value_def Let_def hist_shape_def
    by (simp add: push_bit_eq_mult algebra_simps power_add)
qed

lemma approx_error:
  assumes "hist_shape h" "0 \<le> x" "bucket (sub_bucket_bits h) (nat \<lfloor>x\<rfloor>) < total_buckets h"
  shows "\<bar>index_to_approx_value h (value_to_index h x) - x\<bar> \<le>
    (if x < 2 ^ sub_bucket_bits h then 1 / 2 else x / 2 ^ (sub_bucket_bits h + 1))"
proof -
  let ?b = "sub_bucket_bits h" and ?v = "nat \<lfloor>x\<rfloor>"
  have v: "real ?v \<le> x" "x < real ?v + 1" using assms(2) by linarith+
  show ?thesis
  proof (cases "x < 2 ^ ?b")
    case True
    then have "?v < 2 ^ ?b" using assms(2) by (simp add: nat_less_iff floor_less_iff)
    then have e: "index_to_approx_value h (value_to_index h x) = real ?v + 1 / 2"
      using assms(1) unfolding value_to_index_bucket [OF assms]
      by (simp add: bucket_small index_to_approx_value_def hist_shape_def)
    show ?thesis unfolding e if_P [OF True] abs_le_iff using v by linarith
  next
    case False
    then have vb: "2 ^ ?b \<le> ?v" by (simp add: le_nat_iff le_floor_iff)
    define k where "k = bucket_shift ?b ?v"
    define l where "l = ?v div 2 ^ k * 2 ^ k"
    have "l \<le> ?v" "?v < l + 2 ^ k"
      using dividend_less_div_times [of "2 ^ k" ?v] by (simp_all add: l_def add.commute)
    then have "real l \<le> real ?v" "real (?v + 1) \<le> real (l + 2 ^ k)"
      by (simp_all only: of_nat_le_iff Suc_eq_plus1 [symmetric] Suc_le_eq)
    then have lx: "real l \<le> x" "x < real l + 2 ^ k"
      using v unfolding of_nat_add of_nat_1 of_nat_power of_nat_numeral by linarith+
    have "2 ^ ?b * 2 ^ k \<le> l" using bucket_large(2) [OF vb] by (simp add: l_def k_def)
    then have "real (2 ^ ?b * 2 ^ k) \<le> real l" by (simp only: of_nat_le_iff)
    then have "2 ^ k * 2 ^ ?b \<le> x" using lx(1) by (simp add: mult.commute)
    then have "2 ^ k / 2 \<le> x / 2 ^ (?b + 1)" by (simp add: field_simps)
    moreover have "\<bar>real l + 2 ^ k / 2 - x\<bar> \<le> 2 ^ k / 2" using lx unfolding abs_le_iff by linarith
    ultimately show ?thesis
      using False unfolding value_to_index_bucket [OF assms] approx_bucket [OF assms(1) vb]
        k_def [symmetric] l_def [symmetric] by simp
  qed
qed

lemma floorlog_le_ceiling:
  assumes "0 \<le> x" "x \<le> mv" "1 \<le> mv"
  shows "int (floorlog 2 (nat \<lfloor>x\<rfloor>)) \<le> \<lceil>log 2 mv\<rceil> + 1"
proof -
  define c where "c = nat \<lceil>log 2 mv\<rceil>"
  have "0 \<le> log 2 mv" using assms(3) by simp
  then have c: "\<lceil>log 2 mv\<rceil> = int c" by (simp add: c_def)
  have "log 2 mv \<le> real c" using c by linarith
  then have "mv \<le> 2 powr (real c)" using assms(3) by (simp add: log_le_iff)
  then have "x \<le> 2 ^ c" using assms(2) by (simp add: powr_realpow)
  then have "nat \<lfloor>x\<rfloor> \<le> 2 ^ c" by (simp add: nat_le_iff floor_le_iff)
  also have "\<dots> < 2 ^ (c + 1)" by simp
  finally have "floorlog 2 (nat \<lfloor>x\<rfloor>) \<le> c + 1" by (intro floorlog_leI) simp_all
  then show ?thesis using c by simp
qed

lemma bucket_in_range:
  assumes "hist_shape h" "0 \<le> x" "x \<le> max_value h"
  shows "bucket (sub_bucket_bits h) (nat \<lfloor>x\<rfloor>) < total_buckets h"
proof -
  let ?b = "sub_bucket_bits h" and ?v = "nat \<lfloor>x\<rfloor>"
  show ?thesis
  proof (cases "2 ^ ?b \<le> ?v")
    case False
    then have "bucket ?b ?v < 2 ^ ?b" by (simp only: not_le bucket_small)
    moreover have "2 ^ ?b \<le> total_buckets h" using assms(1) by (simp add: hist_shape_def)
    ultimately show ?thesis by (rule less_le_trans)
  next
    case True
    have "real (2 ^ ?b) \<le> real ?v" using True by (simp only: of_nat_le_iff)
    moreover have "real ?v \<le> x" using assms(2) by linarith
    ultimately have "real (2 ^ ?b) \<le> x" by (rule order_trans)
    then have x: "2 ^ ?b \<le> x" by simp
    then have m: "2 ^ ?b \<le> max_value h" using assms(3) by simp
    have "(1::real) \<le> 2 ^ ?b" by simp
    then have "int (floorlog 2 ?v) \<le> \<lceil>log 2 (max_value h)\<rceil> + 1"
      using assms(2,3) m by (intro floorlog_le_ceiling) linarith+
    then have k: "int (bucket_shift ?b ?v) \<le> \<lceil>log 2 (max_value h)\<rceil> - int ?b"
      using bucket_large(1) [OF True] by simp
    have "bucket_shift ?b ?v + 1 \<le> octave_count ?b (max_value h)"
    proof (cases "max_value h > 2 ^ ?b")
      case True
      then show ?thesis using k by (simp add: octave_count_def Let_def)
    next
      case False
      then have "max_value h = 2 ^ ?b" using m by simp
      then have "\<lceil>log 2 (max_value h)\<rceil> = int ?b" by (simp add: log_pow_cancel)
      then show ?thesis using k by (simp add: octave_count_def Let_def)
    qed
    then have "(bucket_shift ?b ?v + 2) * 2 ^ ?b \<le> (octave_count ?b (max_value h) + 1) * 2 ^ ?b"
      by (intro mult_le_mono1) simp
    moreover have "bucket ?b ?v < (bucket_shift ?b ?v + 2) * 2 ^ ?b"
      using bucket_large(3) [OF True] by (simp add: bucket_def algebra_simps)
    ultimately show ?thesis using assms(1) by (simp add: hist_shape_def)
  qed
qed

subsection \<open>Recording\<close>

lemma shape_update [simp]:
  "value_to_index (h\<lparr>counts := c, total_count := n, hsum := s, hmin := l, hmax := u\<rparr>) = value_to_index h"
  "index_to_approx_value (h\<lparr>counts := c, total_count := n, hsum := s, hmin := l, hmax := u\<rparr>) =
     index_to_approx_value h"
  by (rule ext; simp add: value_to_index_def index_to_approx_value_def)+

text \<open>The histogram \<open>h\<close> holds the measurements \<open>xs\<close>.\<close>

definition hist_holds :: "histogram \<Rightarrow> real list \<Rightarrow> bool" where
  "hist_holds h xs \<longleftrightarrow> hist_shape h \<and> (\<forall>x \<in> set xs. 0 \<le> x) \<and> total_count h = length xs \<and>
     (\<forall>i < length (counts h). counts h ! i = length (filter (\<lambda>x. value_to_index h x = i) xs)) \<and>
     hsum h = sum_list xs \<and> hmin h = (if xs = [] then PosInf else Fin (Min (set xs))) \<and>
     hmax h = (if xs = [] then 0 else Max (set xs))"

lemma hist_holds_init:
  "LogLinearHistogram bits mv = Inr h \<Longrightarrow> hist_holds h [] \<and> max_value h = mv \<and> int (sub_bucket_bits h) = bits"
  by (auto simp: LogLinearHistogram_def hist_holds_def hist_shape_def Let_def split: if_splits)

lemma value_to_index_less: "hist_shape h \<Longrightarrow> 0 \<le> x \<Longrightarrow> value_to_index h x < length (counts h)"
proof -
  assume h: "hist_shape h" "0 \<le> x"
  then have "0 < total_buckets h" by (simp add: hist_shape_def)
  with h show ?thesis by (simp add: value_to_index_min hist_shape_def min_less_iff_disj)
qed

lemma hist_record_holds:
  assumes "hist_holds h xs" "0 \<le> x"
  shows "\<exists>h'. hist_record h (Fin x) = Inr h' \<and> hist_holds h' (xs @ [x]) \<and>
    max_value h' = max_value h \<and> sub_bucket_bits h' = sub_bucket_bits h"
proof -
  have i: "value_to_index h x < length (counts h)"
    using assms value_to_index_less by (simp add: hist_holds_def)
  let ?h = "h\<lparr>counts := (counts h)[value_to_index h x := counts h ! value_to_index h x + 1],
      total_count := total_count h + 1, hsum := hsum h + x,
      hmin := (if lt_float x (hmin h) then Fin x else hmin h), hmax := (if x > hmax h then x else hmax h)\<rparr>"
  have r: "hist_record h (Fin x) = Inr ?h" using assms(2) i by (simp add: hist_record_def Let_def)
  have "xs \<noteq> [] \<Longrightarrow> Min (insert x (set xs)) = min x (Min (set xs))"
    "xs \<noteq> [] \<Longrightarrow> Max (insert x (set xs)) = max x (Max (set xs))" by simp_all
  then have "hmin ?h = Fin (Min (set (xs @ [x])))" "hmax ?h = Max (set (xs @ [x]))"
    using assms unfolding hist_holds_def
    by (cases "xs = []"; simp add: min_def max_def del: Min_less_iff Max_less_iff Min_le_iff Max_ge_iff
        Min_ge_iff Max_le_iff Min_gr_iff Max_gr_iff)+
  moreover have "hist_shape ?h" using assms(1) by (simp add: hist_holds_def hist_shape_def)
  moreover have "\<forall>j < length (counts ?h). counts ?h ! j = length (filter (\<lambda>y. value_to_index ?h y = j) (xs @ [x]))"
    using assms(1) i by (auto simp: hist_holds_def nth_list_update)
  ultimately have "hist_holds ?h (xs @ [x])"
    using assms unfolding hist_holds_def by simp
  with r show ?thesis by auto
qed

fun record_all :: "histogram \<Rightarrow> real list \<Rightarrow> histogram result" where
  "record_all h [] = Inr h"
| "record_all h (x # xs) = rbind (hist_record h (Fin x)) (\<lambda>h'. record_all h' xs)"

lemma record_all_holds:
  "hist_holds h ys \<Longrightarrow> \<forall>x \<in> set xs. 0 \<le> x \<Longrightarrow>
   \<exists>h'. record_all h xs = Inr h' \<and> hist_holds h' (ys @ xs) \<and> max_value h' = max_value h \<and>
     sub_bucket_bits h' = sub_bucket_bits h"
proof (induction xs arbitrary: h ys)
  case (Cons x xs)
  then obtain h1 where h1: "hist_record h (Fin x) = Inr h1" "hist_holds h1 (ys @ [x])"
    "max_value h1 = max_value h" "sub_bucket_bits h1 = sub_bucket_bits h"
    using hist_record_holds [of h ys x] by auto
  with Cons.IH [OF h1(2)] Cons.prems(2) show ?case by auto
qed simp

subsection \<open>Quantiles\<close>

lemma quantile_loop_first:
  "i < length cs \<Longrightarrow> target \<le> cum + sum_list (take (Suc i) cs) \<Longrightarrow>
   \<forall>j < i. cum + sum_list (take (Suc j) cs) < target \<Longrightarrow>
   quantile_loop h cs idx cum target = clamp (hmin h) (hmax h) (index_to_approx_value h (idx + i))"
proof (induction cs arbitrary: i idx cum)
  case (Cons c cs)
  show ?case
  proof (cases i)
    case 0
    with Cons.prems show ?thesis by simp
  next
    case (Suc i')
    have "\<not> target \<le> cum + c" using Cons.prems(3) Suc by force
    moreover have "quantile_loop h cs (idx + 1) (cum + c) target =
        clamp (hmin h) (hmax h) (index_to_approx_value h (idx + 1 + i'))"
      using Cons.prems Suc by (intro Cons.IH) (auto simp: add.assoc)
    ultimately show ?thesis using Suc by simp
  qed
qed simp

lemma filter_le_Suc:
  "length (filter (\<lambda>x. f x \<le> Suc i) xs) =
     length (filter (\<lambda>x. f x \<le> i) xs) + length (filter (\<lambda>x. f x = Suc i) xs)"
  by (induction xs) auto

lemma cumulative_counts:
  assumes "hist_holds h xs"
  shows "i < length (counts h) \<Longrightarrow>
    sum_list (take (Suc i) (counts h)) = length (filter (\<lambda>x. value_to_index h x \<le> i) xs)"
proof (induction i)
  case 0
  then show ?case using assms by (cases "counts h") (auto simp: hist_holds_def)
next
  case (Suc i)
  have "take (Suc (Suc i)) (counts h) = take (Suc i) (counts h) @ [counts h ! Suc i]"
    using Suc.prems by (simp add: take_Suc_conv_app_nth)
  with Suc assms show ?case by (simp add: filter_le_Suc hist_holds_def)
qed

text \<open>Counting the elements with a small image of a monotone function finds an order statistic.\<close>

lemma count_order_statistic:
  fixes xs :: "real list" and f :: "real \<Rightarrow> nat"
  assumes "0 < k" "k \<le> length xs" "\<And>x y. x \<in> set xs \<Longrightarrow> y \<in> set xs \<Longrightarrow> x \<le> y \<Longrightarrow> f x \<le> f y"
  shows "k \<le> length (filter (\<lambda>x. f x \<le> i) xs) \<longleftrightarrow> f (sort xs ! (k - 1)) \<le> i"
proof -
  let ?ys = "sort xs"
  have "mset (filter (\<lambda>x. f x \<le> i) ?ys) = mset (filter (\<lambda>x. f x \<le> i) xs)" by simp
  then have len: "length (filter (\<lambda>x. f x \<le> i) xs) = length (filter (\<lambda>x. f x \<le> i) ?ys)"
    by (metis size_mset)
  have mono: "f (?ys ! a) \<le> f (?ys ! b)" if "a \<le> b" "b < length xs" for a b
    using that nth_mem [of a ?ys] nth_mem [of b ?ys] by (intro assms(3) sorted_nth_mono) auto
  show ?thesis
  proof (cases "f (?ys ! (k - 1)) \<le> i")
    case True
    have "\<forall>x \<in> set (take k ?ys). f x \<le> i"
    proof
      fix x assume "x \<in> set (take k ?ys)"
      then obtain j where j: "j < k" "x = ?ys ! j" using assms(2) by (auto simp: in_set_conv_nth)
      have "f (?ys ! j) \<le> f (?ys ! (k - 1))" using j assms(1,2) by (intro mono) auto
      then show "f x \<le> i" using j True by simp
    qed
    then have "filter (\<lambda>x. f x \<le> i) (take k ?ys) = take k ?ys" by simp
    then have "k \<le> length (filter (\<lambda>x. f x \<le> i) (take k ?ys @ drop k ?ys))"
      using assms(2) by (simp only: filter_append length_append) simp
    then show ?thesis using True len by simp
  next
    case False
    have "\<forall>x \<in> set (drop (k - 1) ?ys). \<not> f x \<le> i"
    proof
      fix x assume "x \<in> set (drop (k - 1) ?ys)"
      then obtain j where j: "j < length xs - (k - 1)" "x = ?ys ! (k - 1 + j)"
        by (auto simp: in_set_conv_nth)
      have "f (?ys ! (k - 1)) \<le> f (?ys ! (k - 1 + j))" using j by (intro mono) auto
      then show "\<not> f x \<le> i" using j False by simp
    qed
    then have "filter (\<lambda>x. f x \<le> i) (drop (k - 1) ?ys) = []" by simp
    then have "length (filter (\<lambda>x. f x \<le> i) (take (k - 1) ?ys @ drop (k - 1) ?ys)) \<le> k - 1"
      by (simp only: filter_append length_append) (simp add: le_trans [OF length_filter_le])
    then show ?thesis using False len assms(1) by simp
  qed
qed

lemma ceiling_rank:
  assumes "0 < q" "q < 1" "0 < n"
  shows "0 < nat \<lceil>q * real n\<rceil>" "nat \<lceil>q * real n\<rceil> \<le> n" "nat \<lceil>q * real n\<rceil> - 1 < n"
proof -
  have "0 < q * real n" "q * real n \<le> real n" using assms by (simp_all add: mult_le_cancel_right1)
  then show k: "0 < nat \<lceil>q * real n\<rceil>" "nat \<lceil>q * real n\<rceil> \<le> n" by (simp_all add: nat_le_iff ceiling_le_iff)
  then show "nat \<lceil>q * real n\<rceil> - 1 < n" by linarith
qed

lemma quantile_bucket:
  assumes "hist_holds h xs" "xs \<noteq> []" "0 < q" "q < 1"
  shows "quantile h q = clamp (hmin h) (hmax h)
    (index_to_approx_value h (value_to_index h (sort xs ! (nat \<lceil>q * real (length xs)\<rceil> - 1))))"
proof -
  let ?k = "nat \<lceil>q * real (length xs)\<rceil>" and ?x = "sort xs ! (nat \<lceil>q * real (length xs)\<rceil> - 1)"
  let ?i = "value_to_index h ?x"
  have k: "0 < ?k" "?k \<le> length xs" "?k - 1 < length (sort xs)"
    using ceiling_rank [OF assms(3,4), of "length xs"] assms(2) by simp_all
  have shape: "hist_shape h" "\<forall>x \<in> set xs. 0 \<le> x" using assms(1) by (simp_all add: hist_holds_def)
  have "?x \<in> set (sort xs)" using k(3) by (rule nth_mem)
  then have i: "?i < length (counts h)" using shape value_to_index_less by simp
  have c: "?k \<le> sum_list (take (Suc j) (counts h)) \<longleftrightarrow> ?i \<le> j" if "j < length (counts h)" for j
    unfolding cumulative_counts [OF assms(1) that]
    using k(1,2) shape by (intro count_order_statistic value_to_index_mono) auto
  have "quantile_loop h (counts h) 0 0 ?k = clamp (hmin h) (hmax h) (index_to_approx_value h (0 + ?i))"
    using c i by (intro quantile_loop_first) (simp_all add: not_le [symmetric])
  then show ?thesis
    using assms by (simp add: quantile_def hist_holds_def)
qed

text \<open>
  C37: quantile accuracy. For any measurements recorded into a new histogram and any \<open>q\<close> strictly
  between 0 and 1, the reported quantile differs from the true order statistic (the \<open>k\<close>-th
  smallest measurement, \<open>k\<close> the ceiling of \<open>q\<close> times the count) by at most half a unit when it is
  below \<open>2^B\<close>, and relatively by at most \<open>2^-(B+1)\<close> from there up to the configured maximum.
\<close>

theorem quantile_accuracy:
  assumes "LogLinearHistogram bits mv = Inr h0" "\<forall>x \<in> set xs. 0 \<le> x" "xs \<noteq> []" "0 < q" "q < 1"
    and "x = sort xs ! (nat \<lceil>q * real (length xs)\<rceil> - 1)" "x \<le> mv"
  shows "\<exists>h e. record_all h0 xs = Inr h \<and> quantile h q = Fin e \<and>
    \<bar>e - x\<bar> \<le> (if x < 2 ^ nat bits then 1 / 2 else x / 2 ^ (nat bits + 1))"
proof -
  note init = hist_holds_init [OF assms(1)]
  obtain h where h: "record_all h0 xs = Inr h" "hist_holds h xs" "max_value h = mv" "sub_bucket_bits h = nat bits"
    using record_all_holds [of h0 "[]" xs] init assms(2) by auto
  let ?a = "index_to_approx_value h (value_to_index h x)"
  have k: "nat \<lceil>q * real (length xs)\<rceil> - 1 < length xs"
    using ceiling_rank(3) [OF assms(4,5), of "length xs"] assms(3) by simp
  then have mem: "x \<in> set xs" unfolding assms(6) using nth_mem [of _ "sort xs"] by simp
  then have "0 \<le> x" using assms(2) by blast
  moreover have shape: "hist_shape h" using h(2) by (simp add: hist_holds_def)
  ultimately have err: "\<bar>?a - x\<bar> \<le> (if x < 2 ^ nat bits then 1 / 2 else x / 2 ^ (nat bits + 1))"
    using approx_error [OF shape, of x] bucket_in_range [OF shape, of x] assms(7) unfolding h(3,4) by blast
  have lim: "hmin h = Fin (Min (set xs))" "hmax h = Max (set xs)"
    using h(2) assms(3) by (simp_all add: hist_holds_def)
  have "Min (set xs) \<le> x" "x \<le> Max (set xs)" using mem by simp_all
  then have "\<bar>max (Min (set xs)) (min (Max (set xs)) ?a) - x\<bar> \<le> \<bar>?a - x\<bar>"
    by (auto simp: max_def min_def abs_le_iff)
  with err have "\<bar>max (Min (set xs)) (min (Max (set xs)) ?a) - x\<bar>
      \<le> (if x < 2 ^ nat bits then 1 / 2 else x / 2 ^ (nat bits + 1))" by (rule order_trans [rotated])
  moreover have "quantile h q = Fin (max (Min (set xs)) (min (Max (set xs)) ?a))"
    using quantile_bucket [OF h(2) assms(3-5)] assms(6) lim by simp
  ultimately show ?thesis using h(1) by blast
qed

definition sample_histogram :: histogram where
  "sample_histogram = \<lparr>sub_bucket_bits = 1, sub_bucket_count = 2, sub_bucket_mask = 1, max_value = 1,
     linear_sub_range = 2, total_buckets = 4, counts = [0, 0, 0, 0], total_count = 0, hsum = 0,
     hmin = PosInf, hmax = 0\<rparr>"

lemma sample_histogram_new: "LogLinearHistogram 1 1 = Inr sample_histogram"
  by (simp add: LogLinearHistogram_def sample_histogram_def octave_count_def Let_def eval_nat_numeral)

theorem quantile_accuracy_witness:
  "\<exists>h e. record_all sample_histogram [1] = Inr h \<and> quantile h (1 / 2) = Fin e \<and> \<bar>e - 1\<bar> \<le> 1 / 2"
  using quantile_accuracy [OF sample_histogram_new, of "[1]" "1 / 2" 1] by simp

text \<open>
  Bookkeeping. After recording any measurements, count, sum, minimum and maximum are exact and
  every bucket holds the number of measurements that map to it, so the buckets add up to the
  count; a negative measurement is refused.
\<close>

theorem histogram_exact_totals:
  assumes "LogLinearHistogram bits mv = Inr h0" "\<forall>x \<in> set xs. 0 \<le> x"
  shows "\<exists>h. record_all h0 xs = Inr h \<and> hist_count h = length xs \<and> sum_list (counts h) = length xs \<and>
    hist_max h = (if xs = [] then 0 else Max (set xs)) \<and>
    hist_min h = Fin (if xs = [] then 0 else Min (set xs)) \<and>
    hist_mean h = (if xs = [] then 0 else sum_list xs / real (length xs)) \<and>
    (\<forall>x < 0. hist_record h (Fin x) = Inl ValueError)"
proof -
  obtain h where h: "record_all h0 xs = Inr h" "hist_holds h xs"
    using record_all_holds [of h0 "[]" xs] hist_holds_init [OF assms(1)] assms(2) by auto
  then have "0 < length (counts h)" by (auto simp: hist_holds_def hist_shape_def)
  moreover have "\<forall>x \<in> set xs. value_to_index h x < length (counts h)"
    using h(2) value_to_index_less by (simp add: hist_holds_def)
  ultimately have "sum_list (take (Suc (length (counts h) - 1)) (counts h)) = length xs"
    using cumulative_counts [OF h(2), of "length (counts h) - 1"] by (simp add: filter_id_conv less_Suc_eq_le [symmetric])
  with h show ?thesis
    by (auto simp: hist_holds_def hist_count_def hist_max_def hist_min_def hist_mean_def hist_record_def)
qed

theorem histogram_exact_totals_witness:
  "\<exists>h. record_all sample_histogram [1, 3] = Inr h \<and> sum_list (counts h) = 2 \<and> hist_mean h = 2"
  using histogram_exact_totals [OF sample_histogram_new, of "[1, 3]"] by force

subsection \<open>Collector\<close>

record metrics =
  counters :: "(string, int) dict"
  histograms :: "(string, histogram) dict"

definition COUNTER_NAMES :: "string list" where
  "COUNTER_NAMES = [''enqueued'', ''claimed'', ''completed'', ''failed'', ''reclaimed'', ''rejected'']"

definition MetricsCollector :: "int \<Rightarrow> metrics result" where
  "MetricsCollector bits =
     rbind (LogLinearHistogram bits (10 ^ 8)) (\<lambda>h.
     Inr \<lparr>counters = map (\<lambda>n. (n, 0)) COUNTER_NAMES,
          histograms = [(''task_latency'', h), (''claim_latency'', h), (''gossip_latency'', h)]\<rparr>)"

definition increment_counter :: "metrics \<Rightarrow> string \<Rightarrow> int \<Rightarrow> metrics" where
  "increment_counter m name amount =
     (case map_of (counters m) name of
        Some c \<Rightarrow> m\<lparr>counters := AList.update name (c + amount) (counters m)\<rparr>
      | None \<Rightarrow> m\<lparr>counters := AList.update name amount (counters m)\<rparr>)"

definition get_counter :: "metrics \<Rightarrow> string \<Rightarrow> int" where
  "get_counter m name = get_default (counters m) name 0"

text \<open>A histogram that is missing is created first, and stays if the measurement is refused.\<close>

definition record_latency :: "metrics \<Rightarrow> string \<Rightarrow> pyfloat \<Rightarrow> metrics \<times> unit result" where
  "record_latency m name latency_us =
     (case (case map_of (histograms m) name of
              Some h \<Rightarrow> Inr h
            | None \<Rightarrow> LogLinearHistogram 7 (10 ^ 9)) of
        Inl e \<Rightarrow> (m, Inl e)
      | Inr h \<Rightarrow>
          (case hist_record h latency_us of
             Inl e \<Rightarrow> (m\<lparr>histograms := AList.update name h (histograms m)\<rparr>, Inl e)
           | Inr h' \<Rightarrow> (m\<lparr>histograms := AList.update name h' (histograms m)\<rparr>, Inr ())))"

definition get_histogram :: "metrics \<Rightarrow> string \<Rightarrow> histogram option" where
  "get_histogram m name = map_of (histograms m) name"

record metric_snapshot =
  snap_counters :: "(string, int) dict"
  snap_latencies :: "(string, (string, pyfloat) dict) dict"

definition hist_summary :: "histogram \<Rightarrow> (string, pyfloat) dict" where
  "hist_summary h =
     [(''count'', Fin (real (hist_count h))), (''min'', hist_min h), (''mean'', Fin (hist_mean h)),
      (''max'', Fin (hist_max h)), (''p50'', quantile h (50 / 100)), (''p95'', quantile h (95 / 100)),
      (''p99'', quantile h (99 / 100)), (''p999'', quantile h (999 / 1000))]"

definition snapshot :: "metrics \<Rightarrow> metric_snapshot" where
  "snapshot m = \<lparr>snap_counters = counters m,
     snap_latencies = map (\<lambda>(name, h). (name, hist_summary h)) (histograms m)\<rparr>"

lemma get_counter_increment:
  "get_counter (increment_counter m name amount) name' =
     get_counter m name' + (if name' = name then amount else 0)"
  by (auto simp: increment_counter_def get_counter_def get_default_def dict_simps split: option.splits)

end
