(* ===== verification/Failure_Detector.thy ===== *)
theory Failure_Detector
  imports Prelude
begin

section \<open>Phi-accrual failure detector (failure.py)\<close>

text \<open>
  Heartbeat windows per peer and the suspicion level. The complementary error function
  \<^verbatim>\<open>math.erfc\<close> is an argument; the properties name the facts of it they need: it decreases, lies
  between 0 and 2, and falls below \<open>10^-100\<close>. The time of a call is an argument, the
  \<^verbatim>\<open>timestamp\<close> of the code or the reading of its clock.
\<close>

record detector =
  window_size :: nat
  min_samples :: int
  variance_floor :: real
  intervals :: "(string, real list) dict"
  last_heartbeat :: "(string, real) dict"

definition PhiAccrualDetector :: "nat \<Rightarrow> int \<Rightarrow> real \<Rightarrow> detector" where
  "PhiAccrualDetector w m vf =
     \<lparr>window_size = w, min_samples = m, variance_floor = vf, intervals = [], last_heartbeat = []\<rparr>"

text \<open>\<^verbatim>\<open>deque(maxlen=n).append\<close>\<close>

definition deque_append :: "nat \<Rightarrow> 'a list \<Rightarrow> 'a \<Rightarrow> 'a list" where
  "deque_append n xs x = drop (length xs + 1 - n) (xs @ [x])"

definition heartbeat :: "detector \<Rightarrow> string \<Rightarrow> real \<Rightarrow> detector" where
  "heartbeat d peer_id now =
     (let d' =
        (case map_of (last_heartbeat d) peer_id of
           None \<Rightarrow> d
         | Some t \<Rightarrow>
             (let delta = now - t
              in if delta > 0
                 then d\<lparr>intervals := AList.update peer_id
                          (deque_append (window_size d) (get_default (intervals d) peer_id []) delta)
                          (intervals d)\<rparr>
                 else d))
      in d'\<lparr>last_heartbeat := AList.update peer_id now (last_heartbeat d')\<rparr>)"

definition is_known :: "detector \<Rightarrow> string \<Rightarrow> bool" where
  "is_known d peer_id = has_key (last_heartbeat d) peer_id"

definition mean :: "real list \<Rightarrow> real" where
  "mean xs = sum_list xs / real (length xs)"

definition variance :: "real list \<Rightarrow> real" where
  "variance xs = sum_list (map (\<lambda>x. (x - mean xs)\<^sup>2) xs) / real (length xs)"

definition prob_floor :: real where
  "prob_floor = 1 / 10 ^ 100"

definition phi :: "(real \<Rightarrow> real) \<Rightarrow> detector \<Rightarrow> string \<Rightarrow> real \<Rightarrow> pyfloat result" where
  "phi erfc d peer_id now =
     (case map_of (last_heartbeat d) peer_id of
        None \<Rightarrow> Inr PosInf
      | Some t0 \<Rightarrow>
          (case map_of (intervals d) peer_id of
             None \<Rightarrow> Inr (Fin 0)
           | Some xs \<Rightarrow>
               if int (length xs) < min_samples d then Inr (Fin 0)
               else
                 (let time_since_last = now - t0
                  in if time_since_last \<le> 0 then Inr (Fin 0)
                     else if length xs = 0 then Inl ZeroDivisionError
                     else
                       (let std_dev = sqrt (max (variance xs) (variance_floor d))
                        in if std_dev * sqrt 2 = 0 then Inl ZeroDivisionError
                           else
                             (let y = (time_since_last - mean xs) / (std_dev * sqrt 2);
                                  p_later = max (1 / 2 * erfc y) prob_floor;
                                  phi_val = - log 10 p_later
                              in Inr (Fin (max 0 phi_val)))))))"

definition is_suspected ::
  "(real \<Rightarrow> real) \<Rightarrow> detector \<Rightarrow> string \<Rightarrow> real \<Rightarrow> real \<Rightarrow> bool result" where
  "is_suspected erfc d peer_id threshold now =
     rbind (phi erfc d peer_id now) (\<lambda>p. Inr (float_ge p threshold))"

subsection \<open>Windows\<close>

definition detector_ok :: "detector \<Rightarrow> bool" where
  "detector_ok d \<longleftrightarrow> 0 < window_size d \<and> 0 < variance_floor d \<and>
     (\<forall>p xs. map_of (intervals d) p = Some xs \<longrightarrow>
        xs \<noteq> [] \<and> length xs \<le> window_size d \<and> (\<forall>x \<in> set xs. 0 < x))"

lemma deque_append_facts:
  "0 < n \<Longrightarrow> deque_append n xs x \<noteq> []" "length xs \<le> n \<Longrightarrow> length (deque_append n xs x) \<le> n"
  "set (deque_append n xs x) \<subseteq> insert x (set xs)"
  by (auto simp: deque_append_def dest: in_set_dropD)

lemma detector_ok_last [simp]: "detector_ok (d\<lparr>last_heartbeat := l\<rparr>) = detector_ok d"
  by (simp add: detector_ok_def)

lemma detector_ok_append:
  assumes "detector_ok d" "0 < delta"
  shows "detector_ok (d\<lparr>intervals := AList.update p
    (deque_append (window_size d) (get_default (intervals d) p []) delta) (intervals d)\<rparr>)"
proof -
  let ?xs = "get_default (intervals d) p []"
  have xs: "length ?xs \<le> window_size d" "\<forall>x \<in> set ?xs. 0 < x"
    using assms by (cases "map_of (intervals d) p"; auto simp: detector_ok_def get_default_def)+
  have "deque_append (window_size d) ?xs delta \<noteq> []"
    "length (deque_append (window_size d) ?xs delta) \<le> window_size d"
    "\<forall>x \<in> set (deque_append (window_size d) ?xs delta). 0 < x"
    using assms xs deque_append_facts(3) [of "window_size d" ?xs delta]
    by (auto simp: detector_ok_def deque_append_facts(1,2))
  with assms(1) show ?thesis by (auto simp: detector_ok_def map_of_update split: if_splits)
qed

lemma heartbeat_ok: "detector_ok d \<Longrightarrow> detector_ok (heartbeat d p t)"
  by (cases "map_of (last_heartbeat d) p")
     (simp_all add: heartbeat_def Let_def detector_ok_append)

lemma phi_new: "0 < w \<Longrightarrow> 0 < vf \<Longrightarrow> detector_ok (PhiAccrualDetector w m vf)"
  by (simp add: detector_ok_def PhiAccrualDetector_def)

fun heartbeats :: "detector \<Rightarrow> (string \<times> real) list \<Rightarrow> detector" where
  "heartbeats d [] = d"
| "heartbeats d ((p, t) # hs) = heartbeats (heartbeat d p t) hs"

lemma heartbeats_ok: "detector_ok d \<Longrightarrow> detector_ok (heartbeats d hs)"
  by (induction d hs rule: heartbeats.induct) (simp_all add: heartbeat_ok)

subsection \<open>The suspicion level\<close>

definition warm :: "detector \<Rightarrow> string \<Rightarrow> bool" where
  "warm d p \<longleftrightarrow> is_known d p \<and> (\<exists>xs. map_of (intervals d) p = Some xs \<and> min_samples d \<le> int (length xs))"

text \<open>The level of a warm peer as a function of the silence.\<close>

definition level :: "(real \<Rightarrow> real) \<Rightarrow> real \<Rightarrow> real \<Rightarrow> real \<Rightarrow> real" where
  "level erfc m s t = max 0 (- log 10 (max (1 / 2 * erfc ((t - m) / s)) prob_floor))"

lemma phi_warm:
  assumes "detector_ok d" "warm d p"
  shows "\<exists>t0 m s. 0 < s \<and>
    (\<forall>now. phi erfc d p now = Inr (Fin (if now \<le> t0 then 0 else level erfc m s (now - t0))))"
proof -
  obtain t0 xs where x: "map_of (last_heartbeat d) p = Some t0" "map_of (intervals d) p = Some xs"
    "min_samples d \<le> int (length xs)"
    using assms(2) by (auto simp: warm_def is_known_def has_key_def)
  let ?s = "sqrt (max (variance xs) (variance_floor d)) * sqrt 2"
  have "0 < max (variance xs) (variance_floor d)" "xs \<noteq> []"
    using assms(1) x(2) by (auto simp: detector_ok_def)
  then have s: "0 < ?s" "?s \<noteq> 0" "length xs \<noteq> 0" by simp_all
  have "phi erfc d p now = Inr (Fin (if now \<le> t0 then 0 else level erfc (mean xs) ?s (now - t0)))" for now
  proof -
    have n: "\<not> int (length xs) < min_samples d" "now - t0 \<le> 0 \<longleftrightarrow> now \<le> t0" using x(3) by simp_all
    show ?thesis
      unfolding phi_def x(1,2) option.case Let_def level_def if_not_P [OF n(1)] n(2) if_not_P [OF s(3)]
        if_not_P [OF s(2)] by (cases "now \<le> t0") (simp_all only: if_True if_False)
  qed
  with s(1) show ?thesis by blast
qed

lemma phi_cold:
  assumes "is_known d p" "\<not> warm d p"
  shows "phi erfc d p now = Inr (Fin 0)"
  using assms by (auto simp: warm_def is_known_def has_key_def phi_def split: option.splits)

lemma prob_floor_pos: "0 < prob_floor"
  by (simp add: prob_floor_def)

lemma log_prob_floor: "log 10 prob_floor = - 100"
  unfolding prob_floor_def by (subst log_divide) (simp_all only: log_one log_pow_cancel, simp_all)

lemma level_bounds: "0 \<le> level erfc m s t" "level erfc m s t \<le> 100"
proof -
  let ?p = "max (1 / 2 * erfc ((t - m) / s)) prob_floor"
  have "log 10 prob_floor \<le> log 10 ?p" by (intro log_mono) (simp_all add: prob_floor_pos)
  then show "level erfc m s t \<le> 100" by (simp add: level_def log_prob_floor)
qed (simp add: level_def)

lemma level_mono:
  assumes "\<And>x y. x \<le> y \<Longrightarrow> erfc y \<le> erfc x" "0 < s" "t \<le> u"
  shows "level erfc m s t \<le> level erfc m s u"
proof -
  have "(t - m) / s \<le> (u - m) / s" using assms(2,3) by (simp add: divide_right_mono)
  then have "erfc ((u - m) / s) \<le> erfc ((t - m) / s)" by (rule assms(1))
  then have "max (1 / 2 * erfc ((u - m) / s)) prob_floor \<le> max (1 / 2 * erfc ((t - m) / s)) prob_floor"
    by (intro max.mono) simp_all
  then have "log 10 (max (1 / 2 * erfc ((u - m) / s)) prob_floor)
      \<le> log 10 (max (1 / 2 * erfc ((t - m) / s)) prob_floor)"
    by (intro log_mono) (simp_all add: less_max_iff_disj prob_floor_pos)
  then show ?thesis by (simp add: level_def max.coboundedI2)
qed

text \<open>
  Three regimes. After any heartbeats, a peer that was never heard from is suspected at
  every threshold; a known peer with too few intervals has level 0 however long it has been
  silent; every other known peer has a level between 0 and 100. No call divides by zero when
  the window and the variance floor are positive.
\<close>

theorem phi_regimes:
  assumes "0 < w" "0 < vf" "d = heartbeats (PhiAccrualDetector w m vf) hs"
  shows "(\<not> is_known d p \<longrightarrow> phi erfc d p now = Inr PosInf \<and>
      is_suspected erfc d p threshold now = Inr True) \<and>
    (is_known d p \<and> \<not> warm d p \<longrightarrow> phi erfc d p now = Inr (Fin 0)) \<and>
    (is_known d p \<longrightarrow> (\<exists>x. phi erfc d p now = Inr (Fin x) \<and> 0 \<le> x \<and> x \<le> 100))"
proof -
  have ok: "detector_ok d" using assms heartbeats_ok phi_new by simp
  have "phi erfc d p now = Inr PosInf" if "\<not> is_known d p"
    using that by (simp add: is_known_def has_key_def phi_def)
  moreover have "\<exists>x. phi erfc d p now = Inr (Fin x) \<and> 0 \<le> x \<and> x \<le> 100" if "is_known d p"
  proof (cases "warm d p")
    case True
    obtain t0 m s where "\<forall>now. phi erfc d p now = Inr (Fin (if now \<le> t0 then 0 else level erfc m s (now - t0)))"
      using phi_warm [OF ok True, of erfc] by blast
    then show ?thesis using level_bounds [of erfc m s "now - t0"] by (cases "now \<le> t0") simp_all
  next
    case False
    then show ?thesis using phi_cold [OF that] by simp
  qed
  ultimately show ?thesis
    using phi_cold [of d p erfc now] by (auto simp: is_suspected_def)
qed

theorem phi_regimes_witness:
  "phi (\<lambda>y. 1) (heartbeats (PhiAccrualDetector 10 5 1) [(''a'', 1), (''a'', 2)]) ''a'' 1000 = Inr (Fin 0) \<and>
   phi (\<lambda>y. 1) (heartbeats (PhiAccrualDetector 10 5 1) [(''a'', 1), (''a'', 2)]) ''b'' 3 = Inr PosInf"
proof -
  let ?d = "heartbeats (PhiAccrualDetector 10 5 1) [(''a'', 1), (''a'', 2)]"
  have d: "?d = \<lparr>window_size = 10, min_samples = 5, variance_floor = 1, intervals = [(''a'', [1])],
      last_heartbeat = [(''a'', 2)]\<rparr>"
    by (simp add: PhiAccrualDetector_def heartbeat_def Let_def deque_append_def get_default_def)
  have "is_known ?d ''a''" "\<not> warm ?d ''a''" "\<not> is_known ?d ''b''"
    unfolding d by (simp_all add: is_known_def warm_def has_key_def)
  then show ?thesis
    using phi_regimes [of 10 1 ?d 5 "[(''a'', 1), (''a'', 2)]" "''a''" "\<lambda>y. 1" 1000 0]
      phi_regimes [of 10 1 ?d 5 "[(''a'', 1), (''a'', 2)]" "''b''" "\<lambda>y. 1" 3 0] by simp
qed

text \<open>
  Suspicion only grows. Between two heartbeats of a peer its level never falls, so a
  suspected peer stays suspected until it is heard again.
\<close>

theorem suspicion_monotone:
  assumes "\<And>x y. x \<le> y \<Longrightarrow> erfc y \<le> erfc x" "detector_ok d" "t \<le> u"
    and "is_suspected erfc d p threshold t = Inr True"
  shows "is_suspected erfc d p threshold u = Inr True"
proof (cases "warm d p")
  case True
  obtain t0 m s where s: "0 < s" "\<forall>now. phi erfc d p now = Inr (Fin (if now \<le> t0 then 0 else level erfc m s (now - t0)))"
    using phi_warm [OF assms(2) True, of erfc] by blast
  have "level erfc m s (t - t0) \<le> level erfc m s (u - t0)"
    using assms(1,3) s(1) by (intro level_mono) simp_all
  moreover have "0 \<le> level erfc m s (u - t0)" by (rule level_bounds)
  ultimately show ?thesis
    using assms(3,4) s(2) by (auto simp: is_suspected_def split: if_splits)
next
  case False
  then show ?thesis
    using assms(4) phi_cold [of d p erfc] by (cases "is_known d p") (auto simp: is_suspected_def phi_def is_known_def has_key_def)
qed

definition step_erfc :: "real \<Rightarrow> real" where
  "step_erfc y = (if y < 0 then 2 else if y = 0 then 1 else 0)"

theorem suspicion_monotone_witness:
  "is_suspected step_erfc (PhiAccrualDetector 10 5 1) ''a'' 8 7 = Inr True"
  by (rule suspicion_monotone [where t = 0])
     (auto simp: step_erfc_def phi_new is_suspected_def phi_def PhiAccrualDetector_def detector_ok_def)

text \<open>
  C38: completeness. A peer with enough samples that falls silent is eventually suspected for
  good, at every threshold up to 100.
\<close>

theorem silent_peer_suspected:
  assumes "\<And>y. ymin \<le> y \<Longrightarrow> erfc y \<le> 2 / 10 ^ 100" "detector_ok d" "warm d p" "threshold \<le> 100"
  shows "\<exists>t. \<forall>now \<ge> t. is_suspected erfc d p threshold now = Inr True"
proof -
  obtain t0 m s where s: "0 < s" "\<forall>now. phi erfc d p now = Inr (Fin (if now \<le> t0 then 0 else level erfc m s (now - t0)))"
    using phi_warm [OF assms(2,3), of erfc] by blast
  have "is_suspected erfc d p threshold now = Inr True" if now: "max (t0 + 1) (t0 + m + s * ymin) \<le> now" for now
  proof -
    have "ymin \<le> (now - t0 - m) / s" using now s(1) by (simp add: field_simps)
    then have "erfc ((now - t0 - m) / s) \<le> 2 / 10 ^ 100" by (rule assms(1))
    then have "1 / 2 * erfc ((now - t0 - m) / s) \<le> prob_floor" by (simp add: prob_floor_def)
    then have "max (1 / 2 * erfc ((now - t0 - m) / s)) prob_floor = prob_floor" by (rule max_absorb2)
    then have "level erfc m s (now - t0) = 100" by (simp only: level_def log_prob_floor)
    with now s(2) assms(4) show ?thesis by (simp add: is_suspected_def)
  qed
  then show ?thesis by blast
qed

theorem silent_peer_suspected_witness:
  "\<exists>t. \<forall>now \<ge> t. is_suspected step_erfc (heartbeats (PhiAccrualDetector 10 1 1) [(''a'', 1), (''a'', 2)]) ''a'' 8 now = Inr True"
proof (rule silent_peer_suspected [where ymin = 1])
  show "detector_ok (heartbeats (PhiAccrualDetector 10 1 1) [(''a'', 1), (''a'', 2)])"
    by (intro heartbeats_ok phi_new) simp_all
  show "warm (heartbeats (PhiAccrualDetector 10 1 1) [(''a'', 1), (''a'', 2)]) ''a''"
    by (simp add: PhiAccrualDetector_def heartbeat_def Let_def deque_append_def get_default_def warm_def
        is_known_def has_key_def)
qed (simp_all add: step_erfc_def)

end
