(* ===== verification/Message.thy ===== *)
theory Message
  imports Crypto
begin

section \<open>Message envelopes (transport.py)\<close>

text \<open>
  The envelope of all network messages: its signed representation, signing and verification,
  and the framed wire format with its bounded decoder. The nonce that \<^verbatim>\<open>secrets.token_hex\<close>
  draws is an argument of \<open>signed\<close>, and \<^verbatim>\<open>repr\<close> and \<^verbatim>\<open>float\<close> on float literals are the
  arguments \<open>fr\<close> and \<open>pf\<close>, as in the JSON theory.
\<close>

subsection \<open>Envelope\<close>

record message =
  msg_type :: string
  msg_sender :: string
  msg_payload :: "(string, json) dict"
  msg_timestamp :: "pyfloat option"
  msg_nonce :: "string option"
  msg_signature :: "bytes option"
  msg_version :: int

text \<open>\<^verbatim>\<open>Message(msg_type, sender_id, payload, protocol_version=v)\<close>, the other fields at their defaults.\<close>

definition Message :: "string \<Rightarrow> string \<Rightarrow> (string, json) dict \<Rightarrow> int \<Rightarrow> message" where
  "Message ty sender pl v = \<lparr>msg_type = ty, msg_sender = sender, msg_payload = pl,
     msg_timestamp = None, msg_nonce = None, msg_signature = None, msg_version = v\<rparr>"

definition unsigned_document :: "message \<Rightarrow> (string, json) dict" where
  "unsigned_document m =
     [(''msg_type'', JStr (msg_type m)),
      (''nonce'', opt_json JStr (msg_nonce m)),
      (''payload'', JDict (msg_payload m)),
      (''protocol_version'', JInt (msg_version m)),
      (''sender_id'', JStr (msg_sender m)),
      (''timestamp'', opt_json JFloat (msg_timestamp m))]"

definition canonical_bytes :: "(real \<Rightarrow> string) \<Rightarrow> message \<Rightarrow> bytes result" where
  "canonical_bytes fr m = canonical_json_bytes fr (JDict (unsigned_document m))"

definition signed ::
  "ed25519 \<Rightarrow> (real \<Rightarrow> string) \<Rightarrow> key_pair \<Rightarrow> pyfloat \<Rightarrow> string \<Rightarrow> string option \<Rightarrow> message \<Rightarrow> message result" where
  "signed E fr key ts token nonce m =
     rbind (require (isfinite ts) ValueError) (\<lambda>_.
     let chosen = (case nonce of None \<Rightarrow> token | Some n \<Rightarrow> n)
     in rbind (require (1 \<le> len chosen \<and> len chosen \<le> 128) ValueError) (\<lambda>_.
        let staged = (Message (msg_type m) (msg_sender m) (msg_payload m) (msg_version m))
                       \<lparr>msg_timestamp := Some ts, msg_nonce := Some chosen\<rparr>
        in rbind (canonical_bytes fr staged) (\<lambda>data.
           Inr (staged\<lparr>msg_signature := Some (key_sign E key data)\<rparr>))))"

definition verify_signature :: "ed25519 \<Rightarrow> (real \<Rightarrow> string) \<Rightarrow> message \<Rightarrow> key_ring \<Rightarrow> bool result" where
  "verify_signature E fr m ring =
     (case (msg_signature m, msg_nonce m, msg_timestamp m) of
        (Some sig, Some _, Some _) \<Rightarrow>
          rbind (canonical_bytes fr m) (\<lambda>data. Inr (ring_verify E ring (msg_sender m) sig data))
      | _ \<Rightarrow> Inr False)"

subsection \<open>Wire format\<close>

definition envelope_limits :: json_limits where
  "envelope_limits = \<lparr>lim_depth = 16, lim_items = 10000, lim_string = 256 * 1024\<rparr>"

definition wire_document :: "message \<Rightarrow> json" where
  "wire_document m = JDict (unsigned_document m @ [(''signature'', opt_json hex_json (msg_signature m))])"

definition to_bytes :: "(real \<Rightarrow> string) \<Rightarrow> int \<Rightarrow> message \<Rightarrow> bytes result" where
  "to_bytes fr max_size m =
     rbind (require (msg_type m \<noteq> [] \<and> len (msg_type m) \<le> MAX_MESSAGE_TYPE_LENGTH) MessageDecodeError) (\<lambda>_.
     rbind (require (msg_sender m \<noteq> [] \<and> len (msg_sender m) \<le> MAX_PEER_ID_LENGTH) MessageDecodeError) (\<lambda>_.
     rbind (validate_json_tree envelope_limits (JDict (msg_payload m))) (\<lambda>_.
     rbind (canonical_json_bytes fr (wire_document m)) (\<lambda>data.
     rbind (require (len data \<le> max_size) MessageDecodeError) (\<lambda>_.
     rbind (require (length data < 2 ^ 32) StructError) (\<lambda>_.
     Inr (be32 (length data) @ data)))))))"

definition config_limits :: "security_config \<Rightarrow> json_limits" where
  "config_limits c = \<lparr>lim_depth = max_json_depth c, lim_items = max_json_items c, lim_string = max_string_length c\<rparr>"

definition required_fields :: "string list" where
  "required_fields = [''msg_type'', ''sender_id'', ''payload'', ''protocol_version'']"

text \<open>A failed field check raises \<^verbatim>\<open>MessageDecodeError\<close>; \<^verbatim>\<open>float\<close>'s \<^verbatim>\<open>OverflowError\<close> passes.\<close>

fun malformed :: "'a result \<Rightarrow> 'a result" where
  "malformed (Inl ValueError) = Inl MessageDecodeError"
| "malformed m = m"

fun plain_int :: "json \<Rightarrow> int result" where
  "plain_int (JInt i) = Inr i"
| "plain_int _ = Inl ValueError"

definition decode_fields :: "(string, json) dict \<Rightarrow> message result" where
  "decode_fields d =
     rbind (require (\<forall>k \<in> set required_fields. has_key d k) ValueError) (\<lambda>_.
     rbind (nonempty_str MAX_MESSAGE_TYPE_LENGTH (jget d ''msg_type'')) (\<lambda>ty.
     rbind (nonempty_str MAX_PEER_ID_LENGTH (jget d ''sender_id'')) (\<lambda>sender.
     rbind (as_dict (jget d ''payload'')) (\<lambda>pl.
     rbind (plain_int (jget d ''protocol_version'')) (\<lambda>v.
     rbind (optional read_lease_expiry (jget d ''timestamp'')) (\<lambda>ts.
     rbind (optional (nonempty_str 128) (jget d ''nonce'')) (\<lambda>nonce.
     rbind (optional (\<lambda>j. rbind (exact_str 128 j) hex_bytes) (jget d ''signature'')) (\<lambda>sig.
     Inr \<lparr>msg_type = ty, msg_sender = sender, msg_payload = pl, msg_timestamp = map_option Fin ts,
          msg_nonce = nonce, msg_signature = sig, msg_version = v\<rparr>))))))))"

definition from_bytes :: "(string \<Rightarrow> pyfloat) \<Rightarrow> bytes \<Rightarrow> security_config \<Rightarrow> message result" where
  "from_bytes pf data config =
     rbind (require (len data \<le> max_frame_size config) MessageDecodeError) (\<lambda>_.
     rbind (case Option.bind (utf8_decode data) (loads pf) of
              None \<Rightarrow> Inl MessageDecodeError | Some j \<Rightarrow> Inr j) (\<lambda>parsed.
     rbind (validate_json_tree (config_limits config) parsed) (\<lambda>_.
     malformed (rbind (as_dict parsed) decode_fields))))"

subsection \<open>Key order\<close>

text \<open>A dictionary as a parser returns it after sorted serialisation.\<close>

definition sort_dict :: "(string, json) dict \<Rightarrow> (string, json) dict" where
  "sort_dict d = sort_key fst (map (\<lambda>(k, v). (k, sort_json v)) d)"

lemma sort_json_JDict: "sort_json (JDict d) = JDict (sort_dict d)"
  by (simp add: sort_dict_def)

lemma sort_dict_idem [simp]: "sort_dict (sort_dict d) = sort_dict d"
  using sort_json_idem [of "JDict d"] by (simp only: sort_json_JDict json.inject)

lemma jget_sort_dict: "distinct (keys d) \<Longrightarrow> jget (sort_dict d) k = sort_json (jget d k)"
  using jget_sort_json [OF sort_json_JDict] by simp

lemma has_key_sort_dict [simp]: "has_key (sort_dict d) k \<longleftrightarrow> has_key d k"
  by (simp add: has_key_iff sort_dict_def keys_sort_key_fst fst_comp_map_snd)

subsection \<open>Round trip\<close>

lemma decode_wire_document:
  assumes "wire_document m = JDict d" "distinct (keys (msg_payload m))"
    and "\<forall>t \<in> set_option (msg_timestamp m). isfinite t"
    and "msg_type m \<noteq> []" "len (msg_type m) \<le> MAX_MESSAGE_TYPE_LENGTH"
    and "msg_sender m \<noteq> []" "len (msg_sender m) \<le> MAX_PEER_ID_LENGTH"
    and "\<forall>n \<in> set_option (msg_nonce m). n \<noteq> [] \<and> len n \<le> 128"
    and "\<forall>s \<in> set_option (msg_signature m). length s = 64"
  shows "decode_fields (sort_dict d) = Inr (m\<lparr>msg_payload := sort_dict (msg_payload m)\<rparr>)"
proof -
  have d: "d = unsigned_document m @ [(''signature'', opt_json hex_json (msg_signature m))]"
    using assms(1) by (simp add: wire_document_def)
  have dk: "distinct (keys d)" by (simp add: d unsigned_document_def)
  have req: "\<forall>k \<in> set required_fields. has_key d k"
    by (simp add: d unsigned_document_def required_fields_def has_key_iff)
  have g: "jget (sort_dict d) ''msg_type'' = JStr (msg_type m)"
    "jget (sort_dict d) ''sender_id'' = JStr (msg_sender m)"
    "jget (sort_dict d) ''payload'' = JDict (sort_dict (msg_payload m))"
    "jget (sort_dict d) ''protocol_version'' = JInt (msg_version m)"
    "jget (sort_dict d) ''timestamp'' = opt_json JFloat (msg_timestamp m)"
    "jget (sort_dict d) ''nonce'' = opt_json JStr (msg_nonce m)"
    "jget (sort_dict d) ''signature'' = opt_json hex_json (msg_signature m)"
    unfolding jget_sort_dict [OF dk]
    by (simp_all add: d unsigned_document_def jget_def get_default_def sort_json_opt sort_json_leaf
        sort_json_JDict del: sort_json.simps(2))
  have "optional read_lease_expiry (opt_json JFloat (msg_timestamp m)) =
      Inr (map_option (\<lambda>t. case t of Fin x \<Rightarrow> x) (msg_timestamp m))"
    using assms(3) by (cases "msg_timestamp m"; cases "the (msg_timestamp m)") (simp_all add: optional_def)
  moreover have "map_option Fin (map_option (\<lambda>t. case t of Fin x \<Rightarrow> x) (msg_timestamp m)) = msg_timestamp m"
    using assms(3) by (cases "msg_timestamp m"; cases "the (msg_timestamp m)") simp_all
  moreover have "optional (nonempty_str 128) (opt_json JStr (msg_nonce m)) = Inr (msg_nonce m)"
    using assms(8) by (subst read_optional [where P = "\<lambda>n. n \<noteq> [] \<and> len n \<le> 128"]) (simp_all add: read_str)
  moreover have "optional (\<lambda>j. rbind (exact_str 128 j) hex_bytes) (opt_json hex_json (msg_signature m)) =
      Inr (msg_signature m)"
    using assms(9) by (subst read_optional [where P = "\<lambda>s. length s = 64"]) (simp_all add: read_hex)
  ultimately show ?thesis
    using assms(4-7) req by (simp add: decode_fields_def g read_str)
qed

lemma canonical_bytes_sort [simp]:
  "canonical_bytes fr (m\<lparr>msg_payload := sort_dict (msg_payload m)\<rparr>) = canonical_bytes fr m"
proof -
  let ?m = "m\<lparr>msg_payload := sort_dict (msg_payload m)\<rparr>"
  have "map (\<lambda>(k, v). (k, sort_json v)) (unsigned_document ?m) =
      map (\<lambda>(k, v). (k, sort_json v)) (unsigned_document m)"
    by (simp add: unsigned_document_def sort_json_JDict del: sort_json.simps(2))
  then have eq: "sort_json (JDict (unsigned_document ?m)) = sort_json (JDict (unsigned_document m))"
    by (simp only: sort_json.simps)
  then have "dumpable (JDict (unsigned_document ?m)) \<longleftrightarrow> dumpable (JDict (unsigned_document m))"
    by (metis dumpable_sort_json)
  with eq show ?thesis by (simp only: canonical_bytes_def canonical_json_bytes_def dumps_def)
qed

lemma to_bytes_Inr:
  "to_bytes fr mx m = Inr b \<longleftrightarrow>
     msg_type m \<noteq> [] \<and> len (msg_type m) \<le> MAX_MESSAGE_TYPE_LENGTH \<and>
     msg_sender m \<noteq> [] \<and> len (msg_sender m) \<le> MAX_PEER_ID_LENGTH \<and>
     validate_json_tree envelope_limits (JDict (msg_payload m)) = Inr () \<and>
     (\<exists>data. canonical_json_bytes fr (wire_document m) = Inr data \<and> len data \<le> mx \<and>
        length data < 2 ^ 32 \<and> b = be32 (length data) @ data)"
  by (auto simp: to_bytes_def rbind_Inr_iff)

lemma from_canonical_bytes:
  assumes "printable fr pf (JDict d)" "canonical_json_bytes fr (JDict d) = Inr data"
    and "len data \<le> max_frame_size c" "validate_json_tree (config_limits c) (JDict d) = Inr ()"
    and "0 \<le> max_json_items c"
  shows "from_bytes pf data c = malformed (decode_fields (sort_dict d))"
proof -
  have "data = utf8_encode (dump fr False (sort_json (JDict d)))"
    using assms(2) by (simp only: canonical_json_bytes_Inr)
  moreover have "loads pf (dump fr False (sort_json (JDict d))) = Some (sort_json (JDict d))"
    using assms(1) by (intro loads_dump) (simp only: printable_sort_json)
  moreover have "validate_json_tree (config_limits c) (sort_json (JDict d)) = Inr ()"
    using assms(4,5) by (subst validate_sort_json) (simp_all add: config_limits_def)
  ultimately show ?thesis
    using assms(3) by (simp add: from_bytes_def sort_json_JDict del: sort_json.simps(2))
qed

lemma wire_roundtrip:
  assumes "to_bytes fr mx m = Inr b" "mx \<le> max_frame_size c" "0 \<le> max_json_items c"
    and "printable fr pf (wire_document m)" "validate_json_tree (config_limits c) (wire_document m) = Inr ()"
    and "\<forall>n \<in> set_option (msg_nonce m). n \<noteq> [] \<and> len n \<le> 128"
    and "\<forall>s \<in> set_option (msg_signature m). length s = 64"
  shows "un_be32 (take 4 b) = length (drop 4 b) \<and>
    (\<exists>m'. from_bytes pf (drop 4 b) c = Inr m' \<and>
       m' = m\<lparr>msg_payload := sort_dict (msg_payload m)\<rparr> \<and>
       verify_signature E fr m' ring = verify_signature E fr m ring)"
proof -
  obtain d where d: "wire_document m = JDict d" by (simp add: wire_document_def)
  obtain data where b: "canonical_json_bytes fr (JDict d) = Inr data" "len data \<le> mx"
      "length data < 2 ^ 32" "b = be32 (length data) @ data"
    and f: "msg_type m \<noteq> []" "len (msg_type m) \<le> MAX_MESSAGE_TYPE_LENGTH"
      "msg_sender m \<noteq> []" "len (msg_sender m) \<le> MAX_PEER_ID_LENGTH"
    using assms(1) by (auto simp: to_bytes_Inr d)
  have p: "printable fr pf (JDict (msg_payload m))" "printable fr pf (opt_json JFloat (msg_timestamp m))"
    using assms(4) by (simp_all add: wire_document_def unsigned_document_def printable_simps)
  then have "distinct (keys (msg_payload m))" "\<forall>t \<in> set_option (msg_timestamp m). isfinite t"
    by (auto simp: printable_simps)
  from decode_wire_document [OF d this f assms(6,7)]
  have "from_bytes pf data c = Inr (m\<lparr>msg_payload := sort_dict (msg_payload m)\<rparr>)"
    using from_canonical_bytes [of fr pf d data c] b assms(2-5) d by simp
  moreover have "verify_signature E fr (m\<lparr>msg_payload := sort_dict (msg_payload m)\<rparr>) ring =
      verify_signature E fr m ring"
    by (auto simp: verify_signature_def split: option.splits)
  ultimately show ?thesis using b(3,4) by (simp add: un_be32_be32)
qed

text \<open>
  A message survives the wire. The frame starts with the length of its body in four bytes,
  and decoding the body gives the message back, its payload with sorted keys; the signed bytes
  are the same before and after, so a signature verifies at the receiver exactly when it did at
  the sender.
\<close>

theorem message_wire_roundtrip:
  assumes "to_bytes fr mx m = Inr b" "mx \<le> max_frame_size c" "0 \<le> max_json_items c"
    and "printable fr pf (wire_document m)" "validate_json_tree (config_limits c) (wire_document m) = Inr ()"
    and "\<forall>n \<in> set_option (msg_nonce m). n \<noteq> [] \<and> len n \<le> 128"
    and "\<forall>s \<in> set_option (msg_signature m). length s = 64"
  shows "un_be32 (take 4 b) = length (drop 4 b) \<and>
    (\<exists>m'. from_bytes pf (drop 4 b) c = Inr m' \<and>
       m' = m\<lparr>msg_payload := sort_dict (msg_payload m)\<rparr> \<and>
       verify_signature E fr m' ring = verify_signature E fr m ring)"
  using assms by (rule wire_roundtrip)

subsection \<open>Signatures\<close>

lemma verify_signature_True:
  "verify_signature E fr m ring = Inr True \<longleftrightarrow>
     (\<exists>sig key data. msg_signature m = Some sig \<and> msg_nonce m \<noteq> None \<and> msg_timestamp m \<noteq> None \<and>
        map_of ring (msg_sender m) = Some key \<and> canonical_bytes fr m = Inr data \<and>
        length sig = 64 \<and> verify_raw E (public_raw key) sig data)"
  by (auto simp: verify_signature_def ring_verify_def get_peer_key_def public_verify_def
      rbind_Inr_iff split: option.splits)

lemma canonical_bytes_signature [simp]:
  "canonical_bytes fr (m\<lparr>msg_signature := s\<rparr>) = canonical_bytes fr m"
  by (simp add: canonical_bytes_def unsigned_document_def)

lemma signed_Inr:
  "signed E fr key ts token nonce m = Inr m' \<longleftrightarrow>
     isfinite ts \<and>
     (let n = (case nonce of None \<Rightarrow> token | Some n \<Rightarrow> n);
          staged = m\<lparr>msg_timestamp := Some ts, msg_nonce := Some n, msg_signature := None\<rparr>
      in n \<noteq> [] \<and> length n \<le> 128 \<and>
         (\<exists>data. canonical_bytes fr staged = Inr data \<and>
            m' = staged\<lparr>msg_signature := Some (key_sign E key data)\<rparr>))"
proof -
  have "(Message (msg_type m) (msg_sender m) (msg_payload m) (msg_version m))\<lparr>msg_timestamp := t, msg_nonce := n\<rparr>
      = m\<lparr>msg_timestamp := t, msg_nonce := n, msg_signature := None\<rparr>" for t n
    by (cases m) (simp add: Message_def)
  then show ?thesis
    by (auto simp: signed_def rbind_Inr_iff Let_def Suc_le_eq int_one_le_iff_zero_less)
qed

lemma signed_verifies:
  assumes "ed25519_correct E" "signed E fr key ts token nonce m = Inr m'"
    and "map_of ring (msg_sender m) = Some (public_key_of E key)"
  shows "verify_signature E fr m' ring = Inr True"
  using assms by (auto simp: signed_Inr Let_def verify_signature_True key_sign_def public_key_of_def
      ed25519_correct_def split: option.splits)

lemma canonical_json_bytes_inj:
  assumes "printable fr pf v" "printable fr pf v'"
    and "canonical_json_bytes fr v = Inr b" "canonical_json_bytes fr v' = Inr b"
  shows "sort_json v = sort_json v'"
proof -
  have l: "loads pf (dump fr False (sort_json u)) = Some (sort_json u)" if "printable fr pf u" for u
    using that by (intro loads_dump) (simp only: printable_sort_json)
  have "dump fr False (sort_json v) = dump fr False (sort_json v')"
    using assms(3,4) by (simp add: canonical_json_bytes_Inr utf8_encode_inj)
  then show ?thesis using l [OF assms(1)] l [OF assms(2)] by (metis option.inject)
qed

lemma unsigned_document_inj:
  assumes "sort_json (JDict (unsigned_document m)) = sort_json (JDict (unsigned_document m'))"
    and "msg_signature m = msg_signature m'"
  shows "m\<lparr>msg_payload := sort_dict (msg_payload m)\<rparr> = m'\<lparr>msg_payload := sort_dict (msg_payload m')\<rparr>"
proof -
  have eq: "sort_json (jget (unsigned_document m) k) = sort_json (jget (unsigned_document m') k)" for k
    using assms(1) jget_sort_dict [of "unsigned_document m" k] jget_sort_dict [of "unsigned_document m'" k]
    unfolding sort_json_JDict by (simp add: unsigned_document_def)
  have o: "sort_json (opt_json JStr x) = opt_json JStr x" "sort_json (opt_json JFloat y) = opt_json JFloat y" for x y
    by (simp_all add: sort_json_opt)
  have "msg_type m = msg_type m'" "msg_nonce m = msg_nonce m'" "msg_version m = msg_version m'"
    "msg_sender m = msg_sender m'" "msg_timestamp m = msg_timestamp m'"
    "sort_dict (msg_payload m) = sort_dict (msg_payload m')"
    using eq [of "''msg_type''"] eq [of "''nonce''"] eq [of "''protocol_version''"] eq [of "''sender_id''"]
      eq [of "''timestamp''"] eq [of "''payload''"]
    by (simp_all add: unsigned_document_def jget_def get_default_def o opt_json_inj sort_json_JDict
        del: sort_json.simps(2))
  with assms(2) show ?thesis by (cases m; cases m') simp
qed

text \<open>
  C14: an envelope cannot be altered. If no registered key accepts the signature of \<open>m\<close> for any
  other bytes than the signed bytes of \<open>m\<close>, then every message that carries this signature and
  verifies is \<open>m\<close> itself, up to the order of keys in its payload: type, sender, time, nonce,
  protocol version and payload are all bound.
\<close>

theorem altered_message_rejected:
  assumes "canonical_bytes fr m = Inr b" "msg_signature m = Some sig"
    and "\<forall>key \<in> snd ` set ring. \<forall>d. verify_raw E (public_raw key) sig d \<longrightarrow> d = b"
    and "printable fr pf (JDict (unsigned_document m))" "printable fr pf (JDict (unsigned_document m'))"
    and "msg_signature m' = Some sig" "verify_signature E fr m' ring = Inr True"
  shows "m'\<lparr>msg_payload := sort_dict (msg_payload m')\<rparr> = m\<lparr>msg_payload := sort_dict (msg_payload m)\<rparr>"
proof -
  obtain key data where k: "map_of ring (msg_sender m') = Some key" "canonical_bytes fr m' = Inr data"
    "verify_raw E (public_raw key) sig data"
    using assms(6,7) by (auto simp: verify_signature_True)
  have "key \<in> snd ` set ring" using k(1) by (force dest: map_of_SomeD)
  then have "data = b" using assms(3) k(3) by blast
  then have "sort_json (JDict (unsigned_document m')) = sort_json (JDict (unsigned_document m))"
    using assms(1) k(2) unfolding canonical_bytes_def
    by (intro canonical_json_bytes_inj [OF assms(5,4), of b]) simp_all
  then show ?thesis using assms(2,6) by (intro unsigned_document_inj) simp_all
qed

subsection \<open>Bounds of decoded messages\<close>

definition message_valid :: "message \<Rightarrow> bool" where
  "message_valid m \<longleftrightarrow>
     msg_type m \<noteq> [] \<and> len (msg_type m) \<le> MAX_MESSAGE_TYPE_LENGTH \<and>
     msg_sender m \<noteq> [] \<and> len (msg_sender m) \<le> MAX_PEER_ID_LENGTH \<and>
     (\<forall>t \<in> set_option (msg_timestamp m). isfinite t) \<and>
     (\<forall>n \<in> set_option (msg_nonce m). n \<noteq> [] \<and> len n \<le> 128) \<and>
     (\<forall>s \<in> set_option (msg_signature m). length s \<le> 64)"

lemma malformed_Inr [simp]: "malformed r = Inr x \<longleftrightarrow> r = Inr x"
  by (cases r rule: malformed.cases) simp_all

lemma decode_fields_Inr:
  assumes "decode_fields d = Inr m"
  shows "message_valid m" "jget d ''payload'' = JDict (msg_payload m)"
proof -
  obtain ts where f: "nonempty_str MAX_MESSAGE_TYPE_LENGTH (jget d ''msg_type'') = Inr (msg_type m)"
    "nonempty_str MAX_PEER_ID_LENGTH (jget d ''sender_id'') = Inr (msg_sender m)"
    "as_dict (jget d ''payload'') = Inr (msg_payload m)"
    "optional (nonempty_str 128) (jget d ''nonce'') = Inr (msg_nonce m)"
    "optional (\<lambda>j. rbind (exact_str 128 j) hex_bytes) (jget d ''signature'') = Inr (msg_signature m)"
    "msg_timestamp m = map_option Fin ts"
    using assms unfolding decode_fields_def rbind_Inr_iff by auto
  show "jget d ''payload'' = JDict (msg_payload m)"
    using f(3) by (cases "jget d ''payload''") simp_all
  show "message_valid m"
    using f(1,2,6) optional_Inr [OF f(4)] optional_Inr [OF f(5)] read_bytes_Inr(2)
    by (auto simp: message_valid_def nonempty_str_Inr)
qed

lemma plain_int_errors: "ValueError \<in> E \<Longrightarrow> raises_only E (plain_int j)"
  by (cases j) (auto simp: raises_only_def)

lemma decode_fields_errors: "raises_only {ValueError, OverflowError} (decode_fields d)"
  unfolding decode_fields_def
  by (intro raises_only_rules read_errors read_composite_errors read_lease_expiry_errors plain_int_errors) simp_all

lemma malformed_errors:
  "raises_only {ValueError, OverflowError} r \<Longrightarrow> raises_only {MessageDecodeError, OverflowError} (malformed r)"
  by (cases r rule: malformed.cases) (auto simp: raises_only_def)

lemma validate_errors: "0 \<le> lim_items lm \<Longrightarrow> raises_only {MessageDecodeError} (validate_json_tree lm j)"
  using validate_loop_verdict [of 0 lm "[(j, 0)]"]
  by (simp add: validate_json_tree_def verdict_def raises_only_def)

lemma validate_Inr: "0 \<le> lim_items lm \<Longrightarrow> validate_json_tree lm j = Inr u \<longleftrightarrow> tree_ok lm 0 j \<and> json_items j \<le> lim_items lm"
  using validate_loop_verdict [of 0 lm "[(j, 0)]"]
  by (simp add: validate_json_tree_def verdict_def)

lemma from_bytes_errors:
  assumes "0 \<le> max_json_items c"
  shows "raises_only {MessageDecodeError, OverflowError} (from_bytes pf data c)"
proof -
  have v: "raises_only {MessageDecodeError, OverflowError} (validate_json_tree (config_limits c) j)" for j
    using validate_errors [of "config_limits c" j] assms by (auto simp: config_limits_def raises_only_def)
  have d: "raises_only {MessageDecodeError, OverflowError} (malformed (rbind (as_dict j) decode_fields))" for j
    by (intro malformed_errors raises_only_rules read_errors decode_fields_errors) simp
  show ?thesis unfolding from_bytes_def
    by (intro raises_only_rules v d) (auto simp: raises_only_def require_def split: option.splits)
qed


subsection \<open>Concrete instances\<close>

definition sample_message :: message where
  "sample_message = (Message ''credit'' ''a'' [(''amount'', JInt 1)] 2)
     \<lparr>msg_timestamp := Some (Fin (1 / 2)), msg_nonce := Some ''n'', msg_signature := Some (replicate 64 0)\<rparr>"

lemma sample_message_fields [simp]:
  "msg_type sample_message = ''credit''" "msg_sender sample_message = ''a''"
  "msg_payload sample_message = [(''amount'', JInt 1)]" "msg_version sample_message = 2"
  "msg_timestamp sample_message = Some (Fin (1 / 2))" "msg_nonce sample_message = Some ''n''"
  "msg_signature sample_message = Some (replicate 64 0)"
  by (simp_all add: sample_message_def Message_def)

lemma sample_message_printable:
  "printable sample_repr sample_parse (JDict (unsigned_document sample_message))"
  "printable sample_repr sample_parse (wire_document sample_message)"
  by (simp_all add: wire_document_def unsigned_document_def printable_def hex_json_def sample_float_text_ok
      max_str_digits_def dec_nat.simps)

lemma length_utf8_encode_le: "length (utf8_encode s) \<le> 2 * length s"
  by (induction s) (auto simp: utf8_encode_def utf8_char_def)

lemma sample_message_valid:
  "validate_json_tree envelope_limits (JDict (msg_payload sample_message)) = Inr ()"
  "validate_json_tree (config_limits default_security_config) (wire_document sample_message) = Inr ()"
proof -
  have "length (utf8_encode (hex_of (replicate 64 0))) \<le> 2 * 128"
    using length_utf8_encode_le [of "hex_of (replicate 64 0)"] by simp
  then show "validate_json_tree envelope_limits (JDict (msg_payload sample_message)) = Inr ()"
    "validate_json_tree (config_limits default_security_config) (wire_document sample_message) = Inr ()"
    by (simp_all add: validate_Inr envelope_limits_def config_limits_def default_security_config_def
        wire_document_def unsigned_document_def hex_json_def) (simp_all add: utf8_encode_def utf8_char_def)
qed

lemma length_quote: "length (quote a s) \<le> 6 * length s + 2"
proof -
  have "length (escape_char a c) \<le> 6" for c by (simp add: escape_char_def)
  then have "length (concat (map (escape_char a) s)) \<le> 6 * length s"
    by (induction s) (simp_all add: add_mono order_trans [OF add_mono])
  then show ?thesis by (simp add: quote_def)
qed

lemma sample_message_bytes:
  "\<exists>b. to_bytes sample_repr (max_frame_size default_security_config) sample_message = Inr b"
proof -
  let ?t = "dump sample_repr False (sort_json (wire_document sample_message))"
  have "length ?t \<le> 2000"
    using length_quote [of False "hex_of (replicate 64 0)"]
    by (simp add: wire_document_def unsigned_document_def sort_key_simps hex_json_def sample_repr_def quote_def
        escape_char_def dec_int_def dec_nat.simps)
  then have "length (utf8_encode ?t) \<le> 4000" using length_utf8_encode_le [of ?t] by linarith
  moreover have "dumpable (wire_document sample_message)"
    using sample_message_printable(2) by (simp add: printable_def)
  ultimately show ?thesis
    using sample_message_valid(1)
    by (simp add: to_bytes_Inr canonical_json_bytes_Inr MAX_MESSAGE_TYPE_LENGTH_def MAX_PEER_ID_LENGTH_def
        default_security_config_def MAX_FRAME_SIZE_def)
qed

lemma sample_message_decodes:
  "\<exists>b. from_bytes sample_parse (drop 4 b) default_security_config = Inr sample_message"
proof -
  obtain b where b: "to_bytes sample_repr (max_frame_size default_security_config) sample_message = Inr b"
    using sample_message_bytes by blast
  have "sort_dict (msg_payload sample_message) = msg_payload sample_message" by (simp add: sort_dict_def)
  then have "sample_message\<lparr>msg_payload := sort_dict (msg_payload sample_message)\<rparr> = sample_message" by simp
  then show ?thesis
    using wire_roundtrip [OF b _ _ sample_message_printable(2) sample_message_valid(2)]
    by (auto simp: default_security_config_def)
qed

theorem message_wire_roundtrip_witness:
  "\<exists>b. to_bytes sample_repr (max_frame_size default_security_config) sample_message = Inr b \<and>
     from_bytes sample_parse (drop 4 b) default_security_config = Inr sample_message"
proof -
  obtain b where b: "to_bytes sample_repr (max_frame_size default_security_config) sample_message = Inr b"
    using sample_message_bytes by blast
  have "sort_dict (msg_payload sample_message) = msg_payload sample_message" by (simp add: sort_dict_def)
  then have "sample_message\<lparr>msg_payload := sort_dict (msg_payload sample_message)\<rparr> = sample_message" by simp
  then show ?thesis
    using message_wire_roundtrip [OF b _ _ sample_message_printable(2) sample_message_valid(2)] b
    by (simp add: default_security_config_def)
qed

theorem altered_message_rejected_witness:
  "\<exists>b. canonical_bytes sample_repr sample_message = Inr b \<and>
     verify_signature (sample_binding b) sample_repr sample_message [(''a'', PublicKey [7])] = Inr True \<and>
     verify_signature (sample_binding b) sample_repr (sample_message\<lparr>msg_nonce := Some ''m''\<rparr>)
       [(''a'', PublicKey [7])] \<noteq> Inr True"
proof -
  let ?m = "sample_message\<lparr>msg_nonce := Some ''m''\<rparr>"
  obtain b where b: "canonical_bytes sample_repr sample_message = Inr b"
    using sample_message_printable(1) by (simp add: canonical_bytes_def canonical_json_bytes_Inr printable_def)
  have p: "printable sample_repr sample_parse (JDict (unsigned_document ?m))"
    using sample_message_printable(1) by (simp add: unsigned_document_def printable_def)
  have "verify_signature (sample_binding b) sample_repr ?m [(''a'', PublicKey [7])] \<noteq> Inr True"
  proof
    assume a: "verify_signature (sample_binding b) sample_repr ?m [(''a'', PublicKey [7])] = Inr True"
    have "?m\<lparr>msg_payload := sort_dict (msg_payload ?m)\<rparr> =
        sample_message\<lparr>msg_payload := sort_dict (msg_payload sample_message)\<rparr>"
      by (rule altered_message_rejected [OF b _ _ sample_message_printable(1) p _ a])
         (simp_all add: sample_binding_def)
    then have "msg_nonce ?m = msg_nonce sample_message" by (metis message.ext_inject message.surjective message.update_convs(3))
    then show False by simp
  qed
  moreover have "verify_signature (sample_binding b) sample_repr sample_message [(''a'', PublicKey [7])] = Inr True"
    using b by (simp add: verify_signature_True sample_binding_def)
  ultimately show ?thesis using b by blast
qed


end
