(* ===== verification/Message_Guard.thy ===== *)
theory Message_Guard
  imports Message
begin

section \<open>Admission of messages\<close>

text \<open>
  A node (\<^verbatim>\<open>PeerNode._authenticate_message\<close>), a TCP transport
  (\<^verbatim>\<open>TcpTransport._verify_message\<close>) and discovery (\<^verbatim>\<open>PeerDiscovery._listen_loop\<close>) admit messages by
  the same discipline: the envelope must be
  genuine, fresh, and carry a nonce the replay cache has not seen. The locale states this
  discipline as a contract on the admission function and derives what it gives: every admitted
  message is genuine, and none is admitted twice within the replay window.
\<close>

subsection \<open>What the three users of the discipline share\<close>

text \<open>
  The check that a node, a transport and the discovery service make on the key ring they are
  given: their own key is added, or is the one already there.
\<close>

definition own_key :: "ed25519 \<Rightarrow> key_ring \<Rightarrow> string \<Rightarrow> key_pair \<Rightarrow> key_ring result" where
  "own_key E ring nid key =
     (case get_peer_key ring nid of
        None \<Rightarrow> add_peer E ring nid (KeyObject (public_key_of E key))
      | Some k \<Rightarrow> if public_to_bytes k \<noteq> public_to_bytes (public_key_of E key) then Inl ValueError else Inr ring)"

text \<open>A finite duration of the configuration; \<^verbatim>\<open>SecurityConfig\<close> refuses every other one.\<close>

fun seconds :: "pyfloat \<Rightarrow> real" where
  "seconds (Fin x) = x"
| "seconds _ = 0"

text \<open>\<^verbatim>\<open>abs(now - timestamp) > window\<close> on floats.\<close>

fun outside_window :: "real \<Rightarrow> real \<Rightarrow> pyfloat \<Rightarrow> bool" where
  "outside_window w now (Fin t) = (\<bar>now - t\<bar> > w)"
| "outside_window w now NaN = False"
| "outside_window w now _ = True"

text \<open>The envelope verifies under the key of its claimed sender and has the configured version.\<close>

definition genuine_for :: "ed25519 \<Rightarrow> (real \<Rightarrow> string) \<Rightarrow> key_ring \<Rightarrow> int \<Rightarrow> message \<Rightarrow> bool" where
  "genuine_for E fr ring v m \<longleftrightarrow> msg_version m = v \<and> verify_signature E fr m ring = Inr True"

lemma outside_window_False:
  "\<not> outside_window w now ts \<Longrightarrow> ts \<noteq> NaN \<Longrightarrow> \<exists>t. ts = Fin t \<and> \<bar>now - t\<bar> \<le> w"
  by (cases ts) auto

lemma verify_signature_not_nan:
  "verify_signature E fr m ring = Inr True \<Longrightarrow> msg_timestamp m \<noteq> Some NaN"
  by (auto simp: verify_signature_True canonical_bytes_def canonical_json_bytes_Inr unsigned_document_def)

subsection \<open>The contract\<close>

definition fresh_at :: "real \<Rightarrow> real \<Rightarrow> message \<Rightarrow> bool" where
  "fresh_at w now m \<longleftrightarrow> (\<exists>t. msg_timestamp m = Some (Fin t) \<and> \<bar>now - t\<bar> \<le> w)"

locale message_guard =
  fixes guard :: "'s \<Rightarrow> 'a \<Rightarrow> message \<Rightarrow> real \<Rightarrow> (bool \<times> 's) result"
    and active :: "'s \<Rightarrow> bool"
    and cache :: "'s \<Rightarrow> replay_cache"
    and window :: "'s \<Rightarrow> real"
    and genuine :: "'s \<Rightarrow> message \<Rightarrow> bool"
  assumes accepted: "active s \<Longrightarrow> guard s a m now = Inr (True, s') \<Longrightarrow>
      genuine s m \<and> fresh_at (window s) now m \<and>
      (\<exists>n. msg_nonce m = Some n \<and>
        check_and_remember (cache s) (msg_sender m) n now (window s) = (True, cache s'))"
    and refused: "active s \<Longrightarrow> guard s a m now = Inr (False, s') \<Longrightarrow>
      cache s' = cache s \<or>
      (\<exists>n. check_and_remember (cache s) (msg_sender m) n now (window s) = (False, cache s'))"
    and stable: "active s \<Longrightarrow> guard s a m now = Inr (b, s') \<Longrightarrow>
      active s' \<and> window s' = window s \<and> genuine s' = genuine s"
begin

text \<open>The answers to a sequence of arrivals.\<close>

fun guards :: "'s \<Rightarrow> ('a \<times> message \<times> real) list \<Rightarrow> (bool list \<times> 's) result" where
  "guards s [] = Inr ([], s)"
| "guards s ((a, m, now) # arrivals) =
     rbind (guard s a m now) (\<lambda>(b, s').
     rbind (guards s' arrivals) (\<lambda>(bs, s''). Inr (b # bs, s'')))"

lemma guards_Cons:
  assumes "guards s ((a, m, now) # arrivals) = Inr (bs, s'')"
  obtains b s' bs' where "guard s a m now = Inr (b, s')" "guards s' arrivals = Inr (bs', s'')" "bs = b # bs'"
  using assms by (auto simp: rbind_Inr_iff)

lemma guards_stable:
  "active s \<Longrightarrow> guards s arrivals = Inr (bs, s') \<Longrightarrow>
   active s' \<and> window s' = window s \<and> genuine s' = genuine s"
proof (induction s arrivals arbitrary: bs rule: guards.induct)
  case (2 s a m now arrivals)
  then show ?case by (elim guards_Cons) (metis stable)
qed simp

lemma admitted_genuine:
  "active s \<Longrightarrow> guards s arrivals = Inr (bs, s') \<Longrightarrow>
   \<forall>((a, m, now), b) \<in> set (zip arrivals bs). b \<longrightarrow> genuine s m \<and> fresh_at (window s) now m"
proof (induction s arrivals arbitrary: bs rule: guards.induct)
  case (2 s a m now arrivals)
  obtain b s1 bs' where step: "guard s a m now = Inr (b, s1)" "guards s1 arrivals = Inr (bs', s')" "bs = b # bs'"
    using 2(3) by (elim guards_Cons)
  note st = stable [OF 2(2) step(1)]
  then show ?case
    using 2(1) [of s1 bs'] accepted [OF 2(2)] step by auto
qed auto

lemma remembered_guard:
  assumes "active s" "guard s a m now = Inr (b, s')" "remembered (cache s) key t newer"
    and "b \<longrightarrow> newer + 1 < max_entries (cache s)" "now - window s \<le> t"
  shows "remembered (cache s') key t (newer + (if b then 1 else 0)) \<and> max_entries (cache s') = max_entries (cache s)"
proof (cases b)
  case True
  then show ?thesis
    using accepted [OF assms(1), of a m now s'] assms(2) remembered_check [OF assms(3-5)] by auto
next
  case False
  then consider "cache s' = cache s"
    | n where "check_and_remember (cache s) (msg_sender m) n now (window s) = (False, cache s')"
    using refused [OF assms(1), of a m now s'] assms(2) by auto
  then show ?thesis
    using False assms(3) remembered_check [OF assms(3) _ assms(5), where b = False] by cases auto
qed

lemma remembered_guards:
  assumes "active s" "guards s arrivals = Inr (bs, s')" "remembered (cache s) key t newer"
    and "newer + len (filter id bs) < max_entries (cache s)"
    and "\<forall>(a, m, now) \<in> set arrivals. now - window s \<le> t"
  shows "\<exists>newer'. remembered (cache s') key t newer'"
  using assms
proof (induction s arrivals arbitrary: newer bs rule: guards.induct)
  case (2 s a m now arrivals)
  obtain b s1 bs' where step: "guard s a m now = Inr (b, s1)" "guards s1 arrivals = Inr (bs', s')" "bs = b # bs'"
    using 2(3) by (elim guards_Cons)
  have "remembered (cache s1) key t (newer + (if b then 1 else 0)) \<and> max_entries (cache s1) = max_entries (cache s)"
    using 2(5,6) step(3) by (intro remembered_guard [OF 2(2) step(1) 2(4)]) auto
  then show ?case
    using 2(1) [of s1 bs' "newer + (if b then 1 else 0)"] 2(5,6) step(2,3)
      stable [OF 2(2) step(1)] by (cases b) auto
qed auto

text \<open>Injective agreement: within the window no nonce of a sender is admitted twice.\<close>

lemma no_replay:
  assumes "active s" "0 < max_entries (cache s)" "guard s a m t = Inr (True, s1)"
    and "guards s1 arrivals = Inr (bs, s2)" "len (filter id bs) < max_entries (cache s)"
    and "\<forall>(a, m, now) \<in> set arrivals. now - window s \<le> t"
    and "msg_sender m' = msg_sender m" "msg_nonce m' = msg_nonce m" "now - window s \<le> t"
  shows "guard s2 a' m' now \<noteq> Inr (True, s3)"
proof
  assume b: "guard s2 a' m' now = Inr (True, s3)"
  obtain n where n: "msg_nonce m = Some n"
    "check_and_remember (cache s) (msg_sender m) n t (window s) = (True, cache s1)"
    using accepted [OF assms(1,3)] by blast
  note s1 = stable [OF assms(1,3)] accepted_remembered [OF assms(2) n(2)]
  obtain newer where r: "remembered (cache s2) (msg_sender m, n) t newer"
    using remembered_guards [of s1 arrivals bs s2 "(msg_sender m, n)" t 0] s1 assms(4-6) by auto
  have s2: "active s2" "window s2 = window s"
    using guards_stable [OF _ assms(4)] s1 by simp_all
  then have "check_and_remember (cache s2) (msg_sender m) n now (window s) = (True, cache s3)"
    using accepted [OF s2(1) b] n(1) assms(7,8) by auto
  then show False using remembered_rejected [OF r assms(9)] by simp
qed

end

end
