(* ===== verification/Peer_Node.thy ===== *)
theory Peer_Node
  imports Sim_Clock Backpressure_Queue Credit_Flow Record_Merge Wal Metrics Failure_Detector Message_Guard
begin

section \<open>The peer node (node.py)\<close>

text \<open>
  The coordinator of a peer: its task store, ready queue, vector clock, failure detector,
  counters, credit windows, replay cache and log, and the body of every handler and background
  loop between two suspensions. A handler returns the new state and, if an exception leaves
  it, that exception; the messages handed to the transport are collected in \<open>n_sent\<close>, since
  every failure of \<^verbatim>\<open>transport.send\<close> is suppressed by the code. Readings of the two clocks and
  the nonces drawn for outgoing messages are arguments.
\<close>

text \<open>
  What the node uses of the runtime and of third-party code: the Ed25519 primitives,
  \<^verbatim>\<open>repr\<close> and \<^verbatim>\<open>float\<close> on floats, \<^verbatim>\<open>math.erfc\<close>, \<^verbatim>\<open>hashlib.sha256\<close>, and, for the lease hint
  in a task payload, \<^verbatim>\<open>json.loads\<close> of its bytes with the default treatment of constants and
  \<^verbatim>\<open>float\<close> of a string (no value: an exception).
\<close>

record py_env =
  env_ed :: ed25519
  env_repr :: "real \<Rightarrow> string"
  env_parse :: "string \<Rightarrow> pyfloat"
  env_erfc :: "real \<Rightarrow> real"
  env_sha256 :: "bytes \<Rightarrow> bytes"
  env_loads :: "bytes \<Rightarrow> json option"
  env_float :: "string \<Rightarrow> pyfloat option"

subsection \<open>Election of a reclaimer\<close>

definition score :: "py_env \<Rightarrow> string \<Rightarrow> string \<Rightarrow> nat" where
  "score V tid p = un_be32 (take 8 (env_sha256 V (utf8_encode (tid @ '':'' @ p))))"

text \<open>\<^verbatim>\<open>max(candidates, key=score)\<close>: the first candidate of the highest score.\<close>

fun max_by :: "('a \<Rightarrow> nat) \<Rightarrow> 'a \<Rightarrow> 'a list \<Rightarrow> 'a" where
  "max_by f best [] = best"
| "max_by f best (x # xs) = max_by f (if f x > f best then x else best) xs"

definition rendezvous_reclaimer :: "py_env \<Rightarrow> string \<Rightarrow> string list \<Rightarrow> string option" where
  "rendezvous_reclaimer V tid candidates =
     (case candidates of [] \<Rightarrow> None | c # cs \<Rightarrow> Some (max_by (score V tid) c cs))"

subsection \<open>State\<close>

record node =
  n_id :: string
  n_identity :: key_pair
  n_ring :: key_ring
  n_security :: security_config
  n_peers :: "string list"
  n_handler :: bool
  n_lease :: real
  n_max_tasks :: int
  n_replay :: replay_cache
  n_tasks :: "(string, task_record) dict"
  n_queue :: "string bp_queue"
  n_queued :: "string set"
  n_clock :: vector_clock
  n_detector :: detector
  n_metrics :: metrics
  n_flow :: credit_flow
  n_wal :: "wal option"
  n_running :: bool
  n_sent :: "(string \<times> message) list"

type_synonym outcome = "node \<times> py_error option"

text \<open>Sequencing: an exception ends the handler with the state reached so far.\<close>

fun and_then :: "outcome \<Rightarrow> (node \<Rightarrow> outcome) \<Rightarrow> outcome" where
  "and_then (n, None) f = f n"
| "and_then (n, Some e) f = (n, Some e)"

text \<open>
  Construction. \<open>key\<close> is the given or generated identity; \<open>env\<close> is \<^verbatim>\<open>float\<close> of
  \<^verbatim>\<open>PEERQ_LEASE_DURATION\<close>, if set and a finite number. The deduplication of the peers keeps the
  first occurrence.
\<close>

definition dict_fromkeys :: "string list \<Rightarrow> string list" where
  "dict_fromkeys xs = rev (remdups (rev xs))"

definition PeerNode ::
  "ed25519 \<Rightarrow> string \<Rightarrow> string list \<Rightarrow> bool \<Rightarrow> real option \<Rightarrow> real option \<Rightarrow> int \<Rightarrow> int \<Rightarrow> wal option \<Rightarrow>
   key_pair \<Rightarrow> key_ring \<Rightarrow> security_config \<Rightarrow> int \<Rightarrow> node result" where
  "PeerNode E nid peers handler lease env max_queue_size initial_credits wlog key ring sec max_tasks_arg =
     rbind (require (nid \<noteq> [] \<and> len nid \<le> MAX_PEER_ID_LENGTH) ValueError) (\<lambda>_.
     let others = dict_fromkeys (filter (\<lambda>p. p \<noteq> nid) peers);
         lease1 = (if lease = None \<or> lease = Some 5 then (case env of None \<Rightarrow> lease | Some x \<Rightarrow> Some x) else lease);
         lease2 = (case lease1 of None \<Rightarrow> 5 | Some x \<Rightarrow> x)
     in
     rbind (require (\<forall>p \<in> set others. p \<noteq> [] \<and> len p \<le> MAX_PEER_ID_LENGTH) ValueError) (\<lambda>_.
     rbind (own_key E ring nid key) (\<lambda>ring'.
     rbind (require (0 < max_tasks_arg) ValueError) (\<lambda>_.
     rbind (ReplayCache (replay_cache_size sec)) (\<lambda>cache.
     rbind (MetricsCollector 7) (\<lambda>mc.
     Inr \<lparr>n_id = nid, n_identity = key, n_ring = ring', n_security = sec, n_peers = others,
          n_handler = handler, n_lease = lease2, n_max_tasks = max_tasks_arg, n_replay = cache,
          n_tasks = [], n_queue = init_queue max_queue_size REJECT_ON_FULL, n_queued = {},
          n_clock = VectorClock [(nid, 0)], n_detector = PhiAccrualDetector 1000 5 (1 / 10000),
          n_metrics = mc,
          n_flow = fold (\<lambda>p fc. init_peer fc p (Some initial_credits)) others (init_flow initial_credits),
          n_wal = wlog, n_running = False, n_sent = []\<rparr>))))))"

subsection \<open>Helpers of the handlers\<close>

definition count :: "string \<Rightarrow> node \<Rightarrow> node" where
  "count name n = n\<lparr>n_metrics := increment_counter (n_metrics n) name 1\<rparr>"

definition suspected :: "py_env \<Rightarrow> node \<Rightarrow> string \<Rightarrow> real \<Rightarrow> bool result" where
  "suspected V n p now = is_suspected (env_erfc V) (n_detector n) p 8 now"

definition seal_record :: "py_env \<Rightarrow> node \<Rightarrow> task_record \<Rightarrow> task_record result" where
  "seal_record V n r =
     (if \<not> enabled (n_security n) then Inr r else sign_task (env_ed V) (n_identity n) r (n_id n))"

definition signed_message ::
  "py_env \<Rightarrow> node \<Rightarrow> string \<Rightarrow> (string, json) dict \<Rightarrow> real \<Rightarrow> string \<Rightarrow> message result" where
  "signed_message V n ty pl wall token =
     signed (env_ed V) (env_repr V) (n_identity n) (Fin wall) token None
       (Message ty (n_id n) pl (protocol_version (n_security n)))"

definition authenticate_message ::
  "py_env \<Rightarrow> node \<Rightarrow> string \<Rightarrow> message \<Rightarrow> real \<Rightarrow> (bool \<times> node) result" where
  "authenticate_message V n sender m wall =
     (if \<not> enabled (n_security n) then Inr (True, n)
      else if sender \<noteq> msg_sender m then Inr (False, n)
      else if msg_version m \<noteq> protocol_version (n_security n) then Inr (False, n)
      else if msg_type m \<notin> {''heartbeat'', ''gossip'', ''credit''} then Inr (False, n)
      else if \<not> has_peer (n_ring n) sender then Inr (False, n)
      else
        rbind (verify_signature (env_ed V) (env_repr V) m (n_ring n)) (\<lambda>ok.
          if \<not> ok then Inr (False, n)
          else
            (case (msg_timestamp m, msg_nonce m) of
               (Some ts, Some nonce) \<Rightarrow>
                 if outside_window (seconds (replay_window_seconds (n_security n))) wall ts then Inr (False, n)
                 else
                   (let (b, c) = check_and_remember (n_replay n) sender nonce wall
                                   (seconds (replay_window_seconds (n_security n)))
                    in Inr (b, n\<lparr>n_replay := c\<rparr>))
             | _ \<Rightarrow> Inr (False, n))))"

definition get_task :: "node \<Rightarrow> string \<Rightarrow> task_record option" where
  "get_task n tid = map_of (n_tasks n) tid"

definition all_tasks :: "node \<Rightarrow> (string, task_record) dict" where
  "all_tasks n = n_tasks n"

definition store_task :: "string \<Rightarrow> task_record \<Rightarrow> node \<Rightarrow> node" where
  "store_task tid r n = n\<lparr>n_tasks := AList.update tid r (n_tasks n)\<rparr>"

text \<open>\<^verbatim>\<open>with suppress(QueueFull): put_nowait(...); _queued_task_ids.add(...)\<close>\<close>

definition enqueue :: "string \<Rightarrow> int \<Rightarrow> node \<Rightarrow> node" where
  "enqueue tid prio n =
     (case put_nowait (n_queue n) tid prio of
        Inl _ \<Rightarrow> n
      | Inr q \<Rightarrow> n\<lparr>n_queue := q, n_queued := insert tid (n_queued n)\<rparr>)"

text \<open>Task and clock appended to the log, if there is one.\<close>

definition log_update :: "py_env \<Rightarrow> task_record \<Rightarrow> node \<Rightarrow> outcome" where
  "log_update V r n =
     (case n_wal n of
        None \<Rightarrow> (n, None)
      | Some w \<Rightarrow>
          (case append_task (env_repr V) w r of
             Inl e \<Rightarrow> (n, Some e)
           | Inr (_, w1) \<Rightarrow>
               (case append_clock (env_repr V) w1 (n_clock n) of
                  Inl e \<Rightarrow> (n\<lparr>n_wal := Some w1\<rparr>, Some e)
                | Inr (_, w2) \<Rightarrow> (n\<lparr>n_wal := Some w2\<rparr>, None))))"

definition send_all :: "string list \<Rightarrow> message \<Rightarrow> node \<Rightarrow> node" where
  "send_all ps m n = n\<lparr>n_sent := n_sent n @ map (\<lambda>p. (p, m)) ps\<rparr>"

definition store_full :: "node \<Rightarrow> string \<Rightarrow> bool" where
  "store_full n tid \<longleftrightarrow> \<not> has_key (n_tasks n) tid \<and> len (n_tasks n) \<ge> n_max_tasks n"

definition merge_ring :: "node \<Rightarrow> key_ring option" where
  "merge_ring n = (if enabled (n_security n) then Some (n_ring n) else None)"

text \<open>The fields \<^verbatim>\<open>TaskRecord\<close> gets where a node creates a record.\<close>

definition new_record ::
  "string \<Rightarrow> task_state \<Rightarrow> bytes \<Rightarrow> string option \<Rightarrow> fence_token \<Rightarrow> real \<Rightarrow> vector_clock \<Rightarrow> string \<Rightarrow> task_record" where
  "new_record tid st pl owner tok lease vc by_id =
     \<lparr>task_id = tid, state = st, payload = pl, result = None, error = None, claimed_by = owner,
      fence_token = tok, lease_expiry = lease, vector_clock = vc, updated_by = by_id,
      signature = None, signer_id = None\<rparr>"

subsection \<open>Recovery\<close>

text \<open>
  \<^verbatim>\<open>VectorClock(payload)\<close> on a parsed value: a falsy value is no clock, a value without
  \<^verbatim>\<open>items\<close> raises \<^verbatim>\<open>AttributeError\<close>, and a counter that cannot be compared with zero
  \<^verbatim>\<open>TypeError\<close>. Counters are integers here; the program writes no other.
\<close>

fun falsy :: "json \<Rightarrow> bool" where
  "falsy JNull = True"
| "falsy (JBool b) = (\<not> b)"
| "falsy (JInt i) = (i = 0)"
| "falsy (JFloat x) = (x = Fin 0)"
| "falsy (JStr s) = (s = [])"
| "falsy (JList xs) = (xs = [])"
| "falsy (JDict d) = (d = [])"
| "falsy (JOther _) = False"

fun json_counters :: "(string, json) dict \<Rightarrow> (string, int) dict result" where
  "json_counters [] = Inr []"
| "json_counters ((k, JInt v) # d) = rbind (json_counters d) (\<lambda>cs. Inr ((k, v) # cs))"
| "json_counters ((k, _) # d) = Inl TypeError"

definition clock_of_json :: "json \<Rightarrow> vector_clock result" where
  "clock_of_json j =
     (case j of
        JDict d \<Rightarrow> rbind (json_counters d) (\<lambda>cs. Inr (VectorClock cs))
      | _ \<Rightarrow> if falsy j then Inr (VectorClock []) else Inl AttributeError)"

definition recover_clock :: "json \<Rightarrow> node \<Rightarrow> outcome" where
  "recover_clock j n =
     (case clock_of_json j of
        Inl e \<Rightarrow> if e = TypeError \<or> e = ValueError then (n, None) else (n, Some e)
      | Inr c \<Rightarrow> (n\<lparr>n_clock := vc_merge (n_clock n) c\<rparr>, None))"

text \<open>A parsed task enters the store, or is merged into the record of its key.\<close>

definition admit_recovered :: "py_env \<Rightarrow> string \<Rightarrow> task_record \<Rightarrow> node \<Rightarrow> outcome" where
  "admit_recovered V tid r n =
     (case map_of (n_tasks n) tid of
        None \<Rightarrow> (store_task tid r n, None)
      | Some old \<Rightarrow>
          (case merge_records (env_ed V) old r (merge_ring n) of
             Inl e \<Rightarrow> if e = ValueError then (n, None) else (n, Some e)
           | Inr merged \<Rightarrow> (store_task tid merged n, None)))"

text \<open>\<^verbatim>\<open>if self.security.enabled and not verify_task_authorization(...)\<close>; verification may raise.\<close>

definition unauthorized :: "py_env \<Rightarrow> node \<Rightarrow> task_record \<Rightarrow> bool result" where
  "unauthorized V n r =
     (if \<not> enabled (n_security n) then Inr False
      else rbind (verify_task_authorization (env_ed V) r (n_ring n)) (\<lambda>ok. Inr (\<not> ok)))"

definition recover_task :: "py_env \<Rightarrow> json \<Rightarrow> node \<Rightarrow> outcome" where
  "recover_task V j n =
     (case from_dict j of
        Inl e \<Rightarrow> if e = TypeError \<or> e = ValueError then (n, None) else (n, Some e)
      | Inr r \<Rightarrow>
          (case unauthorized V n r of
             Inl e \<Rightarrow> (n, Some e)
           | Inr bad \<Rightarrow>
               if bad \<or> store_full n (task_id r) then (n, None)
               else admit_recovered V (task_id r) r n))"

definition recover_snapshot_task :: "py_env \<Rightarrow> string \<Rightarrow> json \<Rightarrow> node \<Rightarrow> outcome" where
  "recover_snapshot_task V tid j n =
     (if store_full n tid then (n, None)
      else
        (case from_dict j of
           Inl e \<Rightarrow> if e = TypeError \<or> e = ValueError then (n, None) else (n, Some e)
         | Inr r \<Rightarrow>
             (case unauthorized V n r of
                Inl e \<Rightarrow> (n, Some e)
              | Inr bad \<Rightarrow> if bad then (n, None) else admit_recovered V tid r n)))"

fun recover_snapshot :: "py_env \<Rightarrow> (string, json) dict \<Rightarrow> node \<Rightarrow> outcome" where
  "recover_snapshot V [] n = (n, None)"
| "recover_snapshot V ((tid, j) # d) n =
     and_then (recover_snapshot_task V tid j n) (recover_snapshot V d)"

definition payload_get :: "json \<Rightarrow> string \<Rightarrow> json \<Rightarrow> json" where
  "payload_get j k dflt = (case j of JDict d \<Rightarrow> get_default d k dflt | _ \<Rightarrow> dflt)"

definition recover_record :: "py_env \<Rightarrow> wal_record \<Rightarrow> node \<Rightarrow> outcome" where
  "recover_record V rec n =
     (if record_type rec = RECORD_TASK then recover_task V (wal_payload rec) n
      else if record_type rec = RECORD_CLOCK then recover_clock (wal_payload rec) n
      else if record_type rec = RECORD_CHECKPOINT then
        (case payload_get (wal_payload rec) ''tasks'' (JDict []) of
           JDict raw_tasks \<Rightarrow>
             and_then (recover_snapshot V raw_tasks n)
               (recover_clock (payload_get (wal_payload rec) ''vector_clock'' (JDict [])))
         | _ \<Rightarrow> (n, None))
      else (n, None))"

fun recover_records :: "py_env \<Rightarrow> wal_record list \<Rightarrow> node \<Rightarrow> outcome" where
  "recover_records V [] n = (n, None)"
| "recover_records V (rec # recs) n = and_then (recover_record V rec n) (recover_records V recs)"

text \<open>Recovered tasks that remain pending are queued again.\<close>

definition requeue_pending :: "node \<Rightarrow> node" where
  "requeue_pending n =
     fold (\<lambda>(tid, r) n. if state r = PENDING \<and> tid \<notin> n_queued n then enqueue tid 0 n else n) (n_tasks n) n"

definition recover_from_wal :: "py_env \<Rightarrow> node \<Rightarrow> outcome" where
  "recover_from_wal V n =
     (case n_wal n of
        None \<Rightarrow> (n, None)
      | Some w \<Rightarrow>
          (let (recs, err) = replay (env_parse V) False w
           in and_then (recover_records V recs n)
                (\<lambda>n. case err of Some e \<Rightarrow> (n, Some e) | None \<Rightarrow> (requeue_pending n, None))))"

definition start :: "py_env \<Rightarrow> node \<Rightarrow> outcome" where
  "start V n =
     (if n_running n then (n, None)
      else (let n1 = n\<lparr>n_running := True\<rparr>
            in case n_wal n1 of None \<Rightarrow> (n1, None) | Some _ \<Rightarrow> recover_from_wal V n1))"

definition stop :: "node \<Rightarrow> node" where
  "stop n = n\<lparr>n_running := False, n_wal := map_option close_log (n_wal n)\<rparr>"

subsection \<open>Submission\<close>

definition submit_task :: "py_env \<Rightarrow> string \<Rightarrow> bytes \<Rightarrow> int \<Rightarrow> node \<Rightarrow> outcome" where
  "submit_task V tid pl priority n =
     (if tid = [] \<or> len tid > MAX_TASK_ID_LENGTH then (n, Some ValueError)
      else if len pl > MAX_TASK_PAYLOAD then (n, Some ValueError)
      else if store_full n tid then (count ''rejected'' n, Some QueueFull)
      else
        (let n1 = n\<lparr>n_clock := increment (n_clock n) (n_id n)\<rparr>
         in case seal_record V n1 (new_record tid PENDING pl None (FenceToken 0 []) 0 (n_clock n1) (n_id n)) of
              Inl e \<Rightarrow> (n1, Some e)
            | Inr r \<Rightarrow>
                and_then (log_update V r (count ''enqueued'' (store_task tid r n1))) (\<lambda>n2.
                  case put (n_queue n2) 0 tid priority of
                    Inl e \<Rightarrow> (count ''rejected'' n2, Some e)
                  | Inr (q, finished) \<Rightarrow>
                      (n2\<lparr>n_queue := q, n_queued := (if finished then insert tid (n_queued n2) else n_queued n2)\<rparr>,
                       None))))"

subsection \<open>Receiving\<close>

definition store_remote :: "py_env \<Rightarrow> string \<Rightarrow> task_record \<Rightarrow> node \<Rightarrow> node result" where
  "store_remote V tid r n =
     (case map_of (n_tasks n) tid of
        None \<Rightarrow> Inr (store_task tid r n)
      | Some local_rec \<Rightarrow>
          rbind (merge_records (env_ed V) local_rec r (merge_ring n)) (\<lambda>merged. Inr (store_task tid merged n)))"

definition requeue_if_pending :: "string \<Rightarrow> node \<Rightarrow> node" where
  "requeue_if_pending tid n =
     (case map_of (n_tasks n) tid of
        Some r \<Rightarrow> if state r = PENDING \<and> tid \<notin> n_queued n then enqueue tid 0 n else n
      | None \<Rightarrow> n)"

definition gossip_entry :: "py_env \<Rightarrow> string \<Rightarrow> string \<Rightarrow> json \<Rightarrow> node \<Rightarrow> outcome" where
  "gossip_entry V sender tid raw n =
     (case from_dict raw of
        Inl e \<Rightarrow> if e = TypeError \<or> e = ValueError then (count ''rejected'' n, None) else (n, Some e)
      | Inr r \<Rightarrow>
          if task_id r \<noteq> tid then (count ''rejected'' n, None)
          else if enabled (n_security n) \<and> signer_id r \<noteq> Some sender then (count ''rejected'' n, None)
          else
            (case unauthorized V n r of
               Inl e \<Rightarrow> (n, Some e)
             | Inr bad \<Rightarrow>
                 if bad \<or> store_full n tid then (count ''rejected'' n, None)
                 else
                   (case store_remote V tid r n of
                      Inl e \<Rightarrow> if e = ValueError then (count ''rejected'' n, None) else (n, Some e)
                    | Inr n1 \<Rightarrow>
                        (let n2 = requeue_if_pending tid n1;
                             n3 = n2\<lparr>n_clock := vc_merge (n_clock n2) (vector_clock r)\<rparr>
                         in log_update V (the (map_of (n_tasks n3) tid)) n3))))"

fun gossip_entries :: "py_env \<Rightarrow> string \<Rightarrow> (string, json) dict \<Rightarrow> node \<Rightarrow> outcome" where
  "gossip_entries V sender [] n = (n, None)"
| "gossip_entries V sender ((tid, raw) # d) n =
     and_then (gossip_entry V sender tid raw n) (gossip_entries V sender d)"

definition on_gossip :: "py_env \<Rightarrow> string \<Rightarrow> (string, json) dict \<Rightarrow> node \<Rightarrow> outcome" where
  "on_gossip V sender pl n =
     (case get_default pl ''tasks'' (JDict []) of
        JDict raw_tasks \<Rightarrow>
          if len raw_tasks > max_gossip_tasks (n_security n) then (count ''rejected'' n, None)
          else gossip_entries V sender raw_tasks n
      | _ \<Rightarrow> (count ''rejected'' n, None))"

definition on_credit :: "string \<Rightarrow> (string, json) dict \<Rightarrow> node \<Rightarrow> node" where
  "on_credit sender pl n =
     (case get_default pl ''amount'' (JInt 1) of
        JInt amount \<Rightarrow>
          if amount < 0 \<or> amount > max_credit_amount (n_security n) then count ''rejected'' n
          else n\<lparr>n_flow := replenish (n_flow n) sender amount\<rparr>
      | _ \<Rightarrow> count ''rejected'' n)"

text \<open>One turn of \<^verbatim>\<open>_recv_loop\<close>, with the message that \<^verbatim>\<open>transport.recv\<close> returned.\<close>

definition receive :: "py_env \<Rightarrow> string \<Rightarrow> message \<Rightarrow> real \<Rightarrow> real \<Rightarrow> node \<Rightarrow> outcome" where
  "receive V sender m now wall n =
     (case authenticate_message V n sender m wall of
        Inl e \<Rightarrow> (n, Some e)
      | Inr (False, n1) \<Rightarrow> (count ''rejected'' n1, None)
      | Inr (True, n1) \<Rightarrow>
          if msg_type m = ''heartbeat'' then (n1\<lparr>n_detector := heartbeat (n_detector n1) sender now\<rparr>, None)
          else if msg_type m = ''gossip'' then on_gossip V sender (msg_payload m) n1
          else if msg_type m = ''credit'' then (on_credit sender (msg_payload m) n1, None)
          else (n1, None))"

subsection \<open>Heartbeats and gossip\<close>

definition heartbeat_round :: "py_env \<Rightarrow> real \<Rightarrow> real \<Rightarrow> string \<Rightarrow> node \<Rightarrow> outcome" where
  "heartbeat_round V now wall token n =
     (case signed_message V n ''heartbeat'' [(''ts'', JFloat (Fin now))] wall token of
        Inl e \<Rightarrow> (n, Some e)
      | Inr m \<Rightarrow> (send_all (n_peers n) m n, None))"

definition gossip_payload :: "(string, task_record) dict \<Rightarrow> (string, json) dict" where
  "gossip_payload d = [(''tasks'', JDict (map (\<lambda>(tid, r). (tid, to_dict r)) d))]"

text \<open>\<^verbatim>\<open>sorted(self._tasks.items())[:max_gossip_tasks]\<close>; the keys are distinct.\<close>

definition gossip_items :: "node \<Rightarrow> (string, task_record) dict" where
  "gossip_items n = take (nat (max_gossip_tasks (n_security n))) (sort_key fst (n_tasks n))"

definition gossip_round :: "py_env \<Rightarrow> string \<Rightarrow> real \<Rightarrow> string \<Rightarrow> node \<Rightarrow> outcome" where
  "gossip_round V partner wall token n =
     (if n_peers n = [] \<or> n_tasks n = [] then (n, None)
      else case signed_message V n ''gossip'' (gossip_payload (gossip_items n)) wall token of
             Inl e \<Rightarrow> (n, Some e)
           | Inr m \<Rightarrow> (send_all [partner] m n, None))"

definition broadcast_task_update :: "py_env \<Rightarrow> string \<Rightarrow> task_record \<Rightarrow> real \<Rightarrow> string \<Rightarrow> node \<Rightarrow> outcome" where
  "broadcast_task_update V tid r wall token n =
     (case seal_record V n r of
        Inl e \<Rightarrow> (n, Some e)
      | Inr sealed \<Rightarrow>
          and_then (log_update V sealed (store_task tid sealed n)) (\<lambda>n1.
            case signed_message V n1 ''gossip'' (gossip_payload [(tid, sealed)]) wall token of
              Inl e \<Rightarrow> (n1, Some e)
            | Inr m \<Rightarrow> (send_all (n_peers n1) m n1, None)))"

subsection \<open>The worker\<close>

text \<open>What the worker keeps between its suspensions.\<close>

record job =
  job_task :: string
  job_token :: fence_token
  job_lease :: real
  job_payload :: bytes
  job_submitter :: string

text \<open>\<^verbatim>\<open>float(...)\<close> of the lease hint; no value stands for a suppressed exception.\<close>

definition py_float :: "py_env \<Rightarrow> json \<Rightarrow> pyfloat option" where
  "py_float V j =
     (case j of
        JInt i \<Rightarrow> (case float_of_int i of Inl _ \<Rightarrow> None | Inr x \<Rightarrow> Some (Fin x))
      | JFloat x \<Rightarrow> Some x
      | JBool b \<Rightarrow> Some (Fin (if b then 1 else 0))
      | JStr s \<Rightarrow> env_float V s
      | _ \<Rightarrow> None)"

definition payload_lease :: "py_env \<Rightarrow> real \<Rightarrow> bytes \<Rightarrow> pyfloat" where
  "payload_lease V default_lease pl =
     (case env_loads V pl of
        Some (JDict d) \<Rightarrow>
          (case map_of d ''lease_duration'' of
             None \<Rightarrow> Fin default_lease
           | Some j \<Rightarrow> (case py_float V j of None \<Rightarrow> Fin default_lease | Some x \<Rightarrow> x))
      | _ \<Rightarrow> Fin default_lease)"

definition task_lease :: "py_env \<Rightarrow> node \<Rightarrow> bytes \<Rightarrow> real" where
  "task_lease V n pl =
     (case payload_lease V (n_lease n) pl of
        Fin x \<Rightarrow> if x \<le> 0 \<or> x > seconds (max_lease_duration_seconds (n_security n)) then n_lease n else x
      | _ \<Rightarrow> n_lease n)"

definition in_progress :: "task_record \<Rightarrow> bool" where
  "in_progress r \<longleftrightarrow> state r = CLAIMED \<or> state r = RUNNING"

definition holder :: "task_record \<Rightarrow> string" where
  "holder r = (case claimed_by r of None \<Rightarrow> [] | Some p \<Rightarrow> p)"

definition active_claim :: "py_env \<Rightarrow> node \<Rightarrow> real \<Rightarrow> task_record \<Rightarrow> bool result" where
  "active_claim V n now r =
     (if in_progress r \<and> claimed_by r \<noteq> Some (n_id n) \<and> lease_expiry r > now
      then rbind (suspected V n (holder r) now) (\<lambda>s. Inr (\<not> s))
      else Inr False)"

text \<open>The worker takes the next identifier from the queue, or parks on it.\<close>

definition worker_take :: "nat \<Rightarrow> node \<Rightarrow> string option \<times> node" where
  "worker_take i n =
     (case get (n_queue n) i of
        (None, q) \<Rightarrow> (None, n\<lparr>n_queue := q\<rparr>)
      | (Some (_, tid), q) \<Rightarrow> (Some tid, n\<lparr>n_queue := q, n_queued := n_queued n - {tid}\<rparr>))"

text \<open>
  From the identifier to the broadcast claim: the job, if the task is claimed, the new state
  and the exception that ends the loop, if any.
\<close>

definition worker_claim :: "py_env \<Rightarrow> string \<Rightarrow> real \<Rightarrow> real \<Rightarrow> string \<Rightarrow> node \<Rightarrow> job option \<times> outcome" where
  "worker_claim V tid now wall token n =
     (case map_of (n_tasks n) tid of
        None \<Rightarrow> (None, n, None)
      | Some r \<Rightarrow>
          if is_terminal (state r) then (None, n, None)
          else
            (case active_claim V n now r of
               Inl e \<Rightarrow> (None, n, Some e)
             | Inr True \<Rightarrow> (None, n, None)
             | Inr False \<Rightarrow>
                 (let new_token = next_for (fence_token r) (n_id n);
                      n1 = n\<lparr>n_clock := increment (n_clock n) (n_id n)\<rparr>;
                      lease_exp = now + task_lease V n (payload r);
                      claimed = new_record tid CLAIMED (payload r) (Some (n_id n)) new_token lease_exp
                                  (n_clock n1) (n_id n)
                  in case seal_record V n1 claimed of
                       Inl e \<Rightarrow> (None, n1, Some e)
                     | Inr sealed \<Rightarrow>
                         (Some \<lparr>job_task = tid, job_token = new_token, job_lease = lease_exp,
                                job_payload = payload r, job_submitter = updated_by r\<rparr>,
                          broadcast_task_update V tid sealed wall token
                            (count ''claimed'' (store_task tid sealed n1))))))"

text \<open>The running record is stored when the claim has been sent to every peer.\<close>

definition worker_run :: "py_env \<Rightarrow> job \<Rightarrow> node \<Rightarrow> outcome" where
  "worker_run V j n =
     (case seal_record V n (new_record (job_task j) RUNNING (job_payload j) (Some (n_id n)) (job_token j)
                              (job_lease j) (n_clock n) (n_id n)) of
        Inl e \<Rightarrow> (n, Some e)
      | Inr r \<Rightarrow> (store_task (job_task j) r n, None))"

text \<open>The handler's answer: its result, or the text of the exception it raised.\<close>

type_synonym answer = "string + bytes"

definition committed_record :: "node \<Rightarrow> job \<Rightarrow> answer \<Rightarrow> task_record" where
  "committed_record n j a =
     (new_record (job_task j) (case a of Inl _ \<Rightarrow> FAILED | Inr _ \<Rightarrow> DONE) (job_payload j) (Some (n_id n))
        (job_token j) 0 (n_clock n) (n_id n))
       \<lparr>result := (case a of Inl _ \<Rightarrow> None | Inr b \<Rightarrow> Some b),
        error := (case a of Inl e \<Rightarrow> Some e | Inr _ \<Rightarrow> None)\<rparr>"

definition superseded :: "node \<Rightarrow> job \<Rightarrow> bool" where
  "superseded n j \<longleftrightarrow>
     (case map_of (n_tasks n) (job_task j) of None \<Rightarrow> False | Some cur \<Rightarrow> fence_token cur > job_token j)"

definition return_credit :: "py_env \<Rightarrow> job \<Rightarrow> real \<Rightarrow> string \<Rightarrow> node \<Rightarrow> outcome" where
  "return_credit V j wall token n =
     (if job_submitter j \<noteq> [] \<and> job_submitter j \<in> set (n_peers n)
      then case signed_message V n ''credit'' [(''amount'', JInt 1)] wall token of
             Inl e \<Rightarrow> (n, Some e)
           | Inr m \<Rightarrow> (send_all [job_submitter j] m n, None)
      else (n, None))"

definition worker_commit ::
  "py_env \<Rightarrow> job \<Rightarrow> answer \<Rightarrow> real \<Rightarrow> real \<Rightarrow> string \<Rightarrow> string \<Rightarrow> node \<Rightarrow> outcome" where
  "worker_commit V j a now wall token1 token2 n =
     (if now > job_lease j then (count ''rejected'' n, None)
      else if superseded n j then (count ''rejected'' n, None)
      else
        (let n1 = n\<lparr>n_clock := increment (n_clock n) (n_id n)\<rparr>
         in case seal_record V n1 (committed_record n1 j a) of
              Inl e \<Rightarrow> (n1, Some e)
            | Inr r \<Rightarrow>
                and_then (broadcast_task_update V (job_task j) r wall token1 (store_task (job_task j) r n1)) (\<lambda>n2.
                  return_credit V j wall token2
                    (count (case a of Inl _ \<Rightarrow> ''failed'' | Inr _ \<Rightarrow> ''completed'') n2))))"

subsection \<open>Lease audit\<close>

fun live_peers :: "py_env \<Rightarrow> node \<Rightarrow> real \<Rightarrow> string list \<Rightarrow> string list result" where
  "live_peers V n now [] = Inr []"
| "live_peers V n now (p # ps) =
     rbind (suspected V n p now) (\<lambda>s.
     rbind (live_peers V n now ps) (\<lambda>qs. Inr (if s then qs else p # qs)))"

definition release_task :: "py_env \<Rightarrow> string \<Rightarrow> task_record \<Rightarrow> real \<Rightarrow> string \<Rightarrow> node \<Rightarrow> outcome" where
  "release_task V tid r wall token n =
     (let n1 = n\<lparr>n_clock := increment (n_clock n) (n_id n)\<rparr>;
          reset = new_record tid PENDING (payload r) None (next_for (fence_token r) (n_id n)) 0
                    (n_clock n1) (n_id n)
      in case seal_record V n1 reset of
           Inl e \<Rightarrow> (n1, Some e)
         | Inr sealed \<Rightarrow> broadcast_task_update V tid sealed wall token (store_task tid sealed n1))"

definition reclaim_entry ::
  "py_env \<Rightarrow> string list \<Rightarrow> real \<Rightarrow> real \<Rightarrow> string \<Rightarrow> string \<Rightarrow> task_record \<Rightarrow> node \<Rightarrow> outcome" where
  "reclaim_entry V live now wall token tid r n =
     (if in_progress r \<and> claimed_by r \<noteq> Some (n_id n)
      then
        (case suspected V n (holder r) now of
           Inl e \<Rightarrow> (n, Some e)
         | Inr holder_suspected \<Rightarrow>
             if lease_expiry r \<le> now \<and> holder_suspected \<and> rendezvous_reclaimer V tid live = Some (n_id n)
             then
               (let n1 = count ''reclaimed'' n
                in if n_handler n1
                   then (if tid \<notin> n_queued n1 then enqueue tid 10 n1 else n1, None)
                   else release_task V tid r wall token n1)
             else (n, None))
      else (n, None))"

fun reclaim_entries ::
  "py_env \<Rightarrow> string list \<Rightarrow> real \<Rightarrow> real \<Rightarrow> (string \<Rightarrow> string) \<Rightarrow> (string, task_record) dict \<Rightarrow> node \<Rightarrow> outcome" where
  "reclaim_entries V live now wall token [] n = (n, None)"
| "reclaim_entries V live now wall token ((tid, r) # d) n =
     and_then (reclaim_entry V live now wall (token tid) tid r n) (reclaim_entries V live now wall token d)"

definition reclaim_round :: "py_env \<Rightarrow> real \<Rightarrow> real \<Rightarrow> (string \<Rightarrow> string) \<Rightarrow> node \<Rightarrow> outcome" where
  "reclaim_round V now wall token n =
     (case live_peers V n now (n_peers n) of
        Inl e \<Rightarrow> (n, Some e)
      | Inr live \<Rightarrow> reclaim_entries V (n_id n # live) now wall token (n_tasks n) n)"

end
