(* ===== verification/Node_Store.thy ===== *)
theory Node_Store
  imports Peer_Node
begin

section \<open>The task store of a node\<close>

text \<open>
  The structural invariant of a node, and a contract for properties of the records in its
  store: a property that holds of every record the node seals, of every record it admits, and
  that merging keeps, holds of the whole store in every reachable state. The steps of a node
  are its handlers, in any order.
\<close>

subsection \<open>Identifiers in the queue\<close>

definition queue_items :: "'a bp_queue \<Rightarrow> 'a set" where
  "queue_items q = item ` set (q_heap q)"

lemma queue_items_simps [simp]:
  "queue_items (notify q) = queue_items q" "queue_items (notify_condition q) = queue_items q"
  "queue_items (push_entry q x p) = insert x (queue_items q)"
  using mset_eq_setD [OF mset_push_entry [of q x p]]
  by (simp_all add: queue_items_def)

lemma queue_items_put_nowait:
  "put_nowait q x p = Inr q' \<Longrightarrow> queue_items q' = insert x (queue_items q) \<and> maxsize q' = maxsize q"
  by (auto simp: put_nowait_def split: if_splits)

lemma put_Inr:
  assumes "put q i x p = Inr (q', b)"
  shows "queue_wf q \<Longrightarrow> queue_wf q'" "queue_items q' = (if b then insert x (queue_items q) else queue_items q)"
    "maxsize q' = maxsize q"
  using assms queue_wf_push_entry [of q x p]
  by (auto simp: put_def queue_items_def [of "q\<lparr>cond_waiters := _\<rparr>"] queue_items_def [of q]
      cong: queue_wf_cong split: if_splits)

lemma get_facts:
  assumes "queue_wf q" "get q i = (e, q')"
  shows "queue_wf q'" "queue_items q - snd ` set_option e \<subseteq> queue_items q'"
proof -
  have "queue_wf q' \<and> queue_items q - snd ` set_option e \<subseteq> queue_items q'"
  proof (cases "heappop (q_heap q)")
    case None
    then show ?thesis using assms by (auto simp: get_def queue_items_def queue_wf_def)
  next
    case (Some a)
    obtain x h where a: "a = (x, h)" by fastforce
    have "mset (q_heap q) = mset (x # h)" using mset_heappop [of "q_heap q" x h] Some a by simp
    then have "set (q_heap q) = insert x (set h)" by (metis mset_eq_setD list.simps(15))
    then show ?thesis
      using queue_pop(1) [OF assms(1), of x h] Some a assms(2) by (auto simp: get_def queue_items_def)
  qed
  then show "queue_wf q'" "queue_items q - snd ` set_option e \<subseteq> queue_items q'" by simp_all
qed

lemma maxsize_get: "get q i = (e, q') \<Longrightarrow> maxsize q' = maxsize q"
  by (auto simp: get_def split: option.splits)

subsection \<open>Invariant\<close>

definition node_inv :: "node \<Rightarrow> bool" where
  "node_inv n \<longleftrightarrow>
     distinct (keys (n_tasks n)) \<and> len (n_tasks n) \<le> n_max_tasks n \<and>
     queue_wf (n_queue n) \<and> n_queued n \<subseteq> queue_items (n_queue n) \<and>
     replay_wf (n_replay n) \<and> wf_clock (n_clock n)"

definition same_config :: "node \<Rightarrow> node \<Rightarrow> bool" where
  "same_config n n' \<longleftrightarrow>
     n_id n' = n_id n \<and> n_identity n' = n_identity n \<and> n_ring n' = n_ring n \<and>
     n_security n' = n_security n \<and> n_peers n' = n_peers n \<and> n_handler n' = n_handler n \<and>
     n_lease n' = n_lease n \<and> n_max_tasks n' = n_max_tasks n \<and>
     maxsize (n_queue n') = maxsize (n_queue n)"

lemma same_config_trans: "same_config n n1 \<Longrightarrow> same_config n1 n2 \<Longrightarrow> same_config n n2"
  by (simp add: same_config_def)

text \<open>A record that the node may seal: unclaimed, or claimed and fenced by the node itself.\<close>

definition owned :: "node \<Rightarrow> task_record \<Rightarrow> bool" where
  "owned n r \<longleftrightarrow> (\<forall>p. claimed_by r = Some p \<longrightarrow> p = n_id n \<and> fence_peer (fence_token r) = n_id n)"

subsection \<open>Steps\<close>

text \<open>Where the worker coroutine stands.\<close>

datatype phase = Idle | Parked nat | Taken string | Claimed job | Running job | Ended

definition next_phase :: "phase \<Rightarrow> py_error option \<Rightarrow> phase" where
  "next_phase p e = (case e of None \<Rightarrow> p | Some _ \<Rightarrow> Ended)"

text \<open>
  The handlers of a running node, in any interleaving: each rule runs a coroutine from one
  suspension to the next. A step of the lease audit treats one entry of the snapshot of the
  store that the audit took when it started, with the peers it then found alive.
\<close>

inductive node_step :: "py_env \<Rightarrow> node \<times> phase \<Rightarrow> node \<times> phase \<Rightarrow> bool" for V where
  Start: "node_step V (n, w) (fst (start V n), w)"
| Stop: "node_step V (n, w) (stop n, w)"
| Submit: "node_step V (n, w) (fst (submit_task V tid pl p n), w)"
| Receive: "node_step V (n, w) (fst (receive V sender m now wall n), w)"
| Heartbeat: "node_step V (n, w) (fst (heartbeat_round V now wall token n), w)"
| Gossip: "partner \<in> set (n_peers n) \<Longrightarrow> node_step V (n, w) (fst (gossip_round V partner wall token n), w)"
| Reclaim: "has_key (n_tasks n) tid \<Longrightarrow>
    node_step V (n, w) (fst (reclaim_entry V live now wall token tid r n), w)"
| Notify: "node_step V (n, w) (n\<lparr>n_queue := run_notify_task (n_queue n)\<rparr>, w)"
| Take: "worker_take i n = (None, n') \<Longrightarrow> node_step V (n, Idle) (n', Parked i)"
| Take_task: "worker_take i n = (Some tid, n') \<Longrightarrow> node_step V (n, Idle) (n', Taken tid)"
| Wake: "notified (n_queue n) = Getter i # ws \<Longrightarrow>
    worker_take i (n\<lparr>n_queue := (n_queue n)\<lparr>notified := ws\<rparr>\<rparr>) = (None, n') \<Longrightarrow>
    node_step V (n, Parked i) (n', Parked i)"
| Wake_task: "notified (n_queue n) = Getter i # ws \<Longrightarrow>
    worker_take i (n\<lparr>n_queue := (n_queue n)\<lparr>notified := ws\<rparr>\<rparr>) = (Some tid, n') \<Longrightarrow>
    node_step V (n, Parked i) (n', Taken tid)"
| Claim: "worker_claim V tid now wall token n = (Some j, n', e) \<Longrightarrow>
    node_step V (n, Taken tid) (n', next_phase (Claimed j) e)"
| Skip: "worker_claim V tid now wall token n = (None, n', e) \<Longrightarrow>
    node_step V (n, Taken tid) (n', next_phase Idle e)"
| Run: "worker_run V j n = (n', e) \<Longrightarrow> node_step V (n, Claimed j) (n', next_phase (Running j) e)"
| Commit: "worker_commit V j a now wall token1 token2 n = (n', e) \<Longrightarrow>
    node_step V (n, Running j) (n', next_phase Idle e)"

text \<open>A job concerns a stored task, under a token of the node itself.\<close>

definition job_ok :: "node \<Rightarrow> job \<Rightarrow> bool" where
  "job_ok n j \<longleftrightarrow> has_key (n_tasks n) (job_task j) \<and> fence_peer (job_token j) = n_id n"

fun phase_ok :: "node \<Rightarrow> phase \<Rightarrow> bool" where
  "phase_ok n (Claimed j) = job_ok n j"
| "phase_ok n (Running j) = job_ok n j"
| "phase_ok n _ = True"

locale store_law =
  fixes V :: py_env
    and Q :: "node \<Rightarrow> task_record \<Rightarrow> bool"
  assumes sealed: "seal_record V n r = Inr s \<Longrightarrow> owned n r \<Longrightarrow> Q n s"
    and admitted: "unauthorized V n r = Inr False \<Longrightarrow> Q n r"
    and merged: "Q n a \<Longrightarrow> Q n b \<Longrightarrow> merge_records (env_ed V) a b (merge_ring n) = Inr m \<Longrightarrow> Q n m"
    and config: "same_config n n' \<Longrightarrow> Q n' = Q n"
begin

definition safe :: "node \<Rightarrow> bool" where
  "safe n \<longleftrightarrow> node_inv n \<and> (\<forall>r \<in> snd ` set (n_tasks n). Q n r)"

text \<open>One state leads to another without loss of the invariant, the configuration or a task.\<close>

definition leads :: "node \<Rightarrow> node \<Rightarrow> bool" where
  "leads n n' \<longleftrightarrow>
     (safe n \<longrightarrow> safe n' \<and> same_config n n' \<and> set (keys (n_tasks n)) \<subseteq> set (keys (n_tasks n')))"

lemma leads_refl [simp]: "leads n n"
  by (simp add: leads_def same_config_def)

lemma leads_trans: "leads n n1 \<Longrightarrow> leads n1 n2 \<Longrightarrow> leads n n2"
  by (auto simp: leads_def same_config_def)

lemma leads_and_then:
  assumes "leads n (fst m)" "\<And>n1. m = (n1, None) \<Longrightarrow> leads n1 (fst (f n1))"
  shows "leads n (fst (and_then m f))"
  using assms by (cases "(m, f)" rule: and_then.cases) (auto intro: leads_trans)

text \<open>Updates of the components that the invariant does not mention.\<close>

lemma leads_other:
  "leads n (count name n)" "leads n (send_all ps m n)" "leads n (n\<lparr>n_wal := w\<rparr>)" "leads n (n\<lparr>n_running := b\<rparr>)"
  "leads n (n\<lparr>n_detector := d\<rparr>)" "leads n (n\<lparr>n_flow := fc\<rparr>)"
proof -
  have "Q (count name n) = Q n" "Q (send_all ps m n) = Q n" "Q (n\<lparr>n_wal := w\<rparr>) = Q n" "Q (n\<lparr>n_running := b\<rparr>) = Q n"
    "Q (n\<lparr>n_detector := d\<rparr>) = Q n" "Q (n\<lparr>n_flow := fc\<rparr>) = Q n"
    by (rule config; simp add: same_config_def count_def send_all_def)+
  then show "leads n (count name n)" "leads n (send_all ps m n)" "leads n (n\<lparr>n_wal := w\<rparr>)" "leads n (n\<lparr>n_running := b\<rparr>)"
    "leads n (n\<lparr>n_detector := d\<rparr>)" "leads n (n\<lparr>n_flow := fc\<rparr>)"
    by (simp_all add: leads_def safe_def node_inv_def same_config_def count_def send_all_def)
qed

lemma leads_clock:
  assumes "wf_clock (n_clock n) \<Longrightarrow> wf_clock c"
  shows "leads n (n\<lparr>n_clock := c\<rparr>)"
proof -
  have "Q (n\<lparr>n_clock := c\<rparr>) = Q n" by (rule config) (simp add: same_config_def)
  then show ?thesis using assms by (simp add: leads_def safe_def node_inv_def same_config_def)
qed

lemma leads_replay:
  assumes "replay_wf (n_replay n) \<Longrightarrow> replay_wf c"
  shows "leads n (n\<lparr>n_replay := c\<rparr>)"
proof -
  have "Q (n\<lparr>n_replay := c\<rparr>) = Q n" by (rule config) (simp add: same_config_def)
  then show ?thesis using assms by (simp add: leads_def safe_def node_inv_def same_config_def)
qed

lemma leads_queue:
  assumes "queue_wf (n_queue n) \<Longrightarrow> queue_wf q"
    and "n_queued n \<subseteq> queue_items (n_queue n) \<Longrightarrow> qd \<subseteq> queue_items q"
    and "maxsize q = maxsize (n_queue n)"
  shows "leads n (n\<lparr>n_queue := q, n_queued := qd\<rparr>)"
proof -
  have "Q (n\<lparr>n_queue := q, n_queued := qd\<rparr>) = Q n" by (rule config) (simp add: same_config_def assms(3))
  then show ?thesis using assms by (simp add: leads_def safe_def node_inv_def same_config_def)
qed

lemma leads_store:
  assumes "safe n \<Longrightarrow> Q n r" "\<not> store_full n tid"
  shows "leads n (store_task tid r n)"
  unfolding leads_def
proof (intro impI conjI)
  assume n: "safe n"
  have c: "same_config n (store_task tid r n)" by (simp add: same_config_def store_task_def)
  then show "same_config n (store_task tid r n)" .
  show "set (keys (n_tasks n)) \<subseteq> set (keys (n_tasks (store_task tid r n)))"
    by (simp add: store_task_def fst_set_update subset_insertI)
  have "len (AList.update tid r (n_tasks n)) \<le> n_max_tasks n"
    using assms(2) n by (cases "has_key (n_tasks n) tid") (simp_all add: store_full_def length_update safe_def node_inv_def)
  then have "node_inv (store_task tid r n)"
    using n by (simp add: safe_def node_inv_def store_task_def distinct_keys_update)
  moreover have "\<forall>r' \<in> snd ` set (n_tasks (store_task tid r n)). Q n r'"
    using n assms(1) [OF n] snd_set_update [of tid r "n_tasks n"] unfolding safe_def store_task_def by fastforce
  ultimately show "safe (store_task tid r n)" unfolding safe_def config [OF c] by simp
qed

lemma leads_parked:
  assumes "queue_wf (n_queue n) \<Longrightarrow> queue_wf q" "queue_items (n_queue n) \<subseteq> queue_items q"
    and "maxsize q = maxsize (n_queue n)"
  shows "leads n (n\<lparr>n_queue := q\<rparr>)"
  using leads_queue [of n q "n_queued n"] assms by auto

lemma leads_enqueue: "leads n (enqueue tid p n)"
proof (cases "put_nowait (n_queue n) tid p")
  case (Inr q)
  then have "leads n (n\<lparr>n_queue := q, n_queued := insert tid (n_queued n)\<rparr>)"
    using queue_items_put_nowait [OF Inr] by (intro leads_queue) (auto intro: bq.invar_put)
  with Inr show ?thesis by (simp add: enqueue_def)
qed (simp add: enqueue_def)

lemma leads_log: "leads n (fst (log_update V r n))"
  by (auto simp: log_update_def leads_other split: option.splits sum.splits)

lemma leads_store_own:
  assumes "seal_record V n r = Inr s" "owned n r" "\<not> store_full n tid"
  shows "leads n (store_task tid s n)"
  using sealed [OF assms(1,2)] assms(3) by (intro leads_store)

lemma leads_tick: "leads n (n\<lparr>n_clock := increment (n_clock n) p\<rparr>)"
  by (intro leads_clock wf_increment)

lemma leads_store_remote:
  assumes "unauthorized V n r = Inr False" "\<not> store_full n tid" "store_remote V tid r n = Inr n'"
  shows "leads n n'"
proof (cases "map_of (n_tasks n) tid")
  case None
  then show ?thesis
    using assms admitted by (auto simp: store_remote_def intro!: leads_store)
next
  case (Some old)
  then obtain m where m: "merge_records (env_ed V) old r (merge_ring n) = Inr m" "n' = store_task tid m n"
    using assms(3) by (auto simp: store_remote_def rbind_Inr_iff)
  have "old \<in> snd ` set (n_tasks n)" using Some by (force dest: map_of_SomeD)
  then have "safe n \<Longrightarrow> Q n m"
    using merged [OF _ admitted [OF assms(1)] m(1)] unfolding safe_def by blast
  then show ?thesis unfolding m(2) using assms(2) by (intro leads_store)
qed

lemma leads_admit_recovered:
  assumes "unauthorized V n r = Inr False" "\<not> store_full n tid"
  shows "leads n (fst (admit_recovered V tid r n))"
proof -
  have "fst (admit_recovered V tid r n) = n \<or> store_remote V tid r n = Inr (fst (admit_recovered V tid r n))"
    by (auto simp: admit_recovered_def store_remote_def split: option.splits sum.splits)
  then show ?thesis using leads_store_remote [OF assms] by auto
qed

subsection \<open>Recovery\<close>

lemma leads_recover_clock: "leads n (fst (recover_clock j n))"
  by (auto simp: recover_clock_def intro: leads_clock wf_merge split: sum.splits)

lemma leads_recover_task: "leads n (fst (recover_task V j n))"
  by (auto simp: recover_task_def intro: leads_admit_recovered split: sum.splits)

lemma leads_recover_snapshot_task: "leads n (fst (recover_snapshot_task V tid j n))"
  by (auto simp: recover_snapshot_task_def intro: leads_admit_recovered split: sum.splits)

lemma leads_recover_snapshot: "leads n (fst (recover_snapshot V d n))"
  by (induction d arbitrary: n) (auto intro!: leads_and_then leads_recover_snapshot_task)

lemma leads_recover_record: "leads n (fst (recover_record V rec n))"
  by (auto simp: recover_record_def split: json.split
      intro!: leads_and_then leads_recover_task leads_recover_clock leads_recover_snapshot)

lemma leads_recover_records: "leads n (fst (recover_records V recs n))"
  by (induction recs arbitrary: n) (auto intro!: leads_and_then leads_recover_record)

lemma leads_fold: "(\<And>x n. leads n (f x n)) \<Longrightarrow> leads n (fold f xs n)"
proof (induction xs arbitrary: n)
  case (Cons x xs)
  have "leads (f x n) (fold f xs (f x n))" by (rule Cons.IH) (rule Cons.prems)
  then show ?case using leads_trans [OF Cons.prems] by simp
qed simp

lemma leads_requeue_pending: "leads n (requeue_pending n)"
  unfolding requeue_pending_def by (rule leads_fold) (auto simp: leads_enqueue)

lemma leads_recover: "leads n (fst (recover_from_wal V n))"
  by (auto simp: recover_from_wal_def split: option.split prod.split
      intro!: leads_and_then leads_recover_records leads_requeue_pending)

lemma leads_start: "leads n (fst (start V n))"
  by (auto simp: start_def Let_def leads_other split: option.split intro!: leads_trans [OF _ leads_recover])

lemma leads_stop: "leads n (stop n)"
  using leads_trans [OF leads_other(4) [of n False] leads_other(3) [of "n\<lparr>n_running := False\<rparr>"]]
  by (simp add: stop_def)

subsection \<open>Submission and reception\<close>

lemma not_full_other [simp]:
  "store_full (count name n) tid = store_full n tid" "store_full (n\<lparr>n_clock := c\<rparr>) tid = store_full n tid"
  "\<not> store_full (store_task tid r n) tid"
  by (simp_all add: store_full_def count_def store_task_def has_key_iff fst_set_update)

lemma owned_new_record [simp]: "owned n (new_record tid st pl None tok lease vc by_id)"
  by (simp add: owned_def new_record_def)

lemma leads_submit: "leads n (fst (submit_task V tid pl p n))"
proof (cases "seal_record V (n\<lparr>n_clock := increment (n_clock n) (n_id n)\<rparr>)
    (new_record tid PENDING pl None (FenceToken 0 []) 0 (increment (n_clock n) (n_id n)) (n_id n))")
  case (Inl e)
  then show ?thesis
    by (auto simp: submit_task_def Let_def leads_other leads_tick)
next
  case (Inr r)
  let ?n1 = "n\<lparr>n_clock := increment (n_clock n) (n_id n)\<rparr>"
  let ?n2 = "count ''enqueued'' (store_task tid r ?n1)"
  have put: "leads m (fst (case put (n_queue m) 0 tid p of
      Inl e \<Rightarrow> (count ''rejected'' m, Some e)
    | Inr (q, finished) \<Rightarrow>
        (m\<lparr>n_queue := q, n_queued := (if finished then insert tid (n_queued m) else n_queued m)\<rparr>, None)))" for m
  proof (cases "put (n_queue m) 0 tid p")
    case (Inl e)
    then show ?thesis by (simp add: leads_other)
  next
    case (Inr qb)
    obtain q b where qb: "qb = (q, b)" by fastforce
    note f = put_Inr [OF Inr [unfolded qb]]
    have "leads m (m\<lparr>n_queue := q, n_queued := (if b then insert tid (n_queued m) else n_queued m)\<rparr>)"
      by (intro leads_queue f(1,3)) (auto simp: f(2))
    then show ?thesis using Inr qb by simp
  qed
  have "leads n ?n2" if "\<not> store_full n tid"
    by (intro leads_trans [OF _ leads_other(1)] leads_trans [OF leads_tick leads_store_own [OF Inr]]) (simp_all add: that)
  then show ?thesis
    using Inr put
    by (auto simp: submit_task_def Let_def leads_other intro!: leads_and_then leads_trans [OF _ leads_log])
qed

lemma leads_authenticate: "authenticate_message V n sender m wall = Inr (b, n') \<Longrightarrow> leads n n'"
  by (auto simp: authenticate_message_def rbind_Inr_iff Let_def case_prod_unfold
      intro!: leads_replay replay_wf_check split: if_splits option.splits)

lemma leads_requeue_if_pending: "leads n (requeue_if_pending tid n)"
  by (auto simp: requeue_if_pending_def leads_enqueue split: option.split)

lemma leads_gossip_entry: "leads n (fst (gossip_entry V sender tid raw n))"
proof -
  have "leads n1 (fst (log_update V r' ((requeue_if_pending tid n1)\<lparr>n_clock := vc_merge c d\<rparr>)))" for n1 r' c d
    by (intro leads_trans [OF _ leads_log] leads_trans [OF leads_requeue_if_pending leads_clock] wf_merge)
  then show ?thesis
    by (auto simp: gossip_entry_def Let_def leads_other split: sum.splits intro: leads_trans [OF leads_store_remote])
qed

lemma leads_gossip_entries: "leads n (fst (gossip_entries V sender d n))"
  by (induction d arbitrary: n) (auto intro!: leads_and_then leads_gossip_entry)

lemma leads_receive: "leads n (fst (receive V sender m now wall n))"
proof -
  have "leads n1 (fst (on_gossip V sender pl n1))" "leads n1 (on_credit sender pl n1)" for n1 pl
    by (auto simp: on_gossip_def on_credit_def leads_other leads_gossip_entries split: json.split)
  then show ?thesis
    by (auto simp: receive_def leads_other split: sum.split bool.split
        dest!: leads_authenticate intro: leads_trans leads_other)
qed

subsection \<open>Worker and lease audit\<close>

lemma leads_broadcast:
  assumes "owned n r" "has_key (n_tasks n) tid"
  shows "leads n (fst (broadcast_task_update V tid r wall token n))"
proof (cases "seal_record V n r")
  case (Inr s)
  have "leads n (store_task tid s n)"
    using assms by (intro leads_store_own [OF Inr]) (simp_all add: store_full_def)
  then have "leads n (fst (log_update V s (store_task tid s n)))" by (rule leads_trans) (rule leads_log)
  then show ?thesis
    using Inr by (auto simp: broadcast_task_update_def leads_other split: sum.split intro!: leads_and_then)
qed (simp add: broadcast_task_update_def)

lemma sealed_owned: "seal_record V n r = Inr s \<Longrightarrow> owned n s \<longleftrightarrow> owned n r"
  by (auto simp: seal_record_def sign_task_def Let_def rbind_Inr_iff owned_def split: if_splits)

lemma owned_config: "same_config n n' \<Longrightarrow> owned n' r \<longleftrightarrow> owned n r"
  by (simp add: owned_def same_config_def)

text \<open>Tick, seal, store, count, broadcast: the pattern of every record a node originates.\<close>

lemma leads_originate:
  assumes "seal_record V (n\<lparr>n_clock := increment (n_clock n) (n_id n)\<rparr>) r = Inr s" "owned n r"
    and "has_key (n_tasks n) tid" "n2 = store_task tid s (n\<lparr>n_clock := increment (n_clock n) (n_id n)\<rparr>)"
  shows "leads n (fst (broadcast_task_update V tid s wall token n2))"
    "leads n (fst (broadcast_task_update V tid s wall token (count name n2)))"
proof -
  let ?n1 = "n\<lparr>n_clock := increment (n_clock n) (n_id n)\<rparr>"
  have o1: "owned ?n1 r" using assms(2) by (simp add: owned_def)
  have "leads ?n1 n2" unfolding assms(4) using assms(1,3) o1
    by (intro leads_store_own) (simp_all add: store_full_def)
  then have n2: "leads n n2" by (rule leads_trans [OF leads_tick])
  have "owned n2 s" "has_key (n_tasks n2) tid"
    using sealed_owned [OF assms(1)] o1 assms(3)
    by (simp_all add: assms(4) owned_def store_task_def has_key_iff fst_set_update)
  moreover from this have "owned (count name n2) s" "has_key (n_tasks (count name n2)) tid"
    by (simp_all add: owned_def count_def)
  ultimately show "leads n (fst (broadcast_task_update V tid s wall token n2))"
    "leads n (fst (broadcast_task_update V tid s wall token (count name n2)))"
    using n2 leads_other(1) by (meson leads_broadcast leads_trans)+
qed

lemma leads_take: "leads n (snd (worker_take i n))"
proof -
  obtain e q where g: "get (n_queue n) i = (e, q)" by fastforce
  have q: "queue_wf (n_queue n) \<Longrightarrow> queue_wf q" using get_facts(1) [OF _ g] .
  show ?thesis
  proof (cases e)
    case None
    have "leads n (n\<lparr>n_queue := q\<rparr>)"
    proof (rule leads_parked [OF q])
      show "queue_items (n_queue n) \<subseteq> queue_items q"
        using g None by (auto simp: get_def queue_items_def split: option.splits prod.splits)
    qed (simp_all add: maxsize_get [OF g])
    with g None show ?thesis by (simp add: worker_take_def)
  next
    case (Some a)
    have "leads n (n\<lparr>n_queue := q, n_queued := n_queued n - {snd a}\<rparr>)"
      unfolding leads_def
    proof (rule impI)
      assume s: "safe n"
      then have w: "queue_wf (n_queue n)" by (simp add: safe_def node_inv_def)
      have "leads n (n\<lparr>n_queue := q, n_queued := n_queued n - {snd a}\<rparr>)"
        using get_facts(2) [OF w g] q Some maxsize_get [OF g] by (intro leads_queue) auto
      with s show "safe (n\<lparr>n_queue := q, n_queued := n_queued n - {snd a}\<rparr>) \<and>
          same_config n (n\<lparr>n_queue := q, n_queued := n_queued n - {snd a}\<rparr>) \<and>
          set (keys (n_tasks n)) \<subseteq> set (keys (n_tasks (n\<lparr>n_queue := q, n_queued := n_queued n - {snd a}\<rparr>)))"
        unfolding leads_def by blast
    qed
    with g Some show ?thesis by (cases a) (simp add: worker_take_def)
  qed
qed

lemma owned_by_self [simp]:
  "owned n (new_record tid st pl (Some (n_id n)) (next_for t (n_id n)) lease vc by_id)"
  by (simp add: owned_def new_record_def next_for_def)

lemma leads_claim: "leads n (fst (snd (worker_claim V tid now wall token n)))"
proof (cases "map_of (n_tasks n) tid")
  case (Some r)
  let ?c = "new_record tid CLAIMED (payload r) (Some (n_id n)) (next_for (fence_token r) (n_id n))
    (now + task_lease V n (payload r)) (increment (n_clock n) (n_id n)) (n_id n)"
  show ?thesis
  proof (cases "seal_record V (n\<lparr>n_clock := increment (n_clock n) (n_id n)\<rparr>) ?c")
    case (Inl e)
    then show ?thesis
      using Some by (auto simp: worker_claim_def Let_def leads_tick split: sum.split bool.split)
  next
    case (Inr s)
    have "leads n (fst (broadcast_task_update V tid s wall token
        (count ''claimed'' (store_task tid s (n\<lparr>n_clock := increment (n_clock n) (n_id n)\<rparr>)))))"
      using Some by (intro leads_originate(2) [OF Inr _ _ refl]) (simp_all add: has_key_def)
    with Some Inr show ?thesis
      by (auto simp: worker_claim_def Let_def split: sum.split bool.split)
  qed
qed (simp add: worker_claim_def)

lemma job_ok_leads: "leads n n' \<Longrightarrow> safe n \<Longrightarrow> job_ok n j \<Longrightarrow> job_ok n' j"
  by (auto simp: leads_def job_ok_def has_key_iff same_config_def)

lemma phase_ok_leads: "leads n n' \<Longrightarrow> safe n \<Longrightarrow> phase_ok n w \<Longrightarrow> phase_ok n' w"
  by (cases "(n, w)" rule: phase_ok.cases) (auto intro: job_ok_leads)

lemma owned_job:
  "job_ok n j \<Longrightarrow> owned n (new_record tid st pl (Some (n_id n)) (job_token j) lease vc by_id)"
  "job_ok n j \<Longrightarrow> owned n (committed_record n j a)"
  by (simp_all add: owned_def new_record_def job_ok_def committed_record_def)

lemma leads_run: "job_ok n j \<Longrightarrow> leads n (fst (worker_run V j n))"
  by (auto simp: worker_run_def store_full_def job_ok_def [of n j] split: sum.split
      intro!: leads_store_own owned_job(1))

lemma leads_return_credit: "leads n (fst (return_credit V j wall token n))"
  by (auto simp: return_credit_def leads_other split: sum.split)

lemma leads_commit:
  assumes "job_ok n j"
  shows "leads n (fst (worker_commit V j a now wall token1 token2 n))"
proof -
  let ?n1 = "n\<lparr>n_clock := increment (n_clock n) (n_id n)\<rparr>"
  have "owned n (committed_record ?n1 j a)"
    using assms by (simp add: owned_def committed_record_def new_record_def job_ok_def)
  moreover have "has_key (n_tasks n) (job_task j)" using assms by (simp add: job_ok_def)
  ultimately have "leads n (fst (broadcast_task_update V (job_task j) r wall token1 (store_task (job_task j) r ?n1)))"
    if "seal_record V ?n1 (committed_record ?n1 j a) = Inr r" for r
    using that by (intro leads_originate(1) [OF that _ _ refl])
  then show ?thesis
    by (auto simp: worker_commit_def Let_def leads_other leads_tick split: sum.split
        intro!: leads_and_then leads_trans [OF leads_other(1) leads_return_credit])
qed

lemma leads_release: "has_key (n_tasks n) tid \<Longrightarrow> leads n (fst (release_task V tid r wall token n))"
  by (auto simp: release_task_def Let_def leads_tick split: sum.split intro!: leads_originate(1) [OF _ _ _ refl])

lemma leads_reclaim_entry:
  assumes "has_key (n_tasks n) tid"
  shows "leads n (fst (reclaim_entry V live now wall token tid r n))"
proof -
  have "has_key (n_tasks (count ''reclaimed'' n)) tid" using assms by (simp add: count_def)
  then show ?thesis
    by (auto simp: reclaim_entry_def Let_def leads_other split: sum.split
        intro: leads_trans [OF leads_other(1) leads_enqueue] leads_trans [OF leads_other(1) leads_release])
qed

lemma leads_rounds:
  "leads n (fst (heartbeat_round V now wall token n))" "leads n (fst (gossip_round V partner wall token n))"
  by (auto simp: heartbeat_round_def gossip_round_def leads_other split: sum.split)

lemma leads_notify: "leads n (n\<lparr>n_queue := run_notify_task (n_queue n)\<rparr>)"
  by (rule leads_parked)
     (auto simp: run_notify_task_def async_notify_def queue_items_def queue_wf_def split: nat.split)

lemma leads_woken: "leads n (n\<lparr>n_queue := (n_queue n)\<lparr>notified := ws\<rparr>\<rparr>)"
  by (rule leads_parked) (auto simp: queue_items_def queue_wf_def)

lemma claim_job_ok:
  "worker_claim V tid now wall token n = (Some j, n', None) \<Longrightarrow> job_ok n j"
  by (auto simp: worker_claim_def Let_def job_ok_def has_key_def next_for_def
      split: option.splits if_splits sum.splits bool.splits)

lemma step_leads: "node_step V (n, w) (n', w') \<Longrightarrow> phase_ok n w \<Longrightarrow> leads n n'"
proof (induction "(n, w)" "(n', w')" rule: node_step.induct)
  case (Take i)
  then show ?case using leads_take [of n i] by simp
next
  case (Take_task i tid)
  then show ?case using leads_take [of n i] by simp
next
  case (Wake i ws)
  then show ?case using leads_trans [OF leads_woken leads_take [of _ i], of n ws] by simp
next
  case (Wake_task i ws tid)
  then show ?case using leads_trans [OF leads_woken leads_take [of _ i], of n ws] by simp
next
  case (Claim tid now wall token j e)
  then show ?case using leads_claim [of n tid now wall token] by simp
next
  case (Skip tid now wall token e)
  then show ?case using leads_claim [of n tid now wall token] by simp
next
  case (Run j e)
  then show ?case using leads_run [of n j] by auto
next
  case (Commit j a now wall token1 token2 e)
  then show ?case using leads_commit [of n j a now wall token1 token2] by auto
qed (auto simp: leads_start leads_stop leads_submit leads_receive leads_rounds leads_reclaim_entry leads_notify)

lemma step_phase:
  assumes "node_step V (n, w) (n', w')" "phase_ok n w" "safe n"
  shows "phase_ok n' w'"
  using assms step_leads [OF assms(1,2)]
proof (induction "(n, w)" "(n', w')" rule: node_step.induct)
  case (Claim tid now wall token j e)
  then have "e = None \<longrightarrow> job_ok n j" using claim_job_ok by blast
  with Claim show ?case by (cases e) (auto simp: next_phase_def dest: job_ok_leads)
next
  case (Run j e)
  then show ?case by (cases e) (auto simp: next_phase_def dest: job_ok_leads)
qed (auto simp: next_phase_def split: option.split dest: phase_ok_leads)

lemma reachable_safe:
  assumes "(node_step V)\<^sup>*\<^sup>* (n, w) (n', w')" "safe n" "phase_ok n w"
  shows "safe n' \<and> same_config n n' \<and> phase_ok n' w' \<and> set (keys (n_tasks n)) \<subseteq> set (keys (n_tasks n'))"
  using assms(1)
proof (induction "(n', w')" arbitrary: n' w' rule: rtranclp_induct)
  case base
  then show ?case using assms(2,3) by (simp add: same_config_def)
next
  case (step y)
  obtain n1 w1 where y: "y = (n1, w1)" by fastforce
  note IH = step(3) [OF y]
  have "leads n1 n'" using step_leads [of n1 w1 n' w'] step(2) IH by (simp add: y)
  moreover have "phase_ok n' w'" using step_phase [of n1 w1 n' w'] step(2) IH by (simp add: y)
  ultimately show ?case
    using IH same_config_trans [of n n1 n'] unfolding leads_def by (meson subset_trans)
qed

end

subsection \<open>Interpretations\<close>

interpretation shape: store_law V "\<lambda>n r. True" for V
  by unfold_locales simp_all

text \<open>
  The content of a record, everything but its clock, is that of a record its signer was
  authorised to publish. The claim is made for nodes that check signatures, with correct
  primitives and the node's own key registered.
\<close>

definition authentic :: "py_env \<Rightarrow> node \<Rightarrow> task_record \<Rightarrow> bool" where
  "authentic V n r \<longleftrightarrow>
     (enabled (n_security n) \<and> ed25519_correct (env_ed V) \<and>
      map_of (n_ring n) (n_id n) = Some (public_key_of (env_ed V) (n_identity n)) \<longrightarrow>
      (\<exists>w. verify_task_authorization (env_ed V) w (n_ring n) = Inr True \<and>
         r\<lparr>vector_clock := vector_clock w\<rparr> = w))"

lemma authenticI: "verify_task_authorization (env_ed V) r (n_ring n) = Inr True \<Longrightarrow> authentic V n r"
  by (auto simp: authentic_def)

interpretation auth: store_law V "authentic V" for V
proof
  fix n n' :: node and r s a b m :: task_record
  assume s: "seal_record V n r = Inr s" "owned n r"
  show "authentic V n s"
    unfolding authentic_def
  proof (intro impI exI conjI)
    assume h: "enabled (n_security n) \<and> ed25519_correct (env_ed V) \<and>
      map_of (n_ring n) (n_id n) = Some (public_key_of (env_ed V) (n_identity n))"
    then have "sign_task (env_ed V) (n_identity n) r (n_id n) = Inr s" using s(1) by (simp add: seal_record_def)
    from signed_record_ok [OF _ this, of "n_ring n"]
    show "verify_task_authorization (env_ed V) s (n_ring n) = Inr True"
      using h s(2) by (simp add: get_peer_key_def owned_def)
  qed simp
next
  fix n :: node and r
  assume "unauthorized V n r = Inr False"
  then show "authentic V n r"
    by (cases "enabled (n_security n)")
       (auto simp: unauthorized_def rbind_Inr_iff authentic_def [of V n] intro: authenticI)
next
  fix n :: node and a b m
  assume ab: "authentic V n a" "authentic V n b" "merge_records (env_ed V) a b (merge_ring n) = Inr m"
  show "authentic V n m"
  proof (cases "enabled (n_security n)")
    case True
    then obtain w where "verify_task_authorization (env_ed V) w (n_ring n) = Inr True"
      "m\<lparr>vector_clock := vector_clock w\<rparr> = w"
      using merge_ring_content [of "env_ed V" a b "n_ring n" m] ab(3) by (auto simp: merge_ring_def)
    then show ?thesis by (auto simp: authentic_def)
  qed (simp add: authentic_def)
next
  fix n n' :: node
  assume "same_config n n'"
  then show "authentic V n' = authentic V n" by (simp add: authentic_def same_config_def fun_eq_iff)
qed

subsection \<open>Initial states\<close>

lemma own_key_Inr: "own_key E ring nid key = Inr ring' \<Longrightarrow> map_of ring' nid = Some (public_key_of E key)"
  by (auto simp: own_key_def get_peer_key_def add_peer_def map_of_update public_to_bytes_def public_key_of_def
      intro: public_key.expand split: if_splits option.splits)

lemma PeerNode_Inr:
  assumes "PeerNode E nid peers h lease env qs ic wlog key ring sec mt = Inr n"
  shows "node_inv n" "n_tasks n = []" "n_id n = nid" "n_identity n = key" "n_security n = sec"
    "map_of (n_ring n) nid = Some (public_key_of E key)"
    "n_max_tasks n = mt" "maxsize (n_queue n) = qs" "n_wal n = wlog" "n_peers n = dict_fromkeys (filter (\<lambda>p. p \<noteq> nid) peers)"
    "\<not> n_running n"
proof -
  obtain ring' cache mc where p: "own_key E ring nid key = Inr ring'" "0 < mt"
    "ReplayCache (replay_cache_size sec) = Inr cache"
    "n_tasks n = []" "n_id n = nid" "n_identity n = key" "n_security n = sec" "n_ring n = ring'"
    "n_max_tasks n = mt" "n_replay n = cache" "n_queue n = init_queue qs REJECT_ON_FULL" "n_queued n = {}"
    "n_clock n = VectorClock [(nid, 0)]" "n_wal n = wlog"
    "n_peers n = dict_fromkeys (filter (\<lambda>p. p \<noteq> nid) peers)" "\<not> n_running n"
    using assms unfolding PeerNode_def Let_def rbind_Inr_iff require_Inr_iff by auto
  then show "n_tasks n = []" "n_id n = nid" "n_identity n = key" "n_security n = sec" "n_max_tasks n = mt"
    "maxsize (n_queue n) = qs" "n_wal n = wlog" "n_peers n = dict_fromkeys (filter (\<lambda>p. p \<noteq> nid) peers)"
    "\<not> n_running n"
    by (simp_all add: init_queue_def)
  have "replay_wf cache" using p(3) by (auto simp: ReplayCache_def replay_wf_def replay_len_def split: if_splits)
  moreover have "wf_clock (VectorClock [(nid, 0)])" by (rule wf_VectorClock) simp
  ultimately show "node_inv n"
    using p by (simp add: node_inv_def queue_wf_def init_queue_def)
  show "map_of (n_ring n) nid = Some (public_key_of E key)" using own_key_Inr [OF p(1)] p(8) by simp
qed

text \<open>
  C1: Byzantine integrity of the store. Whatever messages, submissions, log contents and
  interleavings a node that checks signatures goes through, the content of every record in its
  store, everything but the merged clock, is that of a record that verifies under a registered
  key and whose signer was entitled to it.
\<close>

theorem node_store_authentic:
  assumes "PeerNode (env_ed V) nid peers h lease env qs ic wlog key ring sec mt = Inr n0"
    and "ed25519_correct (env_ed V)" "enabled sec"
    and "(node_step V)\<^sup>*\<^sup>* (n0, Idle) (n, w)" "get_task n tid = Some r"
  shows "\<exists>r0. verify_task_authorization (env_ed V) r0 (n_ring n) = Inr True \<and>
    r\<lparr>vector_clock := vector_clock r0\<rparr> = r0"
proof -
  note init = PeerNode_Inr [OF assms(1)]
  have "auth.safe V n0" using init(1,2) by (simp add: auth.safe_def)
  from auth.reachable_safe [OF assms(4) this]
  have n: "auth.safe V n" "same_config n0 n" by simp_all
  have "r \<in> snd ` set (n_tasks n)" using assms(5) by (force simp: get_task_def dest: map_of_SomeD)
  then have "authentic V n r" using n(1) by (auto simp: auth.safe_def)
  with n(2) init(3-6) assms(2,3) show ?thesis by (auto simp: authentic_def same_config_def)
qed

text \<open>
  C11: reachable nodes are well formed. In every interleaving of handlers the store holds each
  task once and never more than the configured number, the ready queue is a heap within its
  capacity, every identifier marked as queued is in the queue, the replay cache respects its
  capacity, and the vector clock is normalised; no task ever leaves the store.
\<close>

theorem node_invariant:
  assumes "PeerNode (env_ed V) nid peers h lease env qs ic wlog key ring sec mt = Inr n0"
    and "(node_step V)\<^sup>*\<^sup>* (n0, Idle) (n1, w1)" "(node_step V)\<^sup>*\<^sup>* (n1, w1) (n2, w2)"
  shows "node_inv n2 \<and> len (all_tasks n2) \<le> mt \<and> (0 < qs \<longrightarrow> int (qsize (n_queue n2)) \<le> qs) \<and>
    set (keys (all_tasks n1)) \<subseteq> set (keys (all_tasks n2))"
proof -
  note init = PeerNode_Inr [OF assms(1)]
  have "shape.safe n0" using init(1) by (simp add: shape.safe_def)
  from shape.reachable_safe [OF assms(2) this]
  have n1: "shape.safe n1" "same_config n0 n1" "phase_ok n1 w1" by simp_all
  from shape.reachable_safe [OF assms(3) n1(1,3)]
  have n2: "node_inv n2" "same_config n1 n2" "set (keys (n_tasks n1)) \<subseteq> set (keys (n_tasks n2))"
    by (simp_all add: shape.safe_def)
  have "len (n_tasks n2) \<le> mt"
    using n2(1,2) n1(2) init(7) by (simp add: node_inv_def same_config_def)
  moreover have "maxsize (n_queue n2) = qs" using n2(2) n1(2) init(8) by (simp add: same_config_def)
  then have "0 < qs \<longrightarrow> int (qsize (n_queue n2)) \<le> qs"
    using n2(1) by (simp add: node_inv_def queue_wf_def qsize_def)
  ultimately show ?thesis using n2 by (simp add: all_tasks_def)
qed

subsection \<open>Concrete instances\<close>

definition sample_env :: py_env where
  "sample_env = \<lparr>env_ed = sample_ed25519, env_repr = sample_repr, env_parse = sample_parse, env_erfc = (\<lambda>_. 1),
     env_sha256 = (\<lambda>b. b), env_loads = (\<lambda>_. None), env_float = (\<lambda>_. None)\<rparr>"

lemma sample_env_simps [simp]: "env_ed sample_env = sample_ed25519" "env_repr sample_env = sample_repr"
  "env_parse sample_env = sample_parse" "env_erfc sample_env = (\<lambda>_. 1)" "env_loads sample_env = (\<lambda>_. None)"
  "env_sha256 sample_env = (\<lambda>b. b)"
  by (simp_all add: sample_env_def)

definition mesh_ring :: key_ring where
  "mesh_ring = [(''a'', PublicKey [7]), (''b'', PublicKey [9])]"

definition sample_new :: "string \<Rightarrow> node result" where
  "sample_new nid = PeerNode sample_ed25519 nid [''a'', ''b''] True None None 10 20 None
     (KeyPair (if nid = ''a'' then [7] else [9])) mesh_ring default_security_config 2"

lemma sample_node_new:
  assumes "nid = ''a'' \<or> nid = ''b''"
  obtains n where "sample_new nid = Inr n" "n_clock n = VectorClock [(nid, 0)]" "n_queue n = init_queue 10 REJECT_ON_FULL"
    "n_ring n = mesh_ring" "n_replay n = \<lparr>max_entries = 4096, entries = []\<rparr>"
proof -
  let ?key = "KeyPair (if nid = ''a'' then [7] else [9])"
  have "MetricsCollector 7 \<noteq> Inl e" for e
    by (simp add: MetricsCollector_def LogLinearHistogram_def Let_def)
  then obtain mc where mc: "MetricsCollector 7 = Inr mc" by (cases "MetricsCollector 7") auto
  have k: "own_key sample_ed25519 mesh_ring nid ?key = Inr mesh_ring"
    using assms
    by (auto simp: own_key_def get_peer_key_def mesh_ring_def public_to_bytes_def public_key_of_def sample_ed25519_def)
  have "\<forall>p \<in> set (dict_fromkeys (filter (\<lambda>p. p \<noteq> nid) [''a'', ''b''])). p \<noteq> [] \<and> len p \<le> MAX_PEER_ID_LENGTH"
    by (auto simp: dict_fromkeys_def MAX_PEER_ID_LENGTH_def)
  moreover have "nid \<noteq> [] \<and> len nid \<le> MAX_PEER_ID_LENGTH" using assms by (auto simp: MAX_PEER_ID_LENGTH_def)
  moreover have "ReplayCache (replay_cache_size default_security_config) = Inr \<lparr>max_entries = 4096, entries = []\<rparr>"
    by (simp add: ReplayCache_def default_security_config_def)
  ultimately show ?thesis
    using that mc k unfolding sample_new_def PeerNode_def Let_def by simp
qed

lemma sample_sealed:
  assumes "nid = ''a'' \<or> nid = ''b''" "n_id n = nid"
  shows "\<exists>r. seal_record sample_env n
    (new_record ''t1'' PENDING [] None (FenceToken 0 []) 0 (increment (VectorClock [(nid, 0)]) nid) nid) = Inr r"
proof -
  have c: "clock (increment (VectorClock [(nid, 0)]) nid) = [(nid, 1)]"
    by (simp add: increment_def VectorClock_def get_default_def)
  have "dumpable (canonical_doc ((new_record ''t1'' PENDING [] None (FenceToken 0 []) 0
      (increment (VectorClock [(nid, 0)]) nid) nid)\<lparr>signer_id := Some nid\<rparr>))"
    by (simp add: canonical_doc_def new_record_def c hex_json_def max_str_digits_def dec_nat.simps)
  then obtain b where "canonical_task_bytes ((new_record ''t1'' PENDING [] None (FenceToken 0 []) 0
      (increment (VectorClock [(nid, 0)]) nid) nid)\<lparr>signer_id := Some nid\<rparr>) = Inr b"
    using canonical_task_bytes_Inr by blast
  then show ?thesis using assms(2) by (simp add: seal_record_def sign_task_def Let_def)
qed

lemma submit_stores:
  assumes "tid \<noteq> []" "len tid \<le> MAX_TASK_ID_LENGTH" "len pl \<le> MAX_TASK_PAYLOAD" "\<not> store_full n tid" "n_wal n = None"
    and "seal_record V (n\<lparr>n_clock := increment (n_clock n) (n_id n)\<rparr>)
      (new_record tid PENDING pl None (FenceToken 0 []) 0 (increment (n_clock n) (n_id n)) (n_id n)) = Inr r"
  shows "get_task (fst (submit_task V tid pl p n)) tid = Some r"
  using assms
  by (auto simp: submit_task_def Let_def log_update_def count_def store_task_def get_task_def map_of_update
      split: sum.split)

lemma sample_submitted:
  assumes "sample_new ''a'' = Inr n" "n_clock n = VectorClock [(''a'', 0)]"
  shows "\<exists>r. get_task (fst (submit_task sample_env ''t1'' [] 0 n)) ''t1'' = Some r"
proof -
  note i = PeerNode_Inr [OF assms(1) [unfolded sample_new_def]]
  have nf: "\<not> store_full n ''t1''" using i(2,7) by (simp add: store_full_def)
  obtain r where "seal_record sample_env (n\<lparr>n_clock := increment (n_clock n) (n_id n)\<rparr>)
      (new_record ''t1'' PENDING [] None (FenceToken 0 []) 0 (increment (n_clock n) (n_id n)) (n_id n)) = Inr r"
    using sample_sealed [of "''a''" "n\<lparr>n_clock := increment (n_clock n) (n_id n)\<rparr>"] i(3) assms(2) by auto
  from submit_stores [OF _ _ _ nf _ this] show ?thesis
    using i(9) by (simp add: MAX_TASK_ID_LENGTH_def MAX_TASK_PAYLOAD_def)
qed

theorem node_store_authentic_witness:
  "\<exists>n0 n r r0. sample_new ''a'' = Inr n0 \<and> (node_step sample_env)\<^sup>*\<^sup>* (n0, Idle) (n, Idle) \<and>
     get_task n ''t1'' = Some r \<and> verify_task_authorization sample_ed25519 r0 (n_ring n) = Inr True \<and>
     r\<lparr>vector_clock := vector_clock r0\<rparr> = r0"
proof -
  obtain n0 where n0: "sample_new ''a'' = Inr n0" "n_clock n0 = VectorClock [(''a'', 0)]"
    using sample_node_new [of "''a''"] by blast
  let ?n = "fst (submit_task sample_env ''t1'' [] 0 n0)"
  obtain r where r: "get_task ?n ''t1'' = Some r" using sample_submitted [OF n0] by blast
  have step: "(node_step sample_env)\<^sup>*\<^sup>* (n0, Idle) (?n, Idle)" by (intro r_into_rtranclp node_step.Submit)
  have "enabled default_security_config" by (simp add: default_security_config_def)
  from node_store_authentic [OF _ _ this step r, of "''a''"] n0(1) sample_ed25519_correct r step
  show ?thesis unfolding sample_new_def by auto
qed

theorem node_invariant_witness:
  "\<exists>n0. sample_new ''a'' = Inr n0 \<and> node_inv (fst (submit_task sample_env ''t1'' [] 0 n0)) \<and>
     len (all_tasks (fst (submit_task sample_env ''t1'' [] 0 n0))) \<le> 2"
proof -
  obtain n0 where n0: "sample_new ''a'' = Inr n0" using sample_node_new [of "''a''"] by blast
  let ?n = "fst (submit_task sample_env ''t1'' [] 0 n0)"
  have step: "(node_step sample_env)\<^sup>*\<^sup>* (n0, Idle) (?n, Idle)" by (intro r_into_rtranclp node_step.Submit)
  from node_invariant [OF _ rtranclp.rtrancl_refl step] n0 show ?thesis
    unfolding sample_new_def by (metis sample_env_simps(1))
qed

end
