(* ===== verification/Node_Admission.thy ===== *)
theory Node_Admission
  imports Node_Store
begin

section \<open>What a node admits\<close>

text \<open>
  The admission of messages by a node keeps the contract of the message guard, so admitted
  messages are genuine and fresh and no nonce is admitted twice within the window. Two limits
  of the protection are shown as well: a message dated ahead of the receiver's clock outlives
  its entry in the replay cache, and a record with an integer lease that no float can hold
  ends the receive loop.
\<close>

definition node_window :: "node \<Rightarrow> real" where
  "node_window n = seconds (replay_window_seconds (n_security n))"

lemma authenticate_True:
  assumes "enabled (n_security n)" "authenticate_message V n sender m wall = Inr (True, n')"
  obtains nonce t where "sender = msg_sender m" "msg_type m \<in> {''heartbeat'', ''gossip'', ''credit''}"
    "genuine_for (env_ed V) (env_repr V) (n_ring n) (protocol_version (n_security n)) m"
    "msg_timestamp m = Some (Fin t)" "\<bar>wall - t\<bar> \<le> node_window n" "msg_nonce m = Some nonce"
    "check_and_remember (n_replay n) sender nonce wall (node_window n) = (True, n_replay n')"
    "n' = n\<lparr>n_replay := n_replay n'\<rparr>"
proof -
  obtain ts nonce c where a: "sender = msg_sender m" "msg_type m \<in> {''heartbeat'', ''gossip'', ''credit''}"
    "msg_version m = protocol_version (n_security n)" "verify_signature (env_ed V) (env_repr V) m (n_ring n) = Inr True"
    "msg_timestamp m = Some ts" "msg_nonce m = Some nonce" "\<not> outside_window (node_window n) wall ts"
    "check_and_remember (n_replay n) sender nonce wall (node_window n) = (True, c)" "n' = n\<lparr>n_replay := c\<rparr>"
    using assms
    by (auto simp: authenticate_message_def rbind_Inr_iff Let_def node_window_def split: if_splits option.splits prod.splits)
  moreover obtain t where "ts = Fin t" "\<bar>wall - t\<bar> \<le> node_window n"
    using outside_window_False [OF a(7)] verify_signature_not_nan [OF a(4)] a(5) by auto
  ultimately show ?thesis using that by (simp add: genuine_for_def)
qed

interpretation ng: message_guard "authenticate_message V" "\<lambda>n. enabled (n_security n)" n_replay node_window
  "\<lambda>n. genuine_for (env_ed V) (env_repr V) (n_ring n) (protocol_version (n_security n))" for V
proof
  fix n n' :: node and sender m now
  assume "enabled (n_security n)" "authenticate_message V n sender m now = Inr (True, n')"
  then show "genuine_for (env_ed V) (env_repr V) (n_ring n) (protocol_version (n_security n)) m \<and>
      fresh_at (node_window n) now m \<and>
      (\<exists>nonce. msg_nonce m = Some nonce \<and>
        check_and_remember (n_replay n) (msg_sender m) nonce now (node_window n) = (True, n_replay n'))"
    by (elim authenticate_True) (auto simp: fresh_at_def)
next
  fix n n' :: node and sender m now
  assume "enabled (n_security n)" "authenticate_message V n sender m now = Inr (False, n')"
  then show "n_replay n' = n_replay n \<or>
      (\<exists>nonce. check_and_remember (n_replay n) (msg_sender m) nonce now (node_window n) = (False, n_replay n'))"
    by (auto simp: authenticate_message_def rbind_Inr_iff Let_def node_window_def
        split: if_splits option.splits prod.splits)
next
  fix n n' :: node and sender m now b
  assume "enabled (n_security n)" "authenticate_message V n sender m now = Inr (b, n')"
  then have "\<exists>c. n' = n\<lparr>n_replay := c\<rparr>"
    by (auto simp: authenticate_message_def rbind_Inr_iff Let_def
        split: if_splits option.splits prod.splits intro: exI [of _ "n_replay n"])
  with \<open>enabled (n_security n)\<close>
  show "enabled (n_security n') \<and> node_window n' = node_window n \<and>
      genuine_for (env_ed V) (env_repr V) (n_ring n') (protocol_version (n_security n')) =
      genuine_for (env_ed V) (env_repr V) (n_ring n) (protocol_version (n_security n))"
    by (auto simp: node_window_def)
qed

text \<open>The answers of a node to the messages its transport delivers.\<close>

fun authenticate_all :: "py_env \<Rightarrow> node \<Rightarrow> (string \<times> message \<times> real) list \<Rightarrow> (bool list \<times> node) result" where
  "authenticate_all V n [] = Inr ([], n)"
| "authenticate_all V n ((sender, m, wall) # arrivals) =
     rbind (authenticate_message V n sender m wall) (\<lambda>(b, n').
     rbind (authenticate_all V n' arrivals) (\<lambda>(bs, n''). Inr (b # bs, n'')))"

lemma authenticate_all_eq: "authenticate_all V n arrivals = ng.guards V n arrivals"
  by (induction V n arrivals rule: authenticate_all.induct) (simp_all add: case_prod_unfold)


subsection \<open>A message dated ahead\<close>

lemma authenticate_valid:
  assumes "enabled (n_security n)" "msg_version m = protocol_version (n_security n)"
    "msg_type m \<in> {''heartbeat'', ''gossip'', ''credit''}"
    "verify_signature (env_ed V) (env_repr V) m (n_ring n) = Inr True"
    "msg_timestamp m = Some (Fin t)" "\<bar>wall - t\<bar> \<le> node_window n" "msg_nonce m = Some nonce"
    "check_and_remember (n_replay n) (msg_sender m) nonce wall (node_window n) = (b, c)"
  shows "authenticate_message V n (msg_sender m) m wall = Inr (b, n\<lparr>n_replay := c\<rparr>)"
proof -
  have "has_peer (n_ring n) (msg_sender m)"
    using assms(4) by (auto simp: verify_signature_True has_peer_def has_key_def)
  with assms show ?thesis by (auto simp: authenticate_message_def node_window_def)
qed

lemma drop_stale_all: "\<forall>e \<in> set d. snd e < cutoff \<Longrightarrow> drop_stale cutoff d = []"
  by (induction d) auto

lemma snd_set_check_and_remember:
  assumes "check_and_remember c s n now w = (b, c')" "\<forall>e \<in> set (entries c). snd e \<le> now"
  shows "\<forall>e \<in> set (entries c'). snd e \<le> now"
proof -
  have sub: "set (drop_stale (now - w) (entries c)) \<subseteq> set (entries c)"
    using drop_stale_suffix [of "entries c" "now - w"] by (metis Un_upper2 set_append)
  have ev: "set (evict k d) \<subseteq> set d" for k and d :: "(string \<times> string, real) dict"
    using evict_suffix [of d k] by (metis Un_upper2 set_append)
  have "\<forall>e \<in> set (AList.update (s, n) now d). snd e \<le> now"
    if "\<forall>e \<in> set d. snd e \<le> now" for d :: "(string \<times> string, real) dict"
    using that by (induction d) auto
  then have up: "\<forall>e \<in> set (AList.update (s, n) now (drop_stale (now - w) (entries c))). snd e \<le> now"
    using assms(2) sub by blast
  show ?thesis
  proof (cases "has_key (drop_stale (now - w) (entries c)) (s, n)")
    case True
    then have "entries c' = drop_stale (now - w) (entries c)"
      using assms(1) by (simp add: check_and_remember_def Let_def) auto
    then show ?thesis using assms(2) sub by auto
  next
    case False
    then have "entries c' = evict (max_entries c) (AList.update (s, n) now (drop_stale (now - w) (entries c)))"
      using assms(1) by (simp add: check_and_remember_def Let_def) auto
    then have "set (entries c') \<subseteq> set (AList.update (s, n) now (drop_stale (now - w) (entries c)))"
      by (simp only: ev)
    then show ?thesis using up by blast
  qed
qed

text \<open>
  The protection is shorter than the acceptance. A message dated one window ahead of the
  receiver's clock is admitted, and admitted a second time by the same node, unchanged, at any
  time after its nonce has left the cache and before two windows have passed.
\<close>

theorem future_dated_replayed:
  assumes "enabled (n_security n)" "0 < max_entries (n_replay n)"
    and "\<forall>e \<in> set (entries (n_replay n)). snd e \<le> wall"
    and "authenticate_message V n sender m wall = Inr (True, n1)"
    and "msg_timestamp m = Some (Fin (wall + node_window n))"
    and "wall + node_window n < wall'" "wall' \<le> wall + 2 * node_window n"
  shows "\<exists>n2. authenticate_message V n1 sender m wall' = Inr (True, n2)"
proof -
  obtain nonce where a: "sender = msg_sender m" "msg_type m \<in> {''heartbeat'', ''gossip'', ''credit''}"
    "genuine_for (env_ed V) (env_repr V) (n_ring n) (protocol_version (n_security n)) m" "msg_nonce m = Some nonce"
    "check_and_remember (n_replay n) sender nonce wall (node_window n) = (True, n_replay n1)"
    "n1 = n\<lparr>n_replay := n_replay n1\<rparr>"
    using assms(1,4) by (elim authenticate_True)
  have n1: "n_security n1 = n_security n" "n_ring n1 = n_ring n" "node_window n1 = node_window n"
    by (subst a(6), simp add: node_window_def)+
  have "\<forall>e \<in> set (entries (n_replay n1)). snd e < wall' - node_window n"
    using snd_set_check_and_remember [OF a(5) assms(3)] assms(6) by force
  from drop_stale_all [OF this]
  have c: "\<exists>c. check_and_remember (n_replay n1) (msg_sender m) nonce wall' (node_window n1) = (True, c)"
    by (simp add: check_and_remember_def n1(3) has_key_def)
  then obtain c where c: "check_and_remember (n_replay n1) (msg_sender m) nonce wall' (node_window n1) = (True, c)" ..
  have "authenticate_message V n1 (msg_sender m) m wall' = Inr (True, n1\<lparr>n_replay := c\<rparr>)"
    using assms(1,6,7) a(2-4) n1
    by (intro authenticate_valid [OF _ _ _ _ assms(5) _ _ c]) (auto simp: genuine_for_def)
  then show ?thesis using a(1) by blast
qed

subsection \<open>A record that ends the receive loop\<close>

lemma float_of_int_overflow:
  assumes "float_limit \<le> nat \<bar>i\<bar>"
  shows "float_of_int i = Inl OverflowError"
proof -
  let ?n = "nat \<bar>i\<bar>" and ?k = "floorlog 2 (nat \<bar>i\<bar>)"
  have "0 < ?n" using assms by (simp add: float_limit_def)
  then have n: "2 ^ (?k - 1) \<le> ?n" by (intro floorlog_bounds [of ?n 2, THEN conjunct1]) simp_all
  have "1025 \<le> ?k"
    using assms floorlog_ge_SucI [of 2 1024 ?n] unfolding float_limit_def by simp
  then have k: "?k - 1 = 52 + (?k - 53)" "1024 \<le> ?k - 1" by simp_all
  let ?u = "2 ^ (?k - 53) :: nat"
  have "2 ^ (?k - 1) = 2 ^ 52 * ?u" by (simp only: k(1) power_add)
  then have "2 ^ 52 * ?u \<le> ?n" using n by simp
  then have q: "2 ^ 52 \<le> ?n div ?u" by (simp add: less_eq_div_iff_mult_less_eq)
  have "?n div ?u \<le> round_half_even ?n ?u" by (simp add: round_half_even_def Let_def)
  then have "2 ^ 52 * ?u \<le> round_half_even ?n ?u * ?u" using q by (intro mult_right_mono) simp_all
  moreover have "float_limit \<le> 2 ^ (?k - 1)" unfolding float_limit_def by (rule power_increasing [OF k(2)]) simp
  ultimately have "float_limit \<le> round_half_even ?n ?u * ?u"
    using \<open>2 ^ (?k - 1) = 2 ^ 52 * ?u\<close> by linarith
  then show ?thesis by (simp add: float_of_int_def Let_def)
qed

lemma from_dict_huge_lease:
  assumes "from_dict (JDict d) = Inr r" "float_limit \<le> nat \<bar>i\<bar>"
  shows "from_dict (JDict (AList.update ''lease_expiry'' (JInt i) d)) = Inl OverflowError"
proof -
  let ?d = "AList.update ''lease_expiry'' (JInt i) d"
  have g: "jget ?d k = (if k = ''lease_expiry'' then JInt i else jget d k)" for k
    by (simp add: jget_def get_default_update)
  show ?thesis
    using assms(1) float_of_int_overflow [OF assms(2)]
    unfolding from_dict_def rbind_Inr_iff by (clarsimp simp: g)
qed

text \<open>
  One record stops a receiver. If an admitted gossip message carries, for any acceptable
  record, its JSON object with an integer lease expiry beyond the range of a float, then
  \<^verbatim>\<open>OverflowError\<close> leaves the body of \<^verbatim>\<open>_recv_loop\<close>, which catches nothing there: the loop ends
  and the node handles no further message.
\<close>

theorem huge_lease_ends_receive_loop:
  assumes "authenticate_message V n sender m wall = Inr (True, n1)" "msg_type m = ''gossip''"
    and "msg_payload m = [(''tasks'', JDict ((tid, JDict (AList.update ''lease_expiry'' (JInt i) d)) # rest))]"
    and "from_dict (JDict d) = Inr r" "float_limit \<le> nat \<bar>i\<bar>"
    and "len rest < max_gossip_tasks (n_security n1)"
  shows "receive V sender m now wall n = (n1, Some OverflowError)"
  using assms(1-3,6) from_dict_huge_lease [OF assms(4,5)]
  by (simp add: receive_def on_gossip_def get_default_def gossip_entry_def)

subsection \<open>Messages of registered peers are admitted\<close>

lemma signed_fields:
  assumes "signed E fr key ts token None (Message ty s pl v) = Inr m"
  shows "msg_type m = ty" "msg_sender m = s" "msg_payload m = pl" "msg_version m = v"
    "msg_timestamp m = Some ts" "msg_nonce m = Some token"
  using assms by (auto simp: signed_Inr Let_def Message_def)

lemma signed_admitted:
  assumes "ed25519_correct (env_ed V)" "enabled (n_security n)"
    and "signed (env_ed V) (env_repr V) key (Fin t) token None (Message ty s pl (protocol_version (n_security n))) = Inr m"
    and "map_of (n_ring n) s = Some (public_key_of (env_ed V) key)" "ty \<in> {''heartbeat'', ''gossip'', ''credit''}"
    and "\<bar>wall - t\<bar> \<le> node_window n"
    and "check_and_remember (n_replay n) s token wall (node_window n) = (b, c)"
  shows "authenticate_message V n s m wall = Inr (b, n\<lparr>n_replay := c\<rparr>)"
proof -
  note f = signed_fields [OF assms(3)]
  have "verify_signature (env_ed V) (env_repr V) m (n_ring n) = Inr True"
    using assms(4) by (intro signed_verifies [OF assms(1,3)]) (simp add: Message_def)
  from authenticate_valid [OF assms(2) _ _ this f(5) assms(6) f(6), of b c] f assms(5,7) show ?thesis by simp
qed

lemma sample_admitted:
  assumes "sample_new ''b'' = Inr n" "n_ring n = mesh_ring" "n_replay n = \<lparr>max_entries = 4096, entries = []\<rparr>"
    and "ty \<in> {''heartbeat'', ''gossip'', ''credit''}" "dumpable (JDict pl)" "\<bar>wall - t\<bar> \<le> 30"
  shows "\<exists>m c. msg_type m = ty \<and> msg_payload m = pl \<and> msg_sender m = ''a'' \<and> msg_timestamp m = Some (Fin t) \<and>
    msg_nonce m = Some ''n'' \<and> authenticate_message sample_env n ''a'' m wall = Inr (True, n\<lparr>n_replay := c\<rparr>)"
proof -
  have sec: "n_security n = default_security_config" using PeerNode_Inr(5) assms(1) unfolding sample_new_def by blast
  have win: "node_window n = 30" by (simp add: node_window_def sec default_security_config_def)
  let ?m = "(Message ty ''a'' pl 2)\<lparr>msg_timestamp := Some (Fin t), msg_nonce := Some ''n''\<rparr>"
  have "dumpable (JDict (unsigned_document ?m))"
    using assms(5) by (simp add: unsigned_document_def Message_def max_str_digits_def dec_nat.simps)
  then obtain b where b: "canonical_bytes sample_repr ?m = Inr b"
    by (auto simp: canonical_bytes_def canonical_json_bytes_def dumps_def)
  then have "signed sample_ed25519 sample_repr (KeyPair [7]) (Fin t) ''n'' None (Message ty ''a'' pl 2) =
      Inr (?m\<lparr>msg_signature := Some (key_sign sample_ed25519 (KeyPair [7]) b)\<rparr>)"
    by (simp add: signed_def Message_def)
  then have s: "signed (env_ed sample_env) (env_repr sample_env) (KeyPair [7]) (Fin t) ''n'' None
      (Message ty ''a'' pl (protocol_version (n_security n))) =
      Inr (?m\<lparr>msg_signature := Some (key_sign sample_ed25519 (KeyPair [7]) b)\<rparr>)"
    by (simp add: sec default_security_config_def PROTOCOL_VERSION_def)
  have "\<exists>c. check_and_remember (n_replay n) ''a'' ''n'' wall (node_window n) = (True, c)"
    by (simp add: check_and_remember_def assms(3) has_key_def)
  then obtain c where c: "check_and_remember (n_replay n) ''a'' ''n'' wall (node_window n) = (True, c)" ..
  have "authenticate_message sample_env n ''a'' (?m\<lparr>msg_signature := Some (key_sign sample_ed25519 (KeyPair [7]) b)\<rparr>) wall
      = Inr (True, n\<lparr>n_replay := c\<rparr>)"
    using assms(2,4,6) sample_ed25519_correct win
    by (intro signed_admitted [OF _ _ s _ _ _ c])
       (simp_all add: sec default_security_config_def mesh_ring_def public_key_of_def sample_ed25519_def)
  then show ?thesis using signed_fields [OF s] by blast
qed


theorem future_dated_replayed_witness:
  "\<exists>n m n1 n2. sample_new ''b'' = Inr n \<and> authenticate_message sample_env n ''a'' m 0 = Inr (True, n1) \<and>
     authenticate_message sample_env n1 ''a'' m 40 = Inr (True, n2)"
proof -
  obtain n where n: "sample_new ''b'' = Inr n" "n_ring n = mesh_ring" "n_replay n = \<lparr>max_entries = 4096, entries = []\<rparr>"
    using sample_node_new [of "''b''"] by blast
  have sec: "n_security n = default_security_config" using PeerNode_Inr(5) n(1) unfolding sample_new_def by blast
  have win: "node_window n = 30" by (simp add: node_window_def sec default_security_config_def)
  obtain m c where m: "authenticate_message sample_env n ''a'' m 0 = Inr (True, n\<lparr>n_replay := c\<rparr>)"
    "msg_timestamp m = Some (Fin 30)"
    using sample_admitted [OF n, of "''credit''" "[]" 0 30] by auto
  obtain n2 where "authenticate_message sample_env (n\<lparr>n_replay := c\<rparr>) ''a'' m 40 = Inr (True, n2)"
    using future_dated_replayed [OF _ _ _ m(1), of 40] m(2) n(3) win
    by (auto simp: sec default_security_config_def)
  with n(1) m(1) show ?thesis by blast
qed

lemma length_dec_nat: "n < 10 ^ k \<Longrightarrow> 0 < k \<Longrightarrow> length (dec_nat n) \<le> k"
proof (induction n arbitrary: k rule: dec_nat.induct)
  case (1 n)
  show ?case
  proof (cases "n < 10")
    case False
    then obtain j where j: "k = Suc j" "0 < j" using 1(2,3) by (cases k; cases "k - 1") auto
    then have "n div 10 < 10 ^ j" using 1(2) by (simp add: less_mult_imp_div_less)
    then show ?thesis using 1(1) [OF False, of j] j False by (subst dec_nat.simps) simp
  qed (use 1(3) in \<open>subst dec_nat.simps, simp\<close>)
qed

lemma sample_huge: "\<exists>i. float_limit \<le> nat \<bar>i\<bar> \<and> dumpable (JInt i)"
proof -
  have "float_limit \<le> (10 ^ 1024 :: nat)" unfolding float_limit_def by (rule power_mono) simp_all
  also have "\<dots> < 10 ^ max_str_digits" unfolding max_str_digits_def by (rule power_strict_increasing) simp_all
  finally have "length (dec_nat float_limit) \<le> max_str_digits"
    by (rule length_dec_nat) (simp add: max_str_digits_def)
  then have "dumpable (JInt (int float_limit))" by (simp only: dumpable.simps abs_of_nat nat_int)
  then show ?thesis by (intro exI [of _ "int float_limit"]) (simp only: abs_of_nat nat_int order_refl simp_thms)
qed

theorem huge_lease_ends_receive_loop_witness:
  "\<exists>n m n1. sample_new ''b'' = Inr n \<and> receive sample_env ''a'' m 5 5 n = (n1, Some OverflowError)"
proof -
  obtain n where n: "sample_new ''b'' = Inr n" "n_ring n = mesh_ring" "n_replay n = \<lparr>max_entries = 4096, entries = []\<rparr>"
    using sample_node_new [of "''b''"] by blast
  have sec: "n_security n = default_security_config" using PeerNode_Inr(5) n(1) unfolding sample_new_def by blast
  obtain i where i: "float_limit \<le> nat \<bar>i\<bar>" "dumpable (JInt i)" using sample_huge by blast
  obtain d where d: "to_dict sample_record = JDict d" by (simp add: to_dict_def)
  have r: "from_dict (JDict d) = Inr sample_record"
    using from_dict_to_dict [OF sample_record_ok(1)] sample_record_ok(2) d by simp
  let ?pl = "[(''tasks'', JDict [(''t1'', JDict (AList.update ''lease_expiry'' (JInt i) d))])]"
  have "\<forall>v \<in> snd ` set d. dumpable v" using sample_record_printable d by (simp add: printable_def)
  with i(2) have "\<forall>v \<in> insert (JInt i) (snd ` set d). dumpable v" by (simp only: ball_simps simp_thms)
  then have "\<forall>v \<in> snd ` set (AList.update ''lease_expiry'' (JInt i) d). dumpable v"
    using snd_set_update [of "''lease_expiry''" "JInt i" d] by (meson subsetD)
  then have "dumpable (JDict ?pl)" by simp
  then obtain m c where m: "authenticate_message sample_env n ''a'' m 5 = Inr (True, n\<lparr>n_replay := c\<rparr>)"
    "msg_type m = ''gossip''" "msg_payload m = ?pl"
    using sample_admitted [OF n, of "''gossip''" ?pl 5 5] by auto
  have "receive sample_env ''a'' m 5 5 n = (n\<lparr>n_replay := c\<rparr>, Some OverflowError)"
    by (rule huge_lease_ends_receive_loop [OF m r i(1)]) (simp add: sec default_security_config_def)
  with n(1) show ?thesis by blast
qed

end
