(* ===== verification/Node_Leases.thy ===== *)
theory Node_Leases
  imports Node_Admission
begin

section \<open>Leases, fencing and reclaim\<close>

text \<open>
  When a node takes a task over, when it commits a result, and whom the peers elect to reclaim
  an orphaned task.
\<close>

subsection \<open>Effects of a handler on one task\<close>

lemma store_task_simps [simp]:
  "map_of (n_tasks (store_task tid r n)) k = (if k = tid then Some r else map_of (n_tasks n) k)"
  "n_sent (store_task tid r n) = n_sent n" "n_id (store_task tid r n) = n_id n" "n_peers (store_task tid r n) = n_peers n"
  "n_security (store_task tid r n) = n_security n" "n_identity (store_task tid r n) = n_identity n"
  "n_wal (store_task tid r n) = n_wal n" "n_clock (store_task tid r n) = n_clock n"
  "n_queue (store_task tid r n) = n_queue n" "n_queued (store_task tid r n) = n_queued n"
  by (simp_all add: store_task_def map_of_update)

lemma count_simps [simp]:
  "n_tasks (count c n) = n_tasks n" "n_sent (count c n) = n_sent n" "n_id (count c n) = n_id n" "n_peers (count c n) = n_peers n"
  "n_security (count c n) = n_security n" "n_identity (count c n) = n_identity n" "n_queue (count c n) = n_queue n"
  "n_queued (count c n) = n_queued n" "n_wal (count c n) = n_wal n" "n_clock (count c n) = n_clock n"
  by (simp_all add: count_def)

lemma send_all_simps [simp]:
  "n_tasks (send_all ps m n) = n_tasks n" "n_sent (send_all ps m n) = n_sent n @ map (\<lambda>p. (p, m)) ps"
  "n_id (send_all ps m n) = n_id n" "n_peers (send_all ps m n) = n_peers n"
  by (simp_all add: send_all_def)

lemma log_update_simps [simp]:
  "n_tasks (fst (log_update V r n)) = n_tasks n" "n_sent (fst (log_update V r n)) = n_sent n"
  "n_id (fst (log_update V r n)) = n_id n" "n_peers (fst (log_update V r n)) = n_peers n"
  "n_security (fst (log_update V r n)) = n_security n" "n_identity (fst (log_update V r n)) = n_identity n"
  by (simp_all add: log_update_def split: option.split sum.split prod.split)

lemma and_then_None: "and_then m f = (n', None) \<longleftrightarrow> (\<exists>n1. m = (n1, None) \<and> f n1 = (n', None))"
  by (cases "(m, f)" rule: and_then.cases) auto

text \<open>A sealed record is the record with a signature, or the record itself.\<close>

definition unsealed :: "task_record \<Rightarrow> task_record" where
  "unsealed r = r\<lparr>signature := None, signer_id := None\<rparr>"

lemma sealed_content: "seal_record V n r = Inr s \<Longrightarrow> unsealed s = unsealed r"
  by (auto simp: seal_record_def sign_task_def Let_def rbind_Inr_iff unsealed_def split: if_splits)

lemma unsealed_fields:
  assumes "unsealed s = unsealed r"
  shows "task_id s = task_id r" "state s = state r" "payload s = payload r" "result s = result r" "error s = error r"
    "claimed_by s = claimed_by r" "fence_token s = fence_token r" "lease_expiry s = lease_expiry r"
    "vector_clock s = vector_clock r" "updated_by s = updated_by r"
  using assms by (cases r; cases s; simp add: unsealed_def)+

lemma broadcast_done:
  assumes "broadcast_task_update V tid r wall token n = (n', None)"
  obtains s m where "unsealed s = unsealed r" "get_task n' tid = Some s"
    "\<forall>k. k \<noteq> tid \<longrightarrow> get_task n' k = get_task n k"
    "n_sent n' = n_sent n @ map (\<lambda>p. (p, m)) (n_peers n)" "msg_type m = ''gossip''"
    "msg_payload m = gossip_payload [(tid, s)]" "n_id n' = n_id n" "n_peers n' = n_peers n"
proof -
  obtain s where s: "seal_record V n r = Inr s" using assms by (auto simp: broadcast_task_update_def split: sum.splits)
  obtain n1 where n1: "log_update V s (store_task tid s n) = (n1, None)"
    "(case signed_message V n1 ''gossip'' (gossip_payload [(tid, s)]) wall token of
        Inl e \<Rightarrow> (n1, Some e) | Inr m \<Rightarrow> (send_all (n_peers n1) m n1, None)) = (n', None)"
    using assms s by (auto simp: broadcast_task_update_def and_then_None)
  then obtain m where m: "signed_message V n1 ''gossip'' (gossip_payload [(tid, s)]) wall token = Inr m"
    "n' = send_all (n_peers n1) m n1"
    by (auto split: sum.splits)
  have "n1 = fst (log_update V s (store_task tid s n))" by (simp add: n1(1))
  then have e: "n_tasks n1 = n_tasks (store_task tid s n)" "n_sent n1 = n_sent n" "n_peers n1 = n_peers n" "n_id n1 = n_id n"
    by simp_all
  show ?thesis
    by (rule that [of s m])
       (use sealed_content [OF s] m e signed_fields [OF m(1) [unfolded signed_message_def]]
        in \<open>simp_all add: get_task_def\<close>)
qed

subsection \<open>Commit\<close>

lemma worker_commit_refused:
  "now > job_lease j \<or> superseded n j \<Longrightarrow>
   worker_commit V j a now wall token1 token2 n = (count ''rejected'' n, None)"
  by (auto simp: worker_commit_def)

lemma return_credit_tasks [simp]:
  "n_tasks (fst (return_credit V j wall token n)) = n_tasks n"
  by (simp add: return_credit_def split: sum.split)

lemma return_credit_sent: "\<exists>xs. n_sent (fst (return_credit V j wall token n)) = n_sent n @ xs"
  by (auto simp: return_credit_def split: sum.split)

text \<open>
  C3: fenced commit. A worker whose lease has run out when the handler answers, or whose token
  is lower than the one in its store, changes nothing but the counter of rejections: no record,
  no log entry, no message. Otherwise, unless sealing or logging raises, the store holds the
  terminal record with the handler's answer under the token of the claim, and every peer is
  sent exactly that record.
\<close>

theorem worker_commit_fenced:
  assumes "worker_commit V j a now wall token1 token2 n = (n', e)"
  shows "(now > job_lease j \<or> superseded n j \<longrightarrow> n' = count ''rejected'' n \<and> e = None) \<and>
    (now \<le> job_lease j \<and> \<not> superseded n j \<and> e = None \<longrightarrow>
      (\<exists>r m. get_task n' (job_task j) = Some r \<and> fence_token r = job_token j \<and> claimed_by r = Some (n_id n) \<and>
        (case a of Inl err \<Rightarrow> state r = FAILED \<and> error r = Some err \<and> result r = None
                 | Inr b \<Rightarrow> state r = DONE \<and> result r = Some b \<and> error r = None) \<and>
        (\<forall>k. k \<noteq> job_task j \<longrightarrow> get_task n' k = get_task n k) \<and>
        msg_payload m = gossip_payload [(job_task j, r)] \<and> (\<forall>p \<in> set (n_peers n). (p, m) \<in> set (n_sent n'))))"
proof (intro conjI impI)
  assume "now > job_lease j \<or> superseded n j"
  from worker_commit_refused [OF this, of V a wall token1 token2] assms
  show "n' = count ''rejected'' n" "e = None" by simp_all
next
  assume ok: "now \<le> job_lease j \<and> \<not> superseded n j \<and> e = None"
  let ?n1 = "n\<lparr>n_clock := increment (n_clock n) (n_id n)\<rparr>"
  obtain r where r: "seal_record V ?n1 (committed_record ?n1 j a) = Inr r"
    using assms ok by (auto simp: worker_commit_def Let_def split: sum.splits)
  obtain n2 where n2: "broadcast_task_update V (job_task j) r wall token1 (store_task (job_task j) r ?n1) = (n2, None)"
    "return_credit V j wall token2 (count (case a of Inl _ \<Rightarrow> ''failed'' | Inr _ \<Rightarrow> ''completed'') n2) = (n', None)"
    using assms ok r by (auto simp: worker_commit_def and_then_None not_less [symmetric])
  obtain s m where s: "unsealed s = unsealed r" "get_task n2 (job_task j) = Some s"
    "\<forall>k. k \<noteq> job_task j \<longrightarrow> get_task n2 k = get_task (store_task (job_task j) r ?n1) k"
    "n_sent n2 = n_sent n @ map (\<lambda>p. (p, m)) (n_peers n)" "msg_payload m = gossip_payload [(job_task j, s)]"
    using broadcast_done [OF n2(1)] by (metis store_task_simps(2,4) node.select_convs(5,19) node.surjective node.update_convs(13))
  have t: "n_tasks n' = n_tasks n2" using return_credit_tasks [of V j wall token2] n2(2) by (metis count_simps(1) fst_conv)
  obtain xs where x: "n_sent n' = n_sent n2 @ xs"
    using return_credit_sent [of V j wall token2] n2(2) by (metis count_simps(2) fst_conv)
  note f = unsealed_fields [OF s(1)] unsealed_fields [OF sealed_content [OF r]]
  have "fence_token s = job_token j" "claimed_by s = Some (n_id n)"
    "case a of Inl err \<Rightarrow> state s = FAILED \<and> error s = Some err \<and> result s = None
             | Inr b \<Rightarrow> state s = DONE \<and> result s = Some b \<and> error s = None"
    using f by (simp_all add: committed_record_def new_record_def split: sum.split)
  then show "\<exists>r m. get_task n' (job_task j) = Some r \<and> fence_token r = job_token j \<and> claimed_by r = Some (n_id n) \<and>
        (case a of Inl err \<Rightarrow> state r = FAILED \<and> error r = Some err \<and> result r = None
                 | Inr b \<Rightarrow> state r = DONE \<and> result r = Some b \<and> error r = None) \<and>
        (\<forall>k. k \<noteq> job_task j \<longrightarrow> get_task n' k = get_task n k) \<and>
        msg_payload m = gossip_payload [(job_task j, r)] \<and> (\<forall>p \<in> set (n_peers n). (p, m) \<in> set (n_sent n'))"
    using s(2-5) t x by (intro exI [of _ s] exI [of _ m]) (auto simp: get_task_def)
qed

text \<open>
  The check can be defeated. A record with a higher token that arrives while the claim is
  being broadcast is overwritten, unread, by the running record of the claim; after that the
  token is no longer superseded and the commit goes through.
\<close>

theorem running_record_hides_successor:
  assumes "get_task n (job_task j) = Some cur" "job_token j < fence_token cur" "worker_run V j n = (n1, None)"
  shows "superseded n j \<and> \<not> superseded n1 j \<and>
    (\<exists>r. get_task n1 (job_task j) = Some r \<and> state r = RUNNING \<and> fence_token r < fence_token cur)"
proof -
  obtain r where r: "seal_record V n (new_record (job_task j) RUNNING (job_payload j) (Some (n_id n)) (job_token j)
      (job_lease j) (n_clock n) (n_id n)) = Inr r" "n1 = store_task (job_task j) r n"
    using assms(3) by (auto simp: worker_run_def split: sum.splits)
  note f = unsealed_fields [OF sealed_content [OF r(1)]]
  show ?thesis using assms(1,2) f by (simp add: superseded_def r(2) get_task_def new_record_def)
qed

subsection \<open>Taking over\<close>


subsection \<open>Election\<close>

lemma max_by_max:
  "max_by f b xs \<in> insert b (set xs) \<and> (\<forall>x \<in> insert b (set xs). f x \<le> f (max_by f b xs))"
proof (induction f b xs rule: max_by.induct)
  case (2 f best x xs)
  then show ?case by (cases "f x > f best") auto
qed simp

lemma rendezvous_max:
  "cs \<noteq> [] \<Longrightarrow> \<exists>p \<in> set cs. rendezvous_reclaimer V tid cs = Some p \<and> (\<forall>q \<in> set cs. score V tid q \<le> score V tid p)"
  using max_by_max [of "score V tid" "hd cs" "tl cs"] by (cases cs) (auto simp: rendezvous_reclaimer_def)

text \<open>
  Agreement on the reclaimer. Peers that see the same live peers, each in its own order,
  elect the same one of them, provided the scores of the live peers for the task differ; so
  exactly one of them finds itself elected.
\<close>

theorem reclaimer_agreement:
  assumes "cs \<noteq> []" "set cs = set cs'" "inj_on (score V tid) (set cs)"
  shows "\<exists>p \<in> set cs. rendezvous_reclaimer V tid cs = Some p \<and> rendezvous_reclaimer V tid cs' = Some p"
proof -
  have "cs' \<noteq> []" using assms(1,2) by auto
  obtain p where p: "p \<in> set cs" "rendezvous_reclaimer V tid cs = Some p" "\<forall>q \<in> set cs. score V tid q \<le> score V tid p"
    using rendezvous_max [OF assms(1)] by blast
  obtain p' where p': "p' \<in> set cs'" "rendezvous_reclaimer V tid cs' = Some p'" "\<forall>q \<in> set cs'. score V tid q \<le> score V tid p'"
    using rendezvous_max [OF \<open>cs' \<noteq> []\<close>] by blast
  have "score V tid p = score V tid p'" using p p' assms(2) by (simp add: le_antisym)
  then have "p = p'" using inj_onD [OF assms(3)] p(1) p'(1) assms(2) by simp
  with p p' show ?thesis by blast
qed

subsection \<open>Concrete instances\<close>

definition sample_job :: job where
  "sample_job = \<lparr>job_task = ''t1'', job_token = FenceToken 1 ''a'', job_lease = 5, job_payload = [], job_submitter = ''b''\<rparr>"

theorem worker_commit_fenced_witness:
  "\<exists>n. sample_new ''a'' = Inr n \<and>
     worker_commit sample_env sample_job (Inr [1]) 6 6 ''x'' ''y'' n = (count ''rejected'' n, None)"
proof -
  obtain n where n: "sample_new ''a'' = Inr n" using sample_node_new [of "''a''"] by blast
  obtain n' e where c: "worker_commit sample_env sample_job (Inr [1]) 6 6 ''x'' ''y'' n = (n', e)" by fastforce
  have "6 > job_lease sample_job" by (simp add: sample_job_def)
  with worker_commit_fenced [OF c] n c show ?thesis by auto
qed

theorem running_record_hides_successor_witness:
  "\<exists>n n1. superseded n sample_job \<and> worker_run sample_env sample_job n = (n1, None) \<and> \<not> superseded n1 sample_job"
proof -
  obtain n0 where n0: "sample_new ''a'' = Inr n0" "n_clock n0 = VectorClock [(''a'', 0)]"
    using sample_node_new [of "''a''"] by blast
  let ?cur = "sample_record\<lparr>fence_token := FenceToken 5 ''b''\<rparr>"
  let ?n = "store_task ''t1'' ?cur n0"
  have i: "n_id n0 = ''a''" using PeerNode_Inr(3) n0(1) unfolding sample_new_def by blast
  let ?r = "new_record ''t1'' RUNNING [] (Some ''a'') (FenceToken 1 ''a'') 5 (VectorClock [(''a'', 0)]) ''a''"
  have "dumpable (canonical_doc (?r\<lparr>signer_id := Some ''a''\<rparr>))"
    by (simp add: canonical_doc_def new_record_def VectorClock_def hex_json_def max_str_digits_def dec_nat.simps)
  then obtain b where "canonical_task_bytes (?r\<lparr>signer_id := Some ''a''\<rparr>) = Inr b"
    using canonical_task_bytes_Inr by blast
  then have "\<exists>r. seal_record sample_env ?n ?r = Inr r"
    using i by (simp add: seal_record_def sign_task_def Let_def)
  then obtain n1 where n1: "worker_run sample_env sample_job ?n = (n1, None)"
    using i n0(2) by (auto simp: worker_run_def sample_job_def)
  have "get_task ?n (job_task sample_job) = Some ?cur" "job_token sample_job < fence_token ?cur"
    by (simp_all add: get_task_def sample_job_def less_fence_token_def)
  from running_record_hides_successor [OF this n1] n1 show ?thesis by blast
qed


theorem reclaimer_agreement_witness:
  "\<exists>p \<in> {''a'', ''b''}. rendezvous_reclaimer sample_env ''t1'' [''a'', ''b''] = Some p \<and>
     rendezvous_reclaimer sample_env ''t1'' [''b'', ''a''] = Some p"
proof -
  have "score sample_env ''t1'' ''a'' \<noteq> score sample_env ''t1'' ''b''"
    by (simp add: score_def utf8_encode_def utf8_char_def un_be32_def)
  then have "inj_on (score sample_env ''t1'') (set [''a'', ''b''])" by (auto simp: inj_on_def)
  from reclaimer_agreement [OF _ _ this, of "[''b'', ''a'']"] show ?thesis by auto
qed

end
