(* ===== verification/Node_Gossip.thy ===== *)
theory Node_Gossip
  imports Node_Leases
begin

section \<open>Replication by gossip\<close>

text \<open>
  What the receive handler does to the task store is, for nodes that do not check signatures,
  the join of the record lattice: an abstract store is a map from identifiers to records and
  absorbs the records of a message one by one. With signatures, a round of gossip by one peer
  hands its records to another across the wire.
\<close>

subsection \<open>The abstract store\<close>

type_synonym store = "string \<Rightarrow> task_record option"

definition absorb :: "store \<Rightarrow> task_record \<Rightarrow> store" where
  "absorb s r = s(task_id r \<mapsto> (case s (task_id r) of None \<Rightarrow> r | Some old \<Rightarrow> lattice_join old r))"

text \<open>Every record is stored under its own identifier.\<close>

definition ids_ok :: "node \<Rightarrow> bool" where
  "ids_ok n \<longleftrightarrow> (\<forall>tid r. get_task n tid = Some r \<longrightarrow> task_id r = tid)"

lemma enqueue_simps [simp]:
  "n_tasks (enqueue tid p n) = n_tasks n" "n_wal (enqueue tid p n) = n_wal n" "n_security (enqueue tid p n) = n_security n"
  "n_max_tasks (enqueue tid p n) = n_max_tasks n" "n_ring (enqueue tid p n) = n_ring n" "n_id (enqueue tid p n) = n_id n"
  by (simp_all add: enqueue_def split: sum.split)

lemma requeue_simps [simp]:
  "n_tasks (requeue_if_pending tid n) = n_tasks n" "n_wal (requeue_if_pending tid n) = n_wal n"
  "n_security (requeue_if_pending tid n) = n_security n" "n_max_tasks (requeue_if_pending tid n) = n_max_tasks n"
  "n_ring (requeue_if_pending tid n) = n_ring n"
  by (simp_all add: requeue_if_pending_def split: option.split)

lemma log_none [simp]: "n_wal n = None \<Longrightarrow> log_update V r n = (n, None)"
  by (simp add: log_update_def)

text \<open>What one entry of a message does to a node with room for it and no log.\<close>

definition takes :: "node \<Rightarrow> string \<Rightarrow> task_record \<Rightarrow> node \<Rightarrow> bool" where
  "takes n tid r n' \<longleftrightarrow>
     n_tasks n' = AList.update tid r (n_tasks n) \<and> n_wal n' = n_wal n \<and> n_security n' = n_security n \<and>
     n_max_tasks n' = n_max_tasks n \<and> n_ring n' = n_ring n"

lemma gossip_entry_takes:
  assumes "from_dict raw = Inr r" "n_wal n = None" "\<not> store_full n (task_id r)"
    and "enabled (n_security n) \<Longrightarrow> signer_id r = Some sender" "unauthorized V n r = Inr False"
    and "store_remote V (task_id r) r n = Inr (store_task (task_id r) m n)"
  shows "\<exists>n'. gossip_entry V sender (task_id r) raw n = (n', None) \<and> takes n (task_id r) m n'"
  using assms by (auto simp: gossip_entry_def Let_def takes_def) (simp_all add: store_task_def)

subsection \<open>Refinement without signatures\<close>

lemma gossip_entry_absorbs:
  assumes "\<not> enabled (n_security n)" "n_wal n = None" "ids_ok n" "from_dict raw = Inr r" "\<not> store_full n (task_id r)"
  shows "\<exists>n' m. gossip_entry V sender (task_id r) raw n = (n', None) \<and> takes n (task_id r) m n' \<and>
    get_task n' = absorb (get_task n) r \<and> ids_ok n'"
proof -
  let ?m = "case get_task n (task_id r) of None \<Rightarrow> r | Some old \<Rightarrow> lattice_join old r"
  have "store_remote V (task_id r) r n = Inr (store_task (task_id r) ?m n)"
    using assms(1,3) by (auto simp: store_remote_def get_task_def merge_records_def merge_ring_def ids_ok_def split: option.split)
  from gossip_entry_takes [OF assms(4,2,5) _ _ this, of sender] assms(1)
  obtain n' where n': "gossip_entry V sender (task_id r) raw n = (n', None)" "takes n (task_id r) ?m n'"
    by (auto simp: unauthorized_def)
  have g: "get_task n' = absorb (get_task n) r"
    using n'(2) by (auto simp: takes_def get_task_def absorb_def map_of_update fun_eq_iff)
  have "task_id ?m = task_id r"
    using assms(3) by (auto simp: ids_ok_def lattice_join_def Let_def split: option.split)
  then have "ids_ok n'" using assms(3) unfolding ids_ok_def g absorb_def by auto
  with n' g show ?thesis by blast
qed

text \<open>A message that carries the records \<open>rs\<close>.\<close>

definition entry_of :: "string \<times> json \<Rightarrow> task_record \<Rightarrow> bool" where
  "entry_of e r \<longleftrightarrow> fst e = task_id r \<and> from_dict (snd e) = Inr r"

definition carries :: "message \<Rightarrow> task_record list \<Rightarrow> bool" where
  "carries m rs \<longleftrightarrow> msg_type m = ''gossip'' \<and>
     (\<exists>d. get_default (msg_payload m) ''tasks'' (JDict []) = JDict d \<and> list_all2 entry_of d rs)"

lemma gossip_entries_absorb:
  assumes "\<not> enabled (n_security n)" "n_wal n = None" "ids_ok n" "list_all2 entry_of d rs"
    and "len (n_tasks n) + len rs \<le> n_max_tasks n"
  shows "\<exists>n'. gossip_entries V sender d n = (n', None) \<and> get_task n' = foldl absorb (get_task n) rs \<and> ids_ok n' \<and>
    \<not> enabled (n_security n') \<and> n_wal n' = None \<and> len (n_tasks n') \<le> len (n_tasks n) + len rs \<and>
    n_max_tasks n' = n_max_tasks n \<and> n_security n' = n_security n"
  using assms(4,1-3,5)
proof (induction d rs arbitrary: n rule: list_all2_induct)
  case (Cons e d r rs)
  obtain raw where e: "e = (task_id r, raw)" "from_dict raw = Inr r" using Cons.hyps(1) by (cases e) (simp add: entry_of_def)
  have "\<not> store_full n (task_id r)" using Cons.prems(4) by (simp add: store_full_def)
  from gossip_entry_absorbs [OF Cons.prems(1-3) e(2) this, of V sender]
  obtain n1 m where n1: "gossip_entry V sender (task_id r) raw n = (n1, None)" "takes n (task_id r) m n1"
    "get_task n1 = absorb (get_task n) r" "ids_ok n1" by blast
  have l: "len (n_tasks n1) \<le> len (n_tasks n) + 1" using n1(2) by (simp add: takes_def length_update)
  have t: "\<not> enabled (n_security n1)" "n_wal n1 = None" "n_max_tasks n1 = n_max_tasks n" "n_security n1 = n_security n"
    using n1(2) Cons.prems(1,2) by (simp_all add: takes_def)
  have "len (n_tasks n1) + len rs \<le> n_max_tasks n1" using l Cons.prems(4) t(3) by simp
  from Cons.IH [OF t(1,2) n1(4) this] n1 e l t show ?case by auto
qed simp

lemma receive_absorbs:
  assumes "\<not> enabled (n_security n)" "n_wal n = None" "ids_ok n" "carries m rs"
    and "len (n_tasks n) + len rs \<le> n_max_tasks n" "len rs \<le> max_gossip_tasks (n_security n)"
  shows "\<exists>n'. receive V sender m now wall n = (n', None) \<and> get_task n' = foldl absorb (get_task n) rs \<and> ids_ok n' \<and>
    n_wal n' = None \<and> len (n_tasks n') \<le> len (n_tasks n) + len rs \<and> n_max_tasks n' = n_max_tasks n \<and>
    n_security n' = n_security n"
proof -
  obtain d where d: "get_default (msg_payload m) ''tasks'' (JDict []) = JDict d" "list_all2 entry_of d rs"
    "msg_type m = ''gossip''" using assms(4) by (auto simp: carries_def)
  have "length d = length rs" using d(2) by (rule list_all2_lengthD)
  with gossip_entries_absorb [OF assms(1-3) d(2) assms(5), of V sender] d assms(1,6) show ?thesis
    by (auto simp: receive_def authenticate_message_def on_gossip_def)
qed


text \<open>The turns of the receive loop for a sequence of messages: sender, message, clock readings.\<close>

fun receive_all :: "py_env \<Rightarrow> (string \<times> message \<times> real \<times> real) list \<Rightarrow> node \<Rightarrow> outcome" where
  "receive_all V [] n = (n, None)"
| "receive_all V ((sender, m, now, wall) # ms) n = and_then (receive V sender m now wall n) (receive_all V ms)"

lemma receive_all_absorbs:
  assumes "list_all2 (\<lambda>(_, m, _). carries m) ms rss" "\<not> enabled (n_security n)" "n_wal n = None" "ids_ok n"
    and "len (n_tasks n) + len (concat rss) \<le> n_max_tasks n" "\<forall>rs \<in> set rss. len rs \<le> max_gossip_tasks (n_security n)"
  shows "\<exists>n'. receive_all V ms n = (n', None) \<and> get_task n' = foldl absorb (get_task n) (concat rss)"
  using assms
proof (induction ms rss arbitrary: n rule: list_all2_induct)
  case (Cons a ms rs rss)
  obtain sender m now wall where a: "a = (sender, m, now, wall)" by (metis prod_cases4)
  have c: "carries m rs" using Cons.hyps(1) a by simp
  have l: "len (n_tasks n) + len rs \<le> n_max_tasks n" "len rs \<le> max_gossip_tasks (n_security n)"
    using Cons.prems(4,5) by simp_all
  obtain n1 where n1: "receive V sender m now wall n = (n1, None)" "get_task n1 = foldl absorb (get_task n) rs" "ids_ok n1"
    "n_wal n1 = None" "len (n_tasks n1) \<le> len (n_tasks n) + len rs" "n_max_tasks n1 = n_max_tasks n"
    "n_security n1 = n_security n"
    using receive_absorbs [OF Cons.prems(1-3) c l, of V sender now wall] by blast
  have "\<exists>n'. receive_all V ms n1 = (n', None) \<and> get_task n' = foldl absorb (get_task n1) (concat rss)"
    using Cons.prems n1 by (intro Cons.IH) simp_all
  then show ?case using n1 a by simp
qed simp

text \<open>An absorbing store, started empty, holds for each task the join of that task's records.\<close>

lemma foldl_absorb_some:
  "s tid = Some r \<Longrightarrow>
   foldl absorb s rs tid = Some (foldl lattice_join r (filter (\<lambda>r. task_id r = tid) rs))"
  by (induction rs arbitrary: s r) (simp_all add: absorb_def)

lemma foldl_absorb_none:
  "s tid = None \<Longrightarrow>
   foldl absorb s rs tid =
     (case filter (\<lambda>r. task_id r = tid) rs of [] \<Rightarrow> None | r # qs \<Rightarrow> Some (foldl lattice_join r qs))"
proof (induction rs arbitrary: s)
  case (Cons r rs)
  show ?case
  proof (cases "task_id r = tid")
    case True
    then have "absorb s r tid = Some r" using Cons.prems by (simp add: absorb_def)
    from foldl_absorb_some [of "absorb s r" tid r rs, OF this] True show ?thesis by simp
  next
    case False
    then have "absorb s r tid = None" using Cons.prems by (simp add: absorb_def)
    from Cons.IH [of "absorb s r", OF this] False show ?thesis by simp
  qed
qed simp

lemma absorb_converges:
  assumes "\<forall>r \<in> set rs. wf_clock (vector_clock r)" "set rs = set rs'"
  shows "foldl absorb (\<lambda>_. None) rs = foldl absorb (\<lambda>_. None) rs'"
proof
  fix tid
  let ?f = "filter (\<lambda>r. task_id r = tid)"
  have s: "set (?f rs) = set (?f rs')" "\<forall>r \<in> set (?f rs). task_replica tid r"
    using assms by (auto simp: task_replica_def)
  show "foldl absorb (\<lambda>_. None) rs tid = foldl absorb (\<lambda>_. None) rs' tid"
  proof (cases "?f rs")
    case Nil
    then have "?f rs' = []" using s(1) by (metis list.set(1) set_empty)
    with Nil show ?thesis by (simp add: foldl_absorb_none)
  next
    case (Cons r qs)
    then obtain r' qs' where c: "?f rs' = r' # qs'" using s(1) by (metis list.set(1) list.set_intros(1) neq_Nil_conv empty_iff)
    have "foldl lattice_join r (?f rs) = foldl lattice_join r' (?f rs')"
      using s(2) Cons c by (intro rm.all.convergence_any_start [OF _ s(1)]) simp_all
    moreover have "task_replica tid r" "task_replica tid r'" using s Cons c by auto
    ultimately show ?thesis using Cons c
      by (simp add: foldl_absorb_none rm.pick_idem [of tid])
  qed
qed


subsection \<open>Replication with signatures\<close>

text \<open>A record that a peer may hand over: well formed, signed by it, and authorised for the receiver.\<close>

definition handed_over :: "py_env \<Rightarrow> key_ring \<Rightarrow> string \<Rightarrow> task_record \<Rightarrow> bool" where
  "handed_over V ring sender r \<longleftrightarrow> wf_clock (vector_clock r) \<and> record_ok r \<and> signer_id r = Some sender \<and>
     verify_task_authorization (env_ed V) r ring = Inr True"

definition fresh_entry :: "py_env \<Rightarrow> string \<Rightarrow> node \<Rightarrow> string \<times> json \<Rightarrow> bool" where
  "fresh_entry V sender n e \<longleftrightarrow> (\<exists>r. from_dict (snd e) = Inr r \<and> fst e = task_id r \<and>
     handed_over V (n_ring n) sender r \<and> get_task n (fst e) = None)"

lemma gossip_entries_fresh:
  assumes "distinct (keys d)" "\<forall>e \<in> set d. fresh_entry V sender n e" "n_wal n = None"
    and "len (n_tasks n) + len d \<le> n_max_tasks n"
  shows "\<exists>n'. gossip_entries V sender d n = (n', None) \<and>
    (\<forall>tid raw. (tid, raw) \<in> set d \<longrightarrow> from_dict raw = Inr (the (get_task n' tid)) \<and> get_task n' tid \<noteq> None) \<and>
    (\<forall>tid. tid \<notin> set (keys d) \<longrightarrow> get_task n' tid = get_task n tid)"
  using assms
proof (induction d arbitrary: n)
  case (Cons e d)
  obtain r where r: "from_dict (snd e) = Inr r" "fst e = task_id r" "handed_over V (n_ring n) sender r"
    "get_task n (fst e) = None" using Cons.prems(2) by (auto simp: fresh_entry_def)
  obtain raw where e: "e = (task_id r, raw)" using r(2) by (cases e) simp
  have s: "\<not> store_full n (task_id r)" using Cons.prems(4) by (simp add: store_full_def)
  have "store_remote V (task_id r) r n = Inr (store_task (task_id r) r n)"
    using r(4) e by (simp add: store_remote_def get_task_def)
  moreover have "unauthorized V n r = Inr False" using r(3) by (simp add: unauthorized_def handed_over_def)
  ultimately obtain n1 where n1: "gossip_entry V sender (task_id r) raw n = (n1, None)" "takes n (task_id r) r n1"
    using gossip_entry_takes [OF _ Cons.prems(3) s, of raw sender V r] r e by (auto simp: handed_over_def)
  have g: "get_task n1 tid = (if tid = task_id r then Some r else get_task n tid)" for tid
    using n1(2) by (auto simp: takes_def get_task_def map_of_update)
  have "\<forall>e \<in> set d. fst e \<noteq> task_id r" using Cons.prems(1) e by (auto simp: image_iff)
  then have f: "\<forall>e \<in> set d. fresh_entry V sender n1 e"
    using Cons.prems(2) n1(2) g by (auto simp: fresh_entry_def takes_def)
  have l: "len (n_tasks n1) + len d \<le> n_max_tasks n1" "n_wal n1 = None"
    using n1(2) Cons.prems(3,4) by (simp_all add: takes_def length_update)
  have "distinct (keys d)" using Cons.prems(1) by simp
  from Cons.IH [OF this f l(2,1)] obtain n' where n': "gossip_entries V sender d n1 = (n', None)"
    "\<forall>tid raw. (tid, raw) \<in> set d \<longrightarrow> from_dict raw = Inr (the (get_task n' tid)) \<and> get_task n' tid \<noteq> None"
    "\<forall>tid. tid \<notin> set (keys d) \<longrightarrow> get_task n' tid = get_task n1 tid" by blast
  have "task_id r \<notin> set (keys d)" using Cons.prems(1) e by auto
  then have "get_task n' (task_id r) = Some r" using n'(3) g by simp
  then show ?case using n' n1(1) e g r(1) by auto
qed simp

text \<open>Both forms of the records of a round: as sent, and as decoded from the wire.\<close>

definition entries_of :: "(string, task_record) dict \<Rightarrow> (string, json) dict \<Rightarrow> bool" where
  "entries_of items d \<longleftrightarrow> distinct (keys d) \<and> length d = length items \<and>
     set d \<subseteq> (\<lambda>(tid, r). (tid, to_dict r)) ` set items \<union> (\<lambda>(tid, r). (tid, sort_json (to_dict r))) ` set items \<and>
     set (keys items) = set (keys d)"

lemma entries_of_payload:
  assumes "distinct (keys items)" "pl \<in> {gossip_payload items, sort_dict (gossip_payload items)}"
  shows "\<exists>d. get_default pl ''tasks'' (JDict []) = JDict d \<and> entries_of items d"
proof -
  let ?d = "map (\<lambda>(tid, r). (tid, to_dict r)) items"
  have k: "keys ?d = keys items" "keys (sort_dict ?d) = sort (keys items)"
    by (simp_all add: sort_dict_def keys_sort_key_fst case_prod_beta comp_def)
  have "entries_of items ?d" unfolding entries_of_def k using assms(1) by auto
  moreover have "entries_of items (sort_dict ?d)"
    unfolding entries_of_def k using assms(1) by (auto simp: sort_dict_def)
  moreover have "sort_dict (gossip_payload items) = [(''tasks'', JDict (sort_dict ?d))]"
    by (simp add: gossip_payload_def sort_dict_def)
  ultimately show ?thesis using assms(2) by (auto simp: gossip_payload_def get_default_def)
qed

lemma distinct_gossip_items: "distinct (keys (all_tasks n)) \<Longrightarrow> distinct (keys (gossip_items n))"
  by (simp add: gossip_items_def all_tasks_def keys_sort_key_fst take_map [symmetric] distinct_take)

lemma entries_ofD:
  assumes "entries_of items d" "e \<in> set d"
  shows "\<exists>tid r. (tid, r) \<in> set items \<and> fst e = tid \<and> snd e \<in> {to_dict r, sort_json (to_dict r)}"
  using assms unfolding entries_of_def by force

lemma entries_of_entry:
  assumes "entries_of items d" "(tid, r) \<in> set items" "distinct (keys items)"
  shows "\<exists>raw. (tid, raw) \<in> set d \<and> raw \<in> {to_dict r, sort_json (to_dict r)}"
proof -
  have "tid \<in> set (keys d)" using assms(1,2) unfolding entries_of_def by force
  then obtain raw where raw: "(tid, raw) \<in> set d" by auto
  then obtain r' where "(tid, r') \<in> set items" "raw \<in> {to_dict r', sort_json (to_dict r')}"
    using entries_ofD [OF assms(1) raw] by auto
  moreover from this have "r' = r" using assms(2,3) by (metis map_of_is_SomeI option.inject)
  ultimately show ?thesis using raw by blast
qed

lemma unseen_accepted:
  assumes "\<not> has_key (entries c) (s, n)"
  shows "\<exists>c'. check_and_remember c s n now w = (True, c')"
proof -
  have "\<not> has_key (drop_stale (now - w) (entries c)) (s, n)"
    using assms drop_stale_suffix [of "entries c" "now - w"] by (metis Un_iff has_key_iff map_append set_append)
  then show ?thesis by (simp add: check_and_remember_def Let_def)
qed

text \<open>A signed gossip message, as sent or as decoded from the wire, hands its records over.\<close>

lemma signed_gossip_delivered:
  assumes "ed25519_correct (env_ed V)" "enabled (n_security b)" "n_wal b = None"
    and "signed (env_ed V) (env_repr V) key (Fin wall) token None
      (Message ''gossip'' sender (gossip_payload items) (protocol_version (n_security b))) = Inr m"
    and "distinct (keys items)" "\<forall>(tid, r) \<in> set items. tid = task_id r \<and>
      handed_over V (n_ring b) sender r \<and> get_task b tid = None"
    and "map_of (n_ring b) sender = Some (public_key_of (env_ed V) key)"
    and "\<bar>wall' - wall\<bar> \<le> node_window b" "\<not> has_key (entries (n_replay b)) (sender, token)"
    and "len (n_tasks b) + len items \<le> n_max_tasks b" "len items \<le> max_gossip_tasks (n_security b)"
    and "m' \<in> {m, m\<lparr>msg_payload := sort_dict (msg_payload m)\<rparr>}"
  shows "\<exists>b'. receive V sender m' now wall' b = (b', None) \<and>
    (\<forall>(tid, r) \<in> set items. get_task b' tid = Some r)"
proof -
  note m = assms(4)
  note f = signed_fields [OF m]
  have "verify_signature (env_ed V) (env_repr V) m (n_ring b) = Inr True"
    using assms(7) by (intro signed_verifies [OF assms(1) m]) (simp add: Message_def)
  then have v: "verify_signature (env_ed V) (env_repr V) m' (n_ring b) = Inr True"
    using assms(12) by (auto simp: verify_signature_def split: option.splits)
  obtain c where "check_and_remember (n_replay b) sender token wall' (node_window b) = (True, c)"
    using unseen_accepted [OF assms(9)] by blast
  with authenticate_valid [OF assms(2) _ _ v, of wall wall' token True c] f assms(8,12)
  have auth: "authenticate_message V b sender m' wall' = Inr (True, b\<lparr>n_replay := c\<rparr>)" by auto
  from entries_of_payload [OF assms(5), of "msg_payload m'"] f(3) assms(12)
  obtain d where d: "get_default (msg_payload m') ''tasks'' (JDict []) = JDict d" "entries_of items d" by auto
  let ?b = "b\<lparr>n_replay := c\<rparr>"
  have raw: "from_dict raw = Inr r" if "(tid, r) \<in> set items" "raw \<in> {to_dict r, sort_json (to_dict r)}" for tid r raw
    using that assms(6) by (auto simp: handed_over_def from_dict_sorted from_dict_to_dict)
  have "\<forall>e \<in> set d. fresh_entry V sender ?b e"
  proof
    fix e assume "e \<in> set d"
    then obtain tid r where e: "(tid, r) \<in> set items" "fst e = tid" "snd e \<in> {to_dict r, sort_json (to_dict r)}"
      using entries_ofD [OF d(2)] by blast
    from e(1) assms(6) have "tid = task_id r \<and> handed_over V (n_ring b) sender r \<and> get_task b tid = None" by blast
    with raw [OF e(1,3)] e(2) show "fresh_entry V sender ?b e"
      unfolding fresh_entry_def by (intro exI [of _ r]) (auto simp: get_task_def)
  qed
  moreover have "distinct (keys d)" "length d = length items" using d(2) by (simp_all add: entries_of_def)
  ultimately obtain b' where b': "gossip_entries V sender d ?b = (b', None)"
    "\<forall>tid raw. (tid, raw) \<in> set d \<longrightarrow> from_dict raw = Inr (the (get_task b' tid)) \<and> get_task b' tid \<noteq> None"
    using gossip_entries_fresh [of d V sender ?b] assms(3,10) by auto
  have "receive V sender m' now wall' b = (b', None)"
    using auth d f(1) assms(11,12) b'(1) by (auto simp: receive_def on_gossip_def entries_of_def)
  moreover have "get_task b' tid = Some r" if t: "(tid, r) \<in> set items" for tid r
  proof -
    obtain raw where "(tid, raw) \<in> set d" "raw \<in> {to_dict r, sort_json (to_dict r)}"
      using entries_of_entry [OF d(2) t assms(5)] by blast
    then show ?thesis using b'(2) raw [OF t] by fastforce
  qed
  ultimately show ?thesis by blast
qed


text \<open>
  A round carries the first \<^verbatim>\<open>max_gossip_tasks\<close> records in the order of their identifiers. A
  task that has as many smaller identifiers beside it is in no round, whatever its state, for
  as long as those tasks are in the store: and no task leaves a store.
\<close>

theorem gossip_omits_later_tasks:
  assumes "distinct (keys (all_tasks n))"
    and "nat (max_gossip_tasks (n_security n)) \<le> card {k \<in> set (keys (all_tasks n)). k < tid}"
  shows "tid \<notin> set (keys (gossip_items n))"
proof
  let ?ks = "sort (keys (n_tasks n))" and ?k = "nat (max_gossip_tasks (n_security n))"
  assume "tid \<in> set (keys (gossip_items n))"
  then have "tid \<in> set (take ?k ?ks)" by (simp add: gossip_items_def keys_sort_key_fst take_map [symmetric])
  then obtain i where i: "i < ?k" "i < length ?ks" "?ks ! i = tid" by (auto simp: in_set_conv_nth)
  have s: "sorted_wrt (<) ?ks" using assms(1) by (simp add: all_tasks_def strict_sorted_iff)
  have "{k \<in> set (keys (n_tasks n)). k < tid} \<subseteq> set (take i ?ks)"
  proof
    fix k assume k: "k \<in> {k \<in> set (keys (n_tasks n)). k < tid}"
    then have "k \<in> set ?ks" by simp
    then obtain j where j: "j < length ?ks" "?ks ! j = k" by (auto simp only: in_set_conv_nth)
    have "j < i" using k j i s by (metis (mono_tags, lifting) linorder_neqE_nat mem_Collect_eq order_less_asym sorted_wrt_iff_nth_less)
    then have "k \<in> set (take i ?ks)" using j by (auto simp: in_set_conv_nth)
    then show "k \<in> set (take i ?ks)" .
  qed
  then have "card {k \<in> set (keys (n_tasks n)). k < tid} \<le> card (set (take i ?ks))" by (rule card_mono [OF finite_set])
  also have "\<dots> \<le> i" using card_length [of "take i ?ks"] by simp
  finally show False using assms(2) i(1) by (simp add: all_tasks_def)
qed

subsection \<open>Concrete instances\<close>

definition open_node :: "node \<Rightarrow> node" where
  "open_node n = n\<lparr>n_security := (n_security n)\<lparr>enabled := False\<rparr>\<rparr>"

definition sample_gossip :: "task_record list \<Rightarrow> message" where
  "sample_gossip rs = Message ''gossip'' ''c'' (gossip_payload (map (\<lambda>r. (task_id r, r)) rs)) 2"

lemma sample_carries:
  assumes "\<forall>r \<in> set rs. wf_clock (vector_clock r) \<and> record_ok r"
  shows "carries (sample_gossip rs) rs"
  using assms
  by (auto simp: carries_def sample_gossip_def Message_def gossip_payload_def get_default_def entry_of_def
      list_all2_map1 from_dict_to_dict intro!: list.rel_refl_strong)

definition sample_later :: task_record where
  "sample_later = sample_record\<lparr>state := DONE, lease_expiry := 0\<rparr>"

lemma sample_later_ok: "wf_clock (vector_clock sample_later)" "record_ok sample_later"
  using sample_record_ok by (simp_all add: sample_later_def record_ok_def record_valid_def)

lemma sample_open:
  assumes "sample_new nid = Inr n"
  shows "\<not> enabled (n_security (open_node n))" "n_wal (open_node n) = None" "n_tasks (open_node n) = []"
    "ids_ok (open_node n)" "n_max_tasks (open_node n) = 2" "max_gossip_tasks (n_security (open_node n)) = 128"
  using PeerNode_Inr [OF assms [unfolded sample_new_def]]
  by (simp_all add: open_node_def ids_ok_def get_task_def default_security_config_def)




lemma sample_signed_message:
  assumes "dumpable (JDict pl)"
  shows "\<exists>m. signed sample_ed25519 sample_repr key (Fin t) ''n'' None (Message ty s pl 2) = Inr m"
proof -
  let ?m = "(Message ty s pl 2)\<lparr>msg_timestamp := Some (Fin t), msg_nonce := Some ''n''\<rparr>"
  have "dumpable (JDict (unsigned_document ?m))"
    using assms by (simp add: unsigned_document_def Message_def max_str_digits_def dec_nat.simps)
  then obtain b where "canonical_bytes sample_repr ?m = Inr b"
    by (auto simp: canonical_bytes_def canonical_json_bytes_def dumps_def)
  then show ?thesis by (simp add: signed_def Message_def)
qed


theorem gossip_omits_later_tasks_witness:
  "\<exists>n. sample_new ''a'' = Inr n \<and>
     ''t2'' \<notin> set (keys (gossip_items (n\<lparr>n_security := (n_security n)\<lparr>max_gossip_tasks := 1\<rparr>,
       n_tasks := [(''t2'', sample_record\<lparr>task_id := ''t2''\<rparr>), (''t1'', sample_record)]\<rparr>)))"
proof -
  obtain n where n: "sample_new ''a'' = Inr n" by (meson sample_node_new)
  have "{k \<in> {''t2'', ''t1''}. k < ''t2''} = {''t1''}" by auto
  then show ?thesis
    using gossip_omits_later_tasks [of "n\<lparr>n_security := (n_security n)\<lparr>max_gossip_tasks := 1\<rparr>,
       n_tasks := [(''t2'', sample_record\<lparr>task_id := ''t2''\<rparr>), (''t1'', sample_record)]\<rparr>" "''t2''"] n
    by (simp add: all_tasks_def)
qed

end
