(* ===== verification/Node_Recovery.thy ===== *)
theory Node_Recovery
  imports Node_Gossip
begin

section \<open>Crash recovery of a peer node\<close>

text \<open>
  What \<^verbatim>\<open>submit_task\<close> has acknowledged survives a crash: the log that a node leaves behind, opened
  by a new process under the same identity and configuration, brings back the task store and
  the vector clock, and the tasks are queued again.
\<close>

subsection \<open>The journal\<close>

text \<open>The records a node appends for a sequence of task updates, each with the clock at that time.\<close>

definition journal :: "(task_record \<times> vector_clock) list \<Rightarrow> (nat \<times> json) list" where
  "journal rcs = concat (map (\<lambda>(r, c). [(RECORD_TASK, to_dict r), (RECORD_CLOCK, clock_json c)]) rcs)"

lemma journal_simps [simp]:
  "journal [] = []"
  "journal ((r, c) # rcs) = (RECORD_TASK, to_dict r) # (RECORD_CLOCK, clock_json c) # journal rcs"
  "journal (xs @ ys) = journal xs @ journal ys"
  by (simp_all add: journal_def)

lemma append_all_append:
  "append_all fr w xs = Inr (ns, w1) \<Longrightarrow> append_all fr w1 ys = Inr (ms, w2) \<Longrightarrow>
   append_all fr w (xs @ ys) = Inr (ns @ ms, w2)"
  by (induction fr w xs arbitrary: ns rule: append_all.induct) (auto simp: rbind_Inr_iff)

lemma append_record_dumpable:
  "append_record fr w ty body = Inr x \<Longrightarrow> dumpable body"
  by (auto simp: append_record_def payload_bytes_def rbind_Inr_iff dumps_def split: if_splits sum.splits option.splits)

lemma append_all_dumpable:
  "append_all fr w items = Inr x \<Longrightarrow> (ty, body) \<in> set items \<Longrightarrow> dumpable body"
  by (induction fr w items arbitrary: x rule: append_all.induct)
     (auto simp: rbind_Inr_iff dest: append_record_dumpable)

text \<open>The clock of a node that has heard of no other peer.\<close>

definition own_clock :: "string \<Rightarrow> int \<Rightarrow> vector_clock" where
  "own_clock nid k = VectorClock [(nid, k)]"

lemma wf_own_clock [simp]: "wf_clock (own_clock nid k)"
  unfolding own_clock_def by (rule wf_VectorClock) simp

lemma clock_own_clock [simp]: "clock (own_clock nid k) = (if 0 < k then [(nid, k)] else [])"
  by (simp add: own_clock_def VectorClock_def)

lemma vc_get_own_clock: "vc_get (own_clock nid k) p = (if p = nid then max 0 k else 0)"
  by (simp add: vc_get_def get_default_def)

lemma increment_own_clock: "0 \<le> k \<Longrightarrow> increment (own_clock nid k) nid = own_clock nid (k + 1)"
  by (simp add: increment_def get_default_def) (simp add: own_clock_def)

lemma merge_own_clock: "0 \<le> i \<Longrightarrow> 0 \<le> k \<Longrightarrow> vc_merge (own_clock nid i) (own_clock nid k) = own_clock nid (max i k)"
  by (rule clock_eqI) (auto simp: vc_get_merge vc_get_own_clock wf_merge)

text \<open>A record that recovery under the configuration of \<open>n\<close> accepts.\<close>

definition recoverable :: "py_env \<Rightarrow> node \<Rightarrow> task_record \<Rightarrow> bool" where
  "recoverable V n r \<longleftrightarrow> wf_clock (vector_clock r) \<and> record_ok r \<and> state r = PENDING \<and> lease_expiry r = 0 \<and>
     unauthorized V n r = Inr False"

subsection \<open>Recovery of a journal\<close>

lemma recover_task_new:
  assumes "recoverable V n r" "task_id r \<notin> set (keys (n_tasks n))" "len (n_tasks n) < n_max_tasks n"
  shows "recover_task V (sort_json (to_dict r)) n = (n\<lparr>n_tasks := n_tasks n @ [(task_id r, r)]\<rparr>, None)"
proof -
  have "from_dict (sort_json (to_dict r)) = Inr r"
    using assms(1) by (simp add: recoverable_def from_dict_sorted from_dict_to_dict)
  moreover have "map_of (n_tasks n) (task_id r) = None" using assms(2) by (simp add: map_of_eq_None_iff)
  ultimately show ?thesis
    using assms
    by (simp add: recover_task_def recoverable_def store_full_def admit_recovered_def store_task_def update_new has_key_iff)
qed

lemma json_counters_JInt: "json_counters (map (\<lambda>(k, v). (k, JInt v)) cs) = Inr cs"
  by (induction cs) auto

lemma recover_clock_own:
  assumes "wf_clock c"
  shows "recover_clock (sort_json (clock_json c)) n = (n\<lparr>n_clock := vc_merge (n_clock n) c\<rparr>, None)"
  using assms
  by (simp add: clock_json_def vc_to_dict_def sort_json_clock recover_clock_def clock_of_json_def json_counters_JInt
      VectorClock_clock del: sort_json.simps)

lemma recoverable_cong:
  "n_security n' = n_security n \<Longrightarrow> n_ring n' = n_ring n \<Longrightarrow> recoverable V n' r = recoverable V n r"
  by (simp add: recoverable_def unauthorized_def)

lemma recover_journal:
  assumes "map (\<lambda>rec. (record_type rec, wal_payload rec)) recs = map (\<lambda>(ty, body). (ty, sort_json body)) (journal rcs)"
    and "\<forall>(r, c) \<in> set rcs. recoverable V n r \<and> (\<exists>k \<ge> 0. c = own_clock nid k)"
    and "distinct (keys (n_tasks n) @ map (task_id \<circ> fst) rcs)" "len (n_tasks n) + len rcs \<le> n_max_tasks n"
    and "n_clock n = own_clock nid i" "0 \<le> i"
  shows "\<exists>j. recover_records V recs n =
      (n\<lparr>n_tasks := n_tasks n @ map (\<lambda>(r, c). (task_id r, r)) rcs, n_clock := own_clock nid j\<rparr>, None) \<and>
    own_clock nid j = foldl vc_merge (own_clock nid i) (map snd rcs) \<and> 0 \<le> j"
  using assms
proof (induction rcs arbitrary: recs n i)
  case Nil
  then show ?case by (intro exI [of _ i]) simp
next
  case (Cons rc rcs)
  obtain r c where rc: "rc = (r, c)" by (cases rc)
  obtain rec1 rec2 recs' where recs: "recs = rec1 # rec2 # recs'"
    "record_type rec1 = RECORD_TASK" "wal_payload rec1 = sort_json (to_dict r)"
    "record_type rec2 = RECORD_CLOCK" "wal_payload rec2 = sort_json (clock_json c)"
    "map (\<lambda>rec. (record_type rec, wal_payload rec)) recs' = map (\<lambda>(ty, body). (ty, sort_json body)) (journal rcs)"
    using Cons.prems(1) unfolding rc by (auto simp: map_eq_Cons_conv)
  obtain k where k: "c = own_clock nid k" "0 \<le> k" using Cons.prems(2) rc by auto
  let ?n1 = "n\<lparr>n_tasks := n_tasks n @ [(task_id r, r)]\<rparr>"
  let ?n2 = "?n1\<lparr>n_clock := own_clock nid (max i k)\<rparr>"
  have "recover_record V rec1 n = (?n1, None)"
    using recover_task_new [of V n r] Cons.prems(2-4) recs(2,3) rc by (simp add: recover_record_def)
  moreover have "recover_record V rec2 ?n1 = (?n2, None)"
    using recover_clock_own [of c ?n1] recs(4,5) k Cons.prems(5,6)
    by (simp add: recover_record_def RECORD_CLOCK_def RECORD_TASK_def merge_own_clock)
  moreover have "\<exists>j. recover_records V recs' ?n2 =
      (?n2\<lparr>n_tasks := n_tasks ?n2 @ map (\<lambda>(r, c). (task_id r, r)) rcs, n_clock := own_clock nid j\<rparr>, None) \<and>
    own_clock nid j = foldl vc_merge (own_clock nid (max i k)) (map snd rcs) \<and> 0 \<le> j"
  proof (rule Cons.IH)
    show "\<forall>(r, c) \<in> set rcs. recoverable V ?n2 r \<and> (\<exists>k \<ge> 0. c = own_clock nid k)"
      using Cons.prems(2) by (auto simp: recoverable_cong [of ?n2 n])
  qed (use recs(6) Cons.prems(3,4,6) rc in auto)
  ultimately show ?case using recs(1) rc k Cons.prems(6) by (auto simp: merge_own_clock)
qed


subsection \<open>Submission\<close>

text \<open>The state of a node that has only submitted tasks: log, store and clock tell the same story.\<close>

definition journaled :: "py_env \<Rightarrow> wal \<Rightarrow> node \<Rightarrow> (task_record \<times> vector_clock) list \<Rightarrow> bool" where
  "journaled V w0 n rcs \<longleftrightarrow>
     (\<exists>ns w. n_wal n = Some w \<and> append_all (env_repr V) w0 (journal rcs) = Inr (ns, w)) \<and>
     n_tasks n = map (\<lambda>(r, c). (task_id r, r)) rcs \<and> distinct (keys (n_tasks n)) \<and>
     map snd rcs = map (\<lambda>i. own_clock (n_id n) (int i)) [1..<Suc (length rcs)] \<and>
     n_clock n = own_clock (n_id n) (int (length rcs)) \<and> (\<forall>r \<in> fst ` set rcs. recoverable V n r)"

lemma sealed_recoverable:
  assumes "ed25519_correct (env_ed V)" "map_of (n_ring n) (n_id n) = Some (public_key_of (env_ed V) (n_identity n))"
    and "n_id n \<noteq> []" "len (n_id n) \<le> MAX_PEER_ID_LENGTH" "tid \<noteq> []" "len tid \<le> MAX_TASK_ID_LENGTH" "len pl \<le> MAX_TASK_PAYLOAD"
    and "seal_record V n (new_record tid PENDING pl None (FenceToken 0 []) 0 (own_clock (n_id n) k) (n_id n)) = Inr r"
  shows "recoverable V n r \<and> task_id r = tid"
proof -
  let ?r = "new_record tid PENDING pl None (FenceToken 0 []) 0 (own_clock (n_id n) k) (n_id n)"
  have c: "clock_ok (own_clock (n_id n) k)" using assms(3,4) by (simp add: clock_ok_def)
  have ok: "record_ok ?r" "wf_clock (vector_clock ?r)"
    using assms(3-7) c by (simp_all add: record_ok_def record_valid_def new_record_def peer_ok_def MAX_PEER_ID_LENGTH_def)
  show ?thesis
  proof (cases "enabled (n_security n)")
    case False
    then have "r = ?r" using assms(8) by (simp add: seal_record_def)
    with ok False show ?thesis by (simp add: recoverable_def unauthorized_def) (simp add: new_record_def)
  next
    case True
    then have s: "sign_task (env_ed V) (n_identity n) ?r (n_id n) = Inr r" using assms(8) by (simp add: seal_record_def)
    then obtain data where r: "r = ?r\<lparr>signer_id := Some (n_id n), signature := Some (key_sign (env_ed V) (n_identity n) data)\<rparr>"
      by (auto simp: sign_task_def Let_def rbind_Inr_iff)
    have "verify_task_authorization (env_ed V) r (n_ring n) = Inr True"
      using signed_record_ok [OF assms(1) s, of "n_ring n"] assms(2) by (simp add: get_peer_key_def new_record_def)
    moreover have "length (key_sign (env_ed V) (n_identity n) data) = 64"
      using assms(1) by (simp add: key_sign_def ed25519_correct_def)
    then have "record_ok r" "wf_clock (vector_clock r)"
      using ok assms(3,4) by (simp_all add: r record_ok_def record_valid_def peer_ok_def)
    ultimately show ?thesis
      using True by (simp add: recoverable_def unauthorized_def) (simp add: r new_record_def)
  qed
qed

lemma submit_parts:
  assumes "submit_task V tid pl p n = (n', None)" "n_wal n = Some w"
  obtains r a b w1 w2 q Q where
    "seal_record V (n\<lparr>n_clock := increment (n_clock n) (n_id n)\<rparr>)
       (new_record tid PENDING pl None (FenceToken 0 []) 0 (increment (n_clock n) (n_id n)) (n_id n)) = Inr r"
    "append_task (env_repr V) w r = Inr (a, w1)" "append_clock (env_repr V) w1 (increment (n_clock n) (n_id n)) = Inr (b, w2)"
    "n' = (count ''enqueued'' (store_task tid r (n\<lparr>n_clock := increment (n_clock n) (n_id n)\<rparr>)))
       \<lparr>n_wal := Some w2, n_queue := q, n_queued := Q\<rparr>"
    "tid \<noteq> []" "len tid \<le> MAX_TASK_ID_LENGTH" "len pl \<le> MAX_TASK_PAYLOAD" "\<not> store_full n tid"
proof -
  let ?n1 = "n\<lparr>n_clock := increment (n_clock n) (n_id n)\<rparr>"
  have g: "tid \<noteq> []" "len tid \<le> MAX_TASK_ID_LENGTH" "len pl \<le> MAX_TASK_PAYLOAD" "\<not> store_full n tid"
    using assms(1) by (auto simp: submit_task_def split: if_splits)
  obtain r where r: "seal_record V ?n1 (new_record tid PENDING pl None (FenceToken 0 []) 0 (increment (n_clock n) (n_id n)) (n_id n)) = Inr r"
    using assms(1) g by (auto simp: submit_task_def Let_def split: sum.splits)
  obtain a w1 where t: "append_task (env_repr V) w r = Inr (a, w1)"
    using assms g r by (cases "append_task (env_repr V) w r") (auto simp: submit_task_def Let_def log_update_def store_task_def count_def)
  obtain b w2 where c: "append_clock (env_repr V) w1 (increment (n_clock n) (n_id n)) = Inr (b, w2)"
    using assms g r t by (cases "append_clock (env_repr V) w1 (increment (n_clock n) (n_id n))")
      (auto simp: submit_task_def Let_def log_update_def store_task_def count_def)
  have "\<exists>q Q. n' = (count ''enqueued'' (store_task tid r ?n1))\<lparr>n_wal := Some w2, n_queue := q, n_queued := Q\<rparr>"
    using assms g r t c
    by (auto simp: submit_task_def Let_def log_update_def store_task_def count_def split: sum.splits)
  then show ?thesis using that [OF r t c _ g] by blast
qed

definition same_identity :: "node \<Rightarrow> node \<Rightarrow> bool" where
  "same_identity n n' \<longleftrightarrow>
     n_id n' = n_id n \<and> n_identity n' = n_identity n \<and> n_ring n' = n_ring n \<and> n_security n' = n_security n"

lemma submit_journaled:
  assumes "journaled V w0 n rcs" "submit_task V tid pl p n = (n', None)" "tid \<notin> set (keys (n_tasks n))"
    and "ed25519_correct (env_ed V)" "map_of (n_ring n) (n_id n) = Some (public_key_of (env_ed V) (n_identity n))"
    and "n_id n \<noteq> []" "len (n_id n) \<le> MAX_PEER_ID_LENGTH"
  shows "(\<exists>rc. journaled V w0 n' (rcs @ [rc])) \<and> same_identity n n' \<and> keys (n_tasks n') = keys (n_tasks n) @ [tid]"
proof -
  let ?k = "int (length rcs) + 1"
  obtain ns w where w: "n_wal n = Some w" "append_all (env_repr V) w0 (journal rcs) = Inr (ns, w)"
    using assms(1) by (auto simp: journaled_def)
  have inc: "increment (n_clock n) (n_id n) = own_clock (n_id n) ?k"
    using assms(1) by (simp add: journaled_def increment_own_clock)
  obtain r a b w1 w2 q Q where s:
    "seal_record V (n\<lparr>n_clock := own_clock (n_id n) ?k\<rparr>)
       (new_record tid PENDING pl None (FenceToken 0 []) 0 (own_clock (n_id n) ?k) (n_id n)) = Inr r"
    "append_task (env_repr V) w r = Inr (a, w1)" "append_clock (env_repr V) w1 (own_clock (n_id n) ?k) = Inr (b, w2)"
    "n' = (count ''enqueued'' (store_task tid r (n\<lparr>n_clock := own_clock (n_id n) ?k\<rparr>)))
       \<lparr>n_wal := Some w2, n_queue := q, n_queued := Q\<rparr>"
    "tid \<noteq> []" "len tid \<le> MAX_TASK_ID_LENGTH" "len pl \<le> MAX_TASK_PAYLOAD"
    using submit_parts [OF assms(2) w(1)] unfolding inc by metis
  have rr: "recoverable V (n\<lparr>n_clock := own_clock (n_id n) ?k\<rparr>) r \<and> task_id r = tid"
    using sealed_recoverable [of V "n\<lparr>n_clock := own_clock (n_id n) ?k\<rparr>" tid pl ?k r] assms(4-7) s(1,5-7) by simp
  have id: "same_identity n n'" by (simp add: s(4) same_identity_def count_def store_task_def)
  have rec: "recoverable V n' r' = recoverable V n r'" for r'
    using id by (intro recoverable_cong) (simp_all add: same_identity_def)
  have "\<exists>ms. append_all (env_repr V) w [(RECORD_TASK, to_dict r), (RECORD_CLOCK, clock_json (own_clock (n_id n) ?k))] = Inr (ms, w2)"
    using s(2,3) by (simp add: append_task_def append_clock_def)
  then obtain ms where "append_all (env_repr V) w0 (journal (rcs @ [(r, own_clock (n_id n) ?k)])) = Inr (ms, w2)"
    using append_all_append [OF w(2)] by fastforce
  moreover have "n_tasks n' = n_tasks n @ [(tid, r)]"
    using assms(3) by (simp add: s(4) count_def store_task_def update_new has_key_iff)
  moreover have "recoverable V n r" using rr recoverable_cong [of "n\<lparr>n_clock := own_clock (n_id n) ?k\<rparr>" n V r] by simp
  moreover have "n_clock n' = own_clock (n_id n') ?k" "n_wal n' = Some w2"
    by (simp_all add: s(4) count_def store_task_def)
  ultimately have "journaled V w0 n' (rcs @ [(r, own_clock (n_id n) ?k)])"
    using assms(1,3) rr id rec by (auto simp: journaled_def same_identity_def add.commute)
  then show ?thesis using id \<open>n_tasks n' = n_tasks n @ [(tid, r)]\<close> by auto
qed

text \<open>Submissions one after the other.\<close>

fun submit_all :: "py_env \<Rightarrow> (string \<times> bytes \<times> int) list \<Rightarrow> node \<Rightarrow> outcome" where
  "submit_all V [] n = (n, None)"
| "submit_all V ((tid, pl, p) # subs) n = and_then (submit_task V tid pl p n) (submit_all V subs)"

lemma submit_all_journaled:
  assumes "journaled V w0 n rcs" "submit_all V subs n = (n', None)" "distinct (keys (n_tasks n) @ map fst subs)"
    and "ed25519_correct (env_ed V)" "map_of (n_ring n) (n_id n) = Some (public_key_of (env_ed V) (n_identity n))"
    and "n_id n \<noteq> []" "len (n_id n) \<le> MAX_PEER_ID_LENGTH"
  shows "(\<exists>rcs'. journaled V w0 n' rcs' \<and> length rcs' = length rcs + length subs) \<and> same_identity n n' \<and>
    keys (n_tasks n') = keys (n_tasks n) @ map fst subs"
  using assms
proof (induction subs arbitrary: n rcs)
  case (Cons sub subs)
  obtain tid pl p where sub: "sub = (tid, pl, p)" by (metis prod_cases3)
  obtain n1 where n1: "submit_task V tid pl p n = (n1, None)" "submit_all V subs n1 = (n', None)"
    using Cons.prems(2) sub by (auto elim: and_then.elims)
  obtain rc where rc: "journaled V w0 n1 (rcs @ [rc])" "same_identity n n1" "keys (n_tasks n1) = keys (n_tasks n) @ [tid]"
    using submit_journaled [OF Cons.prems(1) n1(1) _ Cons.prems(4-7)] Cons.prems(3) sub by auto
  have "(\<exists>rcs'. journaled V w0 n' rcs' \<and> length rcs' = length (rcs @ [rc]) + length subs) \<and> same_identity n1 n' \<and>
      keys (n_tasks n') = keys (n_tasks n1) @ map fst subs"
    using rc Cons.prems(3-7) sub by (intro Cons.IH [OF rc(1) n1(2)]) (simp_all add: same_identity_def)
  then show ?case using rc(2,3) sub by (auto simp: same_identity_def)
qed (auto simp: same_identity_def)

subsection \<open>Restart\<close>

lemma enqueue_room:
  assumes "maxsize (n_queue n) \<le> 0 \<or> int (qsize (n_queue n)) < maxsize (n_queue n)"
  shows "n_queued (enqueue tid p n) = insert tid (n_queued n)" "qsize (n_queue (enqueue tid p n)) = Suc (qsize (n_queue n))"
    "maxsize (n_queue (enqueue tid p n)) = maxsize (n_queue n)" "n_clock (enqueue tid p n) = n_clock n"
  using assms
  by (auto simp: enqueue_def put_nowait_def full_def qsize_def push_entry_def notify_condition_def notify_def
      split: list.splits)

lemma requeue_all:
  assumes "\<forall>(tid, r) \<in> set d. state r = PENDING"
    and "maxsize (n_queue n) \<le> 0 \<or> int (qsize (n_queue n)) + len d \<le> maxsize (n_queue n)"
  shows "n_queued (fold (\<lambda>(tid, r) n. if state r = PENDING \<and> tid \<notin> n_queued n then enqueue tid 0 n else n) d n) =
      n_queued n \<union> set (keys d) \<and>
    n_tasks (fold (\<lambda>(tid, r) n. if state r = PENDING \<and> tid \<notin> n_queued n then enqueue tid 0 n else n) d n) = n_tasks n \<and>
    n_clock (fold (\<lambda>(tid, r) n. if state r = PENDING \<and> tid \<notin> n_queued n then enqueue tid 0 n else n) d n) = n_clock n"
  using assms
proof (induction d arbitrary: n)
  case (Cons e d)
  obtain tid r where e: "e = (tid, r)" "state r = PENDING" using Cons.prems(1) by (cases e) auto
  let ?n1 = "if tid \<notin> n_queued n then enqueue tid 0 n else n"
  have room: "maxsize (n_queue n) \<le> 0 \<or> int (qsize (n_queue n)) < maxsize (n_queue n)" using Cons.prems(2) by auto
  note q = enqueue_room [OF room]
  have "maxsize (n_queue ?n1) \<le> 0 \<or> int (qsize (n_queue ?n1)) + len d \<le> maxsize (n_queue ?n1)"
    using Cons.prems(2) q by auto
  moreover have "\<forall>(tid, r) \<in> set d. state r = PENDING" using Cons.prems(1) by simp
  ultimately show ?case using Cons.IH [of ?n1] q e by auto
qed simp

lemma json_floats_to_dict: "json_floats (to_dict r) \<subseteq> {lease_expiry r}"
  unfolding to_dict_def
  by (cases "result r"; cases "error r"; cases "claimed_by r"; cases "signature r"; cases "signer_id r")
     (auto simp: hex_json_def)

lemma clock_json_ok: "wf_clock c \<Longrightarrow> json_wf (clock_json c) \<and> json_floats (clock_json c) = {} \<and> is_object (clock_json c)"
  by (auto simp: clock_json_def vc_to_dict_def wf_clock_def is_object_def fst_comp_map_snd)

lemma journal_printable:
  assumes "append_all (env_repr V) w0 (journal rcs) = Inr (ns, w)" "\<forall>r \<in> fst ` set rcs. recoverable V n r"
    and "\<forall>c \<in> snd ` set rcs. wf_clock c" "float_text_ok (env_repr V) (env_parse V) 0"
  shows "\<forall>(ty, body) \<in> set (journal rcs). is_object body \<and> printable (env_repr V) (env_parse V) body"
proof -
  have "is_object body \<and> json_wf body \<and> json_floats body \<subseteq> {0}" if m: "(ty, body) \<in> set (journal rcs)" for ty body
  proof -
    obtain r c where rc: "(r, c) \<in> set rcs" "body = to_dict r \<or> body = clock_json c" using m by (auto simp: journal_def)
    then have "recoverable V n r" "wf_clock c" using assms(2,3) by force+
    moreover have "is_object (to_dict r)" by (simp add: is_object_def to_dict_def)
    ultimately show ?thesis
      using rc(2) json_wf_to_dict [of r] json_floats_to_dict [of r] clock_json_ok [of c] by (auto simp: recoverable_def)
  qed
  then show ?thesis using append_all_dumpable [OF assms(1)] assms(4) by (fastforce simp: printable_def)
qed

lemma foldl_own_clocks:
  "foldl vc_merge (own_clock nid 0) (map (\<lambda>i. own_clock nid (int i)) [1..<Suc k]) = own_clock nid (int k)"
  by (induction k) (simp_all add: merge_own_clock)

lemma n_id_PeerNode: "PeerNode E nid peers h lease env qs ic wlog key ring sec mt = Inr n \<Longrightarrow>
    nid \<noteq> [] \<and> len nid \<le> MAX_PEER_ID_LENGTH \<and> n_clock n = own_clock nid 0 \<and> n_queued n = {} \<and>
    n_queue n = init_queue qs REJECT_ON_FULL \<and> (\<exists>ring'. own_key E ring nid key = Inr ring' \<and> n_ring n = ring')"
  unfolding PeerNode_def Let_def rbind_Inr_iff require_Inr_iff by (auto simp: own_clock_def)

lemma reopened:
  assumes "WriteAheadLog None s mb = Inr w0" "append_all fr w0 items = Inr (ns, w)" "WriteAheadLog (contents w) s mb = Inr w1"
  shows "w1 = w"
proof -
  have "sync_on_write w = sync_on_write w0 \<and> max_record_bytes w = max_record_bytes w0 \<and> file_open w = file_open w0"
    using assms(2) by (induction fr w0 items arbitrary: ns rule: append_all.induct)
      (fastforce simp: rbind_Inr_iff append_record_def Let_def split: if_splits)+
  moreover have "\<exists>y. contents w = Some y \<and> y \<noteq> []" if "contents w0 = Some x" "x \<noteq> []" for x
    using assms(2) that by (induction fr w0 items arbitrary: ns x rule: append_all.induct)
      (fastforce simp: rbind_Inr_iff append_record_def Let_def split: if_splits)+
  moreover have "contents w0 = Some WAL_MAGIC" "WAL_MAGIC \<noteq> []" using new_log [OF assms(1)] by (simp_all add: WAL_MAGIC_def)
  ultimately show ?thesis
    using assms(1,3) by (auto simp: WriteAheadLog_def open_log_def rbind_Inr_iff Let_def split: if_splits option.splits)
qed


subsection \<open>A concrete crash\<close>

definition sample_disk :: wal where
  "sample_disk = \<lparr>sync_on_write = False, max_record_bytes = 5000, contents = Some WAL_MAGIC, file_open = True\<rparr>"

definition sample_plain :: "wal \<Rightarrow> node result" where
  "sample_plain w = PeerNode sample_ed25519 ''a'' [''b''] True None None 10 20 (Some w) (KeyPair [7]) mesh_ring
     (default_security_config\<lparr>enabled := False\<rparr>) 2"

lemma sample_disk_new: "WriteAheadLog None False 5000 = Inr sample_disk"
  by (simp add: WriteAheadLog_def open_log_def verify_header_def sample_disk_def WAL_MAGIC_def WAL_HEADER_LEN_def)

definition sample_submitted_record :: task_record where
  "sample_submitted_record = new_record ''t'' PENDING [] None (FenceToken 0 []) 0 (own_clock ''a'' 1) ''a''"

lemma payload_bytes_some:
  assumes "validate_json_tree (wal_limits w) body = Inr ()" "dumpable body"
    and "len (utf8_encode (dump fr True (sort_json body))) \<le> max_record_bytes w"
  shows "\<exists>pb. payload_bytes fr w body = Inr pb \<and> len pb \<le> max_record_bytes w"
  using assms by (simp add: payload_bytes_def dumps_def)

lemma sample_task_payload:
  assumes "max_record_bytes w = 5000"
  shows "\<exists>pb. payload_bytes sample_repr w (to_dict sample_submitted_record) = Inr pb \<and> len pb \<le> max_record_bytes w"
proof (rule payload_bytes_some)
  show "dumpable (to_dict sample_submitted_record)"
    by (simp add: to_dict_def sample_submitted_record_def new_record_def hex_json_def max_str_digits_def dec_nat.simps)
  show "validate_json_tree (wal_limits w) (to_dict sample_submitted_record) = Inr ()"
    by (simp add: validate_Inr wal_limits_def assms to_dict_def sample_submitted_record_def new_record_def hex_json_def)
       (simp add: utf8_encode_def utf8_char_def hex_of_def)
  have "length (dump sample_repr True (sort_json (to_dict sample_submitted_record))) \<le> 2000"
    by (simp add: to_dict_def sample_submitted_record_def new_record_def hex_json_def sort_key_simps quote_def dec_int_def dec_nat.simps
       escape_char_def sample_repr_def hex_of_def)
  then show "len (utf8_encode (dump sample_repr True (sort_json (to_dict sample_submitted_record)))) \<le> max_record_bytes w"
    using length_utf8_encode_le [of "dump sample_repr True (sort_json (to_dict sample_submitted_record))"] assms by linarith
qed

lemma sample_clock_payload:
  assumes "max_record_bytes w = 5000"
  shows "\<exists>pb. payload_bytes sample_repr w (clock_json (own_clock ''a'' 1)) = Inr pb \<and> len pb \<le> max_record_bytes w"
proof (rule payload_bytes_some)
  show "dumpable (clock_json (own_clock ''a'' 1))"
    by (simp add: clock_json_def vc_to_dict_def max_str_digits_def dec_nat.simps)
  show "validate_json_tree (wal_limits w) (clock_json (own_clock ''a'' 1)) = Inr ()"
    by (simp add: validate_Inr wal_limits_def assms clock_json_def vc_to_dict_def utf8_encode_def utf8_char_def)
  show "len (utf8_encode (dump sample_repr True (sort_json (clock_json (own_clock ''a'' 1))))) \<le> max_record_bytes w"
    by (simp add: clock_json_def vc_to_dict_def assms quote_def escape_char_def dec_int_def dec_nat.simps utf8_encode_def utf8_char_def)
qed

definition magic_log :: "bytes \<Rightarrow> wal" where
  "magic_log d = sample_disk\<lparr>contents := Some (WAL_MAGIC @ d)\<rparr>"

lemma append_record_some:
  assumes "ty \<in> record_types" "payload_bytes fr (magic_log d) body = Inr pb" "len pb \<le> max_record_bytes (magic_log d)"
  shows "\<exists>n d'. append_record fr (magic_log d) ty body = Inr (n, magic_log d')"
proof -
  have "frame ty pb = Inr (frame_bytes ty pb)" using assms(3) by (simp add: frame_Inr magic_log_def sample_disk_def)
  then show ?thesis using assms(1,2)
    by (auto simp: append_record_def Let_def magic_log_def sample_disk_def intro!: exI [of _ "d @ frame_bytes ty pb"])
qed

lemma sample_log:
  "\<exists>n d m d'. append_task sample_repr (magic_log []) sample_submitted_record = Inr (n, magic_log d) \<and>
     append_clock sample_repr (magic_log d) (own_clock ''a'' 1) = Inr (m, magic_log d')"
proof -
  have mx: "max_record_bytes (magic_log d) = 5000" for d by (simp add: magic_log_def sample_disk_def)
  obtain n d where "append_task sample_repr (magic_log []) sample_submitted_record = Inr (n, magic_log d)"
    using sample_task_payload [OF mx] append_record_some [of RECORD_TASK sample_repr "[]"]
    unfolding append_task_def record_types_def by (metis insertCI)
  moreover obtain m d' where "append_clock sample_repr (magic_log d) (own_clock ''a'' 1) = Inr (m, magic_log d')"
    using sample_clock_payload [OF mx] append_record_some [of RECORD_CLOCK sample_repr d]
    unfolding append_clock_def record_types_def by (metis insertCI)
  ultimately show ?thesis by blast
qed

lemma sample_plain_new: "\<exists>n. sample_plain w = Inr n"
proof -
  have "MetricsCollector 7 \<noteq> Inl e" for e by (simp add: MetricsCollector_def LogLinearHistogram_def Let_def)
  then obtain mc where "MetricsCollector 7 = Inr mc" by (cases "MetricsCollector 7") auto
  then show ?thesis
    by (simp add: sample_plain_def PeerNode_def Let_def own_key_def get_peer_key_def mesh_ring_def public_to_bytes_def
        public_key_of_def sample_ed25519_def dict_fromkeys_def MAX_PEER_ID_LENGTH_def ReplayCache_def default_security_config_def)
qed

lemma sample_submit:
  assumes "sample_plain (magic_log []) = Inr n0"
  shows "\<exists>n d. submit_all sample_env [(''t'', [], 0)] n0 = (n, None) \<and> n_wal n = Some (magic_log d) \<and>
    all_tasks n = [(''t'', sample_submitted_record)]"
proof -
  note p = PeerNode_Inr [OF assms [unfolded sample_plain_def]] n_id_PeerNode [OF assms [unfolded sample_plain_def]]
  obtain a b d d' where l: "append_task sample_repr (magic_log []) sample_submitted_record = Inr (a, magic_log d)"
    "append_clock sample_repr (magic_log d) (own_clock ''a'' 1) = Inr (b, magic_log d')" using sample_log by blast
  have c: "increment (own_clock ''a'' 0) ''a'' = own_clock ''a'' 1" by (simp add: increment_own_clock)
  have s: "seal_record sample_env (n0\<lparr>n_clock := own_clock ''a'' 1\<rparr>)
      (new_record ''t'' PENDING [] None (FenceToken 0 []) 0 (own_clock ''a'' 1) (n_id n0)) = Inr sample_submitted_record"
    using p by (simp add: seal_record_def sample_submitted_record_def)
  show ?thesis
    using p l s
    by (simp add: submit_task_def Let_def c store_full_def log_update_def store_task_def count_def put_def init_queue_def full_def
        MAX_TASK_ID_LENGTH_def MAX_TASK_PAYLOAD_def all_tasks_def) (rule exI, rule refl)
qed


end
