(* ===== verification/Sim_Network.thy ===== *)
theory Sim_Network
  imports Message
begin

section \<open>The simulated network (transport.py)\<close>

text \<open>
  \<^verbatim>\<open>SimNetwork\<close>, \<^verbatim>\<open>InMemoryTransport\<close> and \<^verbatim>\<open>SimBroadcastTransport\<close>. Transports are objects that the
  network's registries, the nodes and the messages in flight share: they live in a store by
  address, and a message in flight keeps the address it looked up before the latency, so that
  it reaches an object that has been closed or replaced in the meantime. The coroutine of
  \<^verbatim>\<open>route_message\<close> is cut at its sleep; parked coroutines resume in any order. The value drawn
  by \<^verbatim>\<open>rng.random()\<close> is an argument, absent when the network has no generator. What \<^verbatim>\<open>repr\<close> and
  \<^verbatim>\<open>float\<close> do on floats are the arguments \<open>fr\<close> and \<open>pf\<close>.
\<close>

subsection \<open>State\<close>

record memory_transport =
  mt_id :: string
  mt_security :: security_config
  mt_inbox :: "(string \<times> message) list"
  mt_closed :: bool

record broadcast_transport =
  bt_id :: string
  bt_inbox :: "(string \<times> bytes) list"

text \<open>A coroutine parked in \<^verbatim>\<open>route_message\<close>.\<close>

record flight =
  fl_source :: string
  fl_target :: string
  fl_object :: nat
  fl_msg :: message

record sim_network =
  net_objects :: "memory_transport list"
  net_transports :: "(string, nat) dict"
  net_receivers :: "broadcast_transport list"
  net_broadcast :: "(string, nat) dict"
  net_blocked :: "(string \<times> string) set"
  net_drop_rate :: real
  net_latency :: real
  net_flights :: "flight list"

definition SimNetwork :: sim_network where
  "SimNetwork = \<lparr>net_objects = [], net_transports = [], net_receivers = [], net_broadcast = [], net_blocked = {},
     net_drop_rate = 0, net_latency = 0, net_flights = []\<rparr>"

text \<open>\<^verbatim>\<open>asyncio.Queue.full()\<close>\<close>

definition queue_full :: "int \<Rightarrow> 'a list \<Rightarrow> bool" where
  "queue_full mx q \<longleftrightarrow> 0 < mx \<and> mx \<le> len q"

subsection \<open>Topology\<close>

definition net_register :: "string \<Rightarrow> nat \<Rightarrow> sim_network \<Rightarrow> sim_network" where
  "net_register node_id a net = net\<lparr>net_transports := AList.update node_id a (net_transports net)\<rparr>"

definition net_unregister :: "string \<Rightarrow> sim_network \<Rightarrow> sim_network" where
  "net_unregister node_id net = net\<lparr>net_transports := AList.delete node_id (net_transports net)\<rparr>"

definition register_broadcast :: "string \<Rightarrow> nat \<Rightarrow> sim_network \<Rightarrow> sim_network" where
  "register_broadcast node_id a net = net\<lparr>net_broadcast := AList.update node_id a (net_broadcast net)\<rparr>"

definition unregister_broadcast :: "string \<Rightarrow> sim_network \<Rightarrow> sim_network" where
  "unregister_broadcast node_id net = net\<lparr>net_broadcast := AList.delete node_id (net_broadcast net)\<rparr>"

definition is_blocked :: "sim_network \<Rightarrow> string \<Rightarrow> string \<Rightarrow> bool" where
  "is_blocked net source target \<longleftrightarrow> (source, target) \<in> net_blocked net"

definition links :: "string set \<Rightarrow> string set \<Rightarrow> bool \<Rightarrow> (string \<times> string) set" where
  "links group_a group_b symmetric =
     (\<Union>a \<in> group_a. \<Union>b \<in> group_b. insert (a, b) (if symmetric then {(b, a)} else {}))"

definition partition_net :: "string set \<Rightarrow> string set \<Rightarrow> bool \<Rightarrow> sim_network \<Rightarrow> sim_network" where
  "partition_net group_a group_b symmetric net =
     net\<lparr>net_blocked := net_blocked net \<union> links group_a group_b symmetric\<rparr>"

definition heal_partition :: "string set \<Rightarrow> string set \<Rightarrow> bool \<Rightarrow> sim_network \<Rightarrow> sim_network" where
  "heal_partition group_a group_b symmetric net =
     net\<lparr>net_blocked := net_blocked net - links group_a group_b symmetric\<rparr>"

definition heal_all :: "sim_network \<Rightarrow> sim_network" where
  "heal_all net = net\<lparr>net_blocked := {}\<rparr>"

subsection \<open>Point-to-point messages\<close>

definition InMemoryTransport :: "string \<Rightarrow> security_config \<Rightarrow> sim_network \<Rightarrow> nat \<times> sim_network" where
  "InMemoryTransport node_id security net =
     (let a = length (net_objects net);
          t = \<lparr>mt_id = node_id, mt_security = security, mt_inbox = [], mt_closed = False\<rparr>
      in (a, net_register node_id a (net\<lparr>net_objects := net_objects net @ [t]\<rparr>)))"

definition isolated :: "(real \<Rightarrow> string) \<Rightarrow> (string \<Rightarrow> pyfloat) \<Rightarrow> security_config \<Rightarrow> message \<Rightarrow> message result" where
  "isolated fr pf security m =
     rbind (to_bytes fr (max_frame_size security) m) (\<lambda>b. from_bytes pf (drop 4 b) security)"

definition deliver_packet ::
  "(real \<Rightarrow> string) \<Rightarrow> (string \<Rightarrow> pyfloat) \<Rightarrow> string \<Rightarrow> message \<Rightarrow> memory_transport \<Rightarrow> memory_transport result" where
  "deliver_packet fr pf sender m t =
     (if mt_closed t then Inr t
      else rbind (isolated fr pf (mt_security t) m) (\<lambda>m'.
             Inr (if queue_full (max_inbox_size (mt_security t)) (mt_inbox t) then t
                  else t\<lparr>mt_inbox := mt_inbox t @ [(sender, m')]\<rparr>)))"

text \<open>\<^verbatim>\<open>route_message\<close> after the latency.\<close>

definition arrive ::
  "(real \<Rightarrow> string) \<Rightarrow> (string \<Rightarrow> pyfloat) \<Rightarrow> flight \<Rightarrow> sim_network \<Rightarrow> sim_network \<times> py_error option" where
  "arrive fr pf f net =
     (if is_blocked net (fl_source f) (fl_target f) then (net, None)
      else case deliver_packet fr pf (fl_source f) (fl_msg f) (net_objects net ! fl_object f) of
             Inl e \<Rightarrow> (net, Some e)
           | Inr t \<Rightarrow> (net\<lparr>net_objects := (net_objects net)[fl_object f := t]\<rparr>, None))"

definition route_message ::
  "(real \<Rightarrow> string) \<Rightarrow> (string \<Rightarrow> pyfloat) \<Rightarrow> string \<Rightarrow> string \<Rightarrow> message \<Rightarrow> real option \<Rightarrow> sim_network \<Rightarrow>
   sim_network \<times> py_error option" where
  "route_message fr pf source target m draw net =
     (if is_blocked net source target then (net, None)
      else if (case draw of None \<Rightarrow> False | Some x \<Rightarrow> 0 < net_drop_rate net \<and> x < net_drop_rate net) then (net, None)
      else case map_of (net_transports net) target of
             None \<Rightarrow> (net, None)
           | Some a \<Rightarrow>
               (let f = \<lparr>fl_source = source, fl_target = target, fl_object = a, fl_msg = m\<rparr>
                in if 0 < net_latency net then (net\<lparr>net_flights := net_flights net @ [f]\<rparr>, None)
                   else arrive fr pf f net))"

definition send_message ::
  "(real \<Rightarrow> string) \<Rightarrow> (string \<Rightarrow> pyfloat) \<Rightarrow> nat \<Rightarrow> string \<Rightarrow> message \<Rightarrow> real option \<Rightarrow> sim_network \<Rightarrow>
   sim_network \<times> py_error option" where
  "send_message fr pf a peer_id m draw net =
     (if mt_closed (net_objects net ! a) then (net, Some RuntimeError)
      else route_message fr pf (mt_id (net_objects net ! a)) peer_id m draw net)"

text \<open>The sleep of the \<open>i\<close>-th parked coroutine ends.\<close>

definition land ::
  "(real \<Rightarrow> string) \<Rightarrow> (string \<Rightarrow> pyfloat) \<Rightarrow> nat \<Rightarrow> sim_network \<Rightarrow> sim_network \<times> py_error option" where
  "land fr pf i net =
     (if i < length (net_flights net)
      then arrive fr pf (net_flights net ! i)
             (net\<lparr>net_flights := take i (net_flights net) @ drop (Suc i) (net_flights net)\<rparr>)
      else (net, None))"

text \<open>\<^verbatim>\<open>recv\<close>: a message, or \<open>None\<close> when the coroutine waits for one.\<close>

definition recv_message :: "nat \<Rightarrow> sim_network \<Rightarrow> ((string \<times> message) option \<times> sim_network) result" where
  "recv_message a net =
     (let t = net_objects net ! a
      in case mt_inbox t of
           [] \<Rightarrow> if mt_closed t then Inl RuntimeError else Inr (None, net)
         | x # xs \<Rightarrow> Inr (Some x, net\<lparr>net_objects := (net_objects net)[a := t\<lparr>mt_inbox := xs\<rparr>]\<rparr>))"

definition close_transport :: "nat \<Rightarrow> sim_network \<Rightarrow> sim_network" where
  "close_transport a net =
     net_unregister (mt_id (net_objects net ! a))
       (net\<lparr>net_objects := (net_objects net)[a := (net_objects net ! a)\<lparr>mt_closed := True\<rparr>]\<rparr>)"

subsection \<open>Broadcast\<close>

definition SimBroadcastTransport :: "string \<Rightarrow> sim_network \<Rightarrow> nat \<times> sim_network" where
  "SimBroadcastTransport node_id net =
     (let a = length (net_receivers net)
      in (a, register_broadcast node_id a (net\<lparr>net_receivers := net_receivers net @ [\<lparr>bt_id = node_id, bt_inbox = []\<rparr>]\<rparr>)))"

definition deliver :: "string \<Rightarrow> bytes \<Rightarrow> broadcast_transport \<Rightarrow> broadcast_transport" where
  "deliver sender data t =
     (if queue_full 256 (bt_inbox t) then t else t\<lparr>bt_inbox := bt_inbox t @ [(sender, data)]\<rparr>)"

definition deliver_broadcast :: "string \<Rightarrow> bytes \<Rightarrow> sim_network \<Rightarrow> sim_network" where
  "deliver_broadcast sender data net =
     fold (\<lambda>(target, a) net.
         if target = sender \<or> is_blocked net sender target then net
         else net\<lparr>net_receivers := (net_receivers net)[a := deliver sender data (net_receivers net ! a)]\<rparr>)
       (net_broadcast net) net"

definition send_broadcast :: "nat \<Rightarrow> bytes \<Rightarrow> sim_network \<Rightarrow> sim_network" where
  "send_broadcast a data net = deliver_broadcast (bt_id (net_receivers net ! a)) data net"

definition recv_broadcast :: "nat \<Rightarrow> sim_network \<Rightarrow> (string \<times> bytes) option \<times> sim_network" where
  "recv_broadcast a net =
     (let t = net_receivers net ! a
      in case bt_inbox t of
           [] \<Rightarrow> (None, net)
         | x # xs \<Rightarrow> (Some x, net\<lparr>net_receivers := (net_receivers net)[a := t\<lparr>bt_inbox := xs\<rparr>]\<rparr>))"

definition close_broadcast :: "nat \<Rightarrow> sim_network \<Rightarrow> sim_network" where
  "close_broadcast a net = unregister_broadcast (bt_id (net_receivers net ! a)) net"

subsection \<open>Runs\<close>

datatype net_event =
    Join string security_config
  | Send nat string message "real option"
  | Land nat
  | Recv nat
  | Close nat
  | Partition "string set" "string set" bool
  | Heal "string set" "string set" bool
  | HealAll
  | Tune real real
  | JoinBroadcast string
  | Broadcast nat bytes
  | RecvBroadcast nat
  | CloseBroadcast nat

text \<open>One event; operations on an object that does not exist cannot be written in the program.\<close>

definition net_step :: "(real \<Rightarrow> string) \<Rightarrow> (string \<Rightarrow> pyfloat) \<Rightarrow> net_event \<Rightarrow> sim_network \<Rightarrow> sim_network" where
  "net_step fr pf e net =
     (case e of
        Join node_id security \<Rightarrow> snd (InMemoryTransport node_id security net)
      | Send a peer_id m draw \<Rightarrow>
          if a < length (net_objects net) then fst (send_message fr pf a peer_id m draw net) else net
      | Land i \<Rightarrow> fst (land fr pf i net)
      | Recv a \<Rightarrow>
          if a < length (net_objects net)
          then (case recv_message a net of Inl _ \<Rightarrow> net | Inr (_, net') \<Rightarrow> net') else net
      | Close a \<Rightarrow> if a < length (net_objects net) then close_transport a net else net
      | Partition group_a group_b symmetric \<Rightarrow> partition_net group_a group_b symmetric net
      | Heal group_a group_b symmetric \<Rightarrow> heal_partition group_a group_b symmetric net
      | HealAll \<Rightarrow> heal_all net
      | Tune rate latency \<Rightarrow> net\<lparr>net_drop_rate := rate, net_latency := latency\<rparr>
      | JoinBroadcast node_id \<Rightarrow> snd (SimBroadcastTransport node_id net)
      | Broadcast a data \<Rightarrow> if a < length (net_receivers net) then send_broadcast a data net else net
      | RecvBroadcast a \<Rightarrow> if a < length (net_receivers net) then snd (recv_broadcast a net) else net
      | CloseBroadcast a \<Rightarrow> if a < length (net_receivers net) then close_broadcast a net else net)"

definition net_run :: "(real \<Rightarrow> string) \<Rightarrow> (string \<Rightarrow> pyfloat) \<Rightarrow> net_event list \<Rightarrow> sim_network \<Rightarrow> sim_network" where
  "net_run fr pf evs net = fold (net_step fr pf) evs net"


subsection \<open>What an event does to the transports\<close>

text \<open>The network is consistent: registries and flights point to objects of the right name, inboxes are bounded.\<close>

definition net_wf :: "sim_network \<Rightarrow> bool" where
  "net_wf net \<longleftrightarrow>
     (\<forall>(k, a) \<in> set (net_transports net). a < length (net_objects net) \<and> mt_id (net_objects net ! a) = k) \<and>
     (\<forall>f \<in> set (net_flights net). fl_object f < length (net_objects net) \<and>
        mt_id (net_objects net ! fl_object f) = fl_target f) \<and>
     (\<forall>t \<in> set (net_objects net). 0 < max_inbox_size (mt_security t) \<longrightarrow> len (mt_inbox t) \<le> max_inbox_size (mt_security t))"

text \<open>How one event changes the object store.\<close>

inductive changes ::
  "(real \<Rightarrow> string) \<Rightarrow> (string \<Rightarrow> pyfloat) \<Rightarrow> sim_network \<Rightarrow> (string \<times> string \<times> message) option \<Rightarrow> memory_transport list \<Rightarrow> bool"
  for fr pf net where
  Same: "changes fr pf net None (net_objects net)"
| New: "mt_inbox t = [] \<Longrightarrow> changes fr pf net None (net_objects net @ [t])"
| Take: "a < length (net_objects net) \<Longrightarrow> mt_inbox (net_objects net ! a) = x # xs \<Longrightarrow>
    changes fr pf net None ((net_objects net)[a := (net_objects net ! a)\<lparr>mt_inbox := xs\<rparr>])"
| Shut: "a < length (net_objects net) \<Longrightarrow>
    changes fr pf net None ((net_objects net)[a := (net_objects net ! a)\<lparr>mt_closed := True\<rparr>])"
| Put: "a < length (net_objects net) \<Longrightarrow> t = net_objects net ! a \<Longrightarrow> \<not> is_blocked net s (mt_id t) \<Longrightarrow>
    isolated fr pf (mt_security t) m = Inr m' \<Longrightarrow> \<not> queue_full (max_inbox_size (mt_security t)) (mt_inbox t) \<Longrightarrow>
    changes fr pf net (Some (s, mt_id t, m)) ((net_objects net)[a := t\<lparr>mt_inbox := mt_inbox t @ [(s, m')]\<rparr>])"

text \<open>The message an event may put into an inbox: one that is sent by it or was in flight.\<close>

definition offered :: "net_event \<Rightarrow> sim_network \<Rightarrow> (string \<times> string \<times> message) set" where
  "offered e net =
     (case e of
        Send a peer_id m _ \<Rightarrow>
          if a < length (net_objects net) \<and> \<not> mt_closed (net_objects net ! a)
          then {(mt_id (net_objects net ! a), peer_id, m)} else {}
      | _ \<Rightarrow> {})"

definition flying :: "sim_network \<Rightarrow> (string \<times> string \<times> message) set" where
  "flying net = (\<lambda>f. (fl_source f, fl_target f, fl_msg f)) ` set (net_flights net)"

lemma arrive_changes:
  assumes "fl_object f < length (net_objects net)" "mt_id (net_objects net ! fl_object f) = fl_target f"
  shows "\<exists>c. changes fr pf net c (net_objects (fst (arrive fr pf f net))) \<and>
      c \<in> {None, Some (fl_source f, fl_target f, fl_msg f)}"
    "net_transports (fst (arrive fr pf f net)) = net_transports net" "net_flights (fst (arrive fr pf f net)) = net_flights net"
proof -
  let ?t = "net_objects net ! fl_object f"
  have "\<exists>c. changes fr pf net c (net_objects (fst (arrive fr pf f net))) \<and> c \<in> {None, Some (fl_source f, fl_target f, fl_msg f)}"
  proof (cases "is_blocked net (fl_source f) (fl_target f) \<or> mt_closed ?t \<or>
      queue_full (max_inbox_size (mt_security ?t)) (mt_inbox ?t) \<or> (\<exists>e. isolated fr pf (mt_security ?t) (fl_msg f) = Inl e)")
    case True
    then have "net_objects (fst (arrive fr pf f net)) = net_objects net"
      by (auto simp: arrive_def deliver_packet_def split: sum.split) (cases "isolated fr pf (mt_security ?t) (fl_msg f)"; auto)+
    then show ?thesis using Same [of fr pf net] by (intro exI [of _ None]) simp
  next
    case False
    then obtain m' where m': "isolated fr pf (mt_security ?t) (fl_msg f) = Inr m'" by (meson sum.exhaust)
    from Put [OF assms(1) refl _ m', of "fl_source f"] False assms(2) m'
    show ?thesis by (intro exI [of _ "Some (fl_source f, fl_target f, fl_msg f)"]) (simp add: arrive_def deliver_packet_def)
  qed
  then show "\<exists>c. changes fr pf net c (net_objects (fst (arrive fr pf f net))) \<and> c \<in> {None, Some (fl_source f, fl_target f, fl_msg f)}" .
  show "net_transports (fst (arrive fr pf f net)) = net_transports net" "net_flights (fst (arrive fr pf f net)) = net_flights net"
    by (simp_all add: arrive_def split: sum.split)
qed

lemma changes_objects:
  assumes "changes fr pf net c objs"
  shows "length (net_objects net) \<le> length objs"
    "a < length (net_objects net) \<Longrightarrow> mt_id (objs ! a) = mt_id (net_objects net ! a) \<and>
       mt_security (objs ! a) = mt_security (net_objects net ! a)"
  using assms by (auto elim!: changes.cases simp: nth_append nth_list_update)

lemma changes_bounded:
  assumes "changes fr pf net c objs"
    and "\<forall>t \<in> set (net_objects net). 0 < max_inbox_size (mt_security t) \<longrightarrow> len (mt_inbox t) \<le> max_inbox_size (mt_security t)"
  shows "\<forall>t \<in> set objs. 0 < max_inbox_size (mt_security t) \<longrightarrow> len (mt_inbox t) \<le> max_inbox_size (mt_security t)"
  using assms(1)
proof cases
  case (Take a x xs)
  then have "0 < max_inbox_size (mt_security (net_objects net ! a)) \<longrightarrow> len (x # xs) \<le> max_inbox_size (mt_security (net_objects net ! a))"
    using assms(2) by (metis nth_mem)
  with Take assms(2) show ?thesis by (auto dest!: subsetD [OF set_update_subset_insert])
next
  case (Shut a)
  with assms(2) show ?thesis by (auto dest!: subsetD [OF set_update_subset_insert])
next
  case (Put a t s m m')
  with assms(2) show ?thesis by (auto simp: queue_full_def dest!: subsetD [OF set_update_subset_insert])
qed (use assms(2) in auto)

text \<open>The parts of the state that broadcasts leave alone.\<close>

lemma deliver_broadcast_keeps [simp]:
  "net_objects (deliver_broadcast s d net) = net_objects net" "net_transports (deliver_broadcast s d net) = net_transports net"
  "net_flights (deliver_broadcast s d net) = net_flights net" "net_blocked (deliver_broadcast s d net) = net_blocked net"
  "net_broadcast (deliver_broadcast s d net) = net_broadcast net"
proof -
  let ?f = "\<lambda>(target, a) net. if target = s \<or> is_blocked net s target then net
      else net\<lparr>net_receivers := (net_receivers net)[a := deliver s d (net_receivers net ! a)]\<rparr>"
  have "net_objects (fold ?f ts net) = net_objects net \<and> net_transports (fold ?f ts net) = net_transports net \<and>
      net_flights (fold ?f ts net) = net_flights net \<and> net_blocked (fold ?f ts net) = net_blocked net \<and>
      net_broadcast (fold ?f ts net) = net_broadcast net" for ts
    by (induction ts arbitrary: net) (simp_all add: case_prod_beta)
  then show "net_objects (deliver_broadcast s d net) = net_objects net" "net_transports (deliver_broadcast s d net) = net_transports net"
    "net_flights (deliver_broadcast s d net) = net_flights net" "net_blocked (deliver_broadcast s d net) = net_blocked net"
    "net_broadcast (deliver_broadcast s d net) = net_broadcast net"
    by (simp_all add: deliver_broadcast_def)
qed

lemmas net_defs = InMemoryTransport_def SimBroadcastTransport_def net_register_def net_unregister_def register_broadcast_def
  unregister_broadcast_def partition_net_def heal_partition_def heal_all_def close_transport_def close_broadcast_def
  send_broadcast_def recv_broadcast_def Let_def

definition wf_refs :: "sim_network \<Rightarrow> memory_transport list \<Rightarrow> bool" where
  "wf_refs net objs \<longleftrightarrow>
     (\<forall>(k, a) \<in> set (net_transports net). a < length objs \<and> mt_id (objs ! a) = k) \<and>
     (\<forall>f \<in> set (net_flights net). fl_object f < length objs \<and> mt_id (objs ! fl_object f) = fl_target f)"

lemma wf_refs_changes: "net_wf net \<Longrightarrow> changes fr pf net c objs \<Longrightarrow> wf_refs net objs"
  using changes_objects [of fr pf net c objs] unfolding net_wf_def wf_refs_def by fastforce

text \<open>An event and its effect: on the objects, on the references to them, on what is in flight.\<close>

definition effect :: "(real \<Rightarrow> string) \<Rightarrow> (string \<Rightarrow> pyfloat) \<Rightarrow> net_event \<Rightarrow> sim_network \<Rightarrow> sim_network \<Rightarrow> bool" where
  "effect fr pf e net net' \<longleftrightarrow>
     (\<exists>c. changes fr pf net c (net_objects net') \<and> set_option c \<subseteq> offered e net \<union> flying net) \<and>
     wf_refs net' (net_objects net') \<and> flying net' \<subseteq> flying net \<union> offered e net"

lemma effect_same:
  assumes "net_wf net" "net_objects net' = net_objects net" "net_transports net' = net_transports net"
    and "net_flights net' = net_flights net"
  shows "effect fr pf e net net'"
  using assms Same [of fr pf net] unfolding effect_def wf_refs_def net_wf_def flying_def
  by (intro conjI exI [of _ None]) auto

lemma changes_cong:
  assumes "changes fr pf n1 c objs" "net_objects n1 = net_objects net" "net_blocked n1 = net_blocked net"
  shows "changes fr pf net c objs"
  using assms(1)
proof cases
  case (Put a t s m m')
  then show ?thesis using assms(2,3) by (simp add: is_blocked_def changes.Put)
qed (use assms(2) in \<open>simp_all add: changes.intros\<close>)

lemma effect_arrive:
  assumes "net_wf net" "(fl_source f, fl_target f, fl_msg f) \<in> offered e net \<union> flying net"
    and "fl_object f < length (net_objects net)" "mt_id (net_objects net ! fl_object f) = fl_target f"
    and "net_objects n1 = net_objects net" "net_transports n1 = net_transports net" "net_blocked n1 = net_blocked net"
    and "set (net_flights n1) \<subseteq> set (net_flights net)"
  shows "effect fr pf e net (fst (arrive fr pf f n1))"
proof -
  have f: "fl_object f < length (net_objects n1)" "mt_id (net_objects n1 ! fl_object f) = fl_target f"
    using assms(3-5) by simp_all
  note a = arrive_changes [OF f, of fr pf]
  obtain c where c: "changes fr pf n1 c (net_objects (fst (arrive fr pf f n1)))"
    "c \<in> {None, Some (fl_source f, fl_target f, fl_msg f)}" using a(1) by blast
  have c': "changes fr pf net c (net_objects (fst (arrive fr pf f n1)))"
    using changes_cong [OF c(1) assms(5,7)] .
  have "wf_refs net (net_objects (fst (arrive fr pf f n1)))" using wf_refs_changes [OF assms(1) c'] .
  then have "wf_refs (fst (arrive fr pf f n1)) (net_objects (fst (arrive fr pf f n1)))"
    using a(2,3) assms(6,8) unfolding wf_refs_def by auto
  moreover have "set_option c \<subseteq> offered e net \<union> flying net" using c(2) assms(2) by auto
  moreover have "flying (fst (arrive fr pf f n1)) \<subseteq> flying net \<union> offered e net"
    unfolding flying_def a(3) using assms(8) by auto
  ultimately show ?thesis unfolding effect_def using c' by blast
qed


lemma effect_route:
  assumes "net_wf net" "(source, target, m) \<in> offered e net"
  shows "effect fr pf e net (fst (route_message fr pf source target m draw net))"
proof -
  let ?go = "\<not> is_blocked net source target \<and> \<not> (case draw of None \<Rightarrow> False | Some x \<Rightarrow> 0 < net_drop_rate net \<and> x < net_drop_rate net)"
  show ?thesis
  proof (cases "?go \<and> map_of (net_transports net) target \<noteq> None")
    case False
    then have "fst (route_message fr pf source target m draw net) = net"
      by (auto simp: route_message_def split: option.split)
    then show ?thesis using effect_same [OF assms(1)] by simp
  next
    case True
    then obtain a where a: "map_of (net_transports net) target = Some a" by blast
    then have w: "a < length (net_objects net)" "mt_id (net_objects net ! a) = target"
      using assms(1) by (auto simp: net_wf_def dest: map_of_SomeD)
    let ?f = "\<lparr>fl_source = source, fl_target = target, fl_object = a, fl_msg = m\<rparr>"
    show ?thesis
    proof (cases "0 < net_latency net")
      case False
      then have "fst (route_message fr pf source target m draw net) = fst (arrive fr pf ?f net)"
        using True a by (simp add: route_message_def Let_def)
      moreover have "effect fr pf e net (fst (arrive fr pf ?f net))"
        using assms w by (intro effect_arrive) simp_all
      ultimately show ?thesis by simp
    next
      case lat: True
      then have r: "fst (route_message fr pf source target m draw net) = net\<lparr>net_flights := net_flights net @ [?f]\<rparr>"
        using True a by (simp add: route_message_def Let_def)
      show ?thesis
        using assms w Same [of fr pf net] unfolding r effect_def flying_def wf_refs_def net_wf_def
        by (intro conjI exI [of _ None]) auto
    qed
  qed
qed

lemma effect_step:
  assumes "net_wf net"
  shows "effect fr pf e net (net_step fr pf e net)"
proof (cases e)
  case (Join node_id security)
  let ?t = "\<lparr>mt_id = node_id, mt_security = security, mt_inbox = [], mt_closed = False\<rparr>"
  let ?objs = "net_objects net @ [?t]"
  have c: "changes fr pf net None ?objs" by (rule New) simp
  have "wf_refs net ?objs" using wf_refs_changes [OF assms c] .
  then have "wf_refs (net_step fr pf e net) ?objs"
    using Join unfolding wf_refs_def by (auto simp: net_step_def net_defs dest!: subsetD [OF set_update_pairs])
  moreover have "net_objects (net_step fr pf e net) = ?objs" "flying (net_step fr pf e net) = flying net"
    using Join by (simp_all add: net_step_def net_defs flying_def)
  ultimately show ?thesis using c unfolding effect_def by auto
next
  case (Send a peer_id m draw)
  show ?thesis
  proof (cases "a < length (net_objects net) \<and> \<not> mt_closed (net_objects net ! a)")
    case True
    then have "(mt_id (net_objects net ! a), peer_id, m) \<in> offered e net" using Send by (simp add: offered_def)
    from effect_route [OF assms this, of fr pf draw] True show ?thesis by (simp add: net_step_def Send send_message_def)
  next
    case False
    then have "net_step fr pf e net = net" using Send by (auto simp: net_step_def send_message_def)
    then show ?thesis using effect_same [OF assms] by simp
  qed
next
  case (Land i)
  show ?thesis
  proof (cases "i < length (net_flights net)")
    case True
    let ?f = "net_flights net ! i"
    have f: "?f \<in> set (net_flights net)" using True by simp
    then have "(fl_source ?f, fl_target ?f, fl_msg ?f) \<in> offered e net \<union> flying net" by (auto simp: flying_def)
    moreover have "fl_object ?f < length (net_objects net)" "mt_id (net_objects net ! fl_object ?f) = fl_target ?f"
      using f assms by (auto simp: net_wf_def)
    moreover have "set (take i (net_flights net) @ drop (Suc i) (net_flights net)) \<subseteq> set (net_flights net)"
      by (auto dest: in_set_takeD in_set_dropD)
    ultimately show ?thesis
      using Land True by (auto simp: net_step_def land_def intro!: effect_arrive [OF assms])
  next
    case False
    then show ?thesis using Land effect_same [OF assms] by (simp add: net_step_def land_def)
  qed
next
  case (Recv a)
  show ?thesis
  proof (cases "a < length (net_objects net) \<and> mt_inbox (net_objects net ! a) \<noteq> []")
    case True
    then obtain x xs where x: "mt_inbox (net_objects net ! a) = x # xs" by (meson neq_Nil_conv)
    let ?objs = "(net_objects net)[a := (net_objects net ! a)\<lparr>mt_inbox := xs\<rparr>]"
    have c: "changes fr pf net None ?objs" using True x by (intro Take) simp_all
    have s: "net_step fr pf e net = net\<lparr>net_objects := ?objs\<rparr>"
      using True x Recv by (simp add: net_step_def recv_message_def Let_def)
    from wf_refs_changes [OF assms c] c show ?thesis unfolding s effect_def wf_refs_def flying_def by auto
  next
    case False
    then have "net_step fr pf e net = net"
      using Recv by (auto simp: net_step_def recv_message_def Let_def)
    then show ?thesis using effect_same [OF assms] by simp
  qed
next
  case (Close a)
  show ?thesis
  proof (cases "a < length (net_objects net)")
    case True
    let ?objs = "(net_objects net)[a := (net_objects net ! a)\<lparr>mt_closed := True\<rparr>]"
    have c: "changes fr pf net None ?objs" using True by (rule Shut)
    have s: "net_step fr pf e net = net\<lparr>net_objects := ?objs,
        net_transports := AList.delete (mt_id (net_objects net ! a)) (net_transports net)\<rparr>"
      using True Close by (simp add: net_step_def net_defs)
    from wf_refs_changes [OF assms c] c show ?thesis
      unfolding s effect_def wf_refs_def flying_def by (auto simp: AList.delete_eq)
  next
    case False
    then show ?thesis using Close effect_same [OF assms] by (simp add: net_step_def)
  qed
qed (use effect_same [OF assms] in \<open>auto simp: net_step_def net_defs split: list.split\<close>)

lemma net_wf_step:
  assumes "net_wf net"
  shows "net_wf (net_step fr pf e net)"
proof -
  obtain c where "changes fr pf net c (net_objects (net_step fr pf e net))" "wf_refs (net_step fr pf e net) (net_objects (net_step fr pf e net))"
    using effect_step [OF assms, of fr pf e] unfolding effect_def by blast
  with changes_bounded [OF this(1)] assms show ?thesis by (simp add: net_wf_def wf_refs_def)
qed

subsection \<open>Provenance\<close>

text \<open>The messages handed to open transports in a run: source, target, message.\<close>

fun net_sends ::
  "(real \<Rightarrow> string) \<Rightarrow> (string \<Rightarrow> pyfloat) \<Rightarrow> net_event list \<Rightarrow> sim_network \<Rightarrow> (string \<times> string \<times> message) list" where
  "net_sends fr pf [] net = []"
| "net_sends fr pf (e # evs) net =
     (case e of
        Send a peer_id m _ \<Rightarrow>
          if a < length (net_objects net) \<and> \<not> mt_closed (net_objects net ! a)
          then [(mt_id (net_objects net ! a), peer_id, m)] else []
      | _ \<Rightarrow> []) @ net_sends fr pf evs (net_step fr pf e net)"

definition inbox_ok ::
  "(real \<Rightarrow> string) \<Rightarrow> (string \<Rightarrow> pyfloat) \<Rightarrow> (string \<times> string \<times> message) set \<Rightarrow> memory_transport \<Rightarrow> bool" where
  "inbox_ok fr pf S t \<longleftrightarrow> (\<forall>(s, m') \<in> set (mt_inbox t).
     \<exists>m. (s, mt_id t, m) \<in> S \<and> isolated fr pf (mt_security t) m = Inr m')"

definition accounted ::
  "(real \<Rightarrow> string) \<Rightarrow> (string \<Rightarrow> pyfloat) \<Rightarrow> (string \<times> string \<times> message) set \<Rightarrow> sim_network \<Rightarrow> bool" where
  "accounted fr pf S net \<longleftrightarrow> flying net \<subseteq> S \<and> (\<forall>t \<in> set (net_objects net). inbox_ok fr pf S t)"

lemma accounted_changes:
  assumes "changes fr pf net c objs" "set_option c \<subseteq> S" "\<forall>t \<in> set (net_objects net). inbox_ok fr pf S t"
  shows "\<forall>t \<in> set objs. inbox_ok fr pf S t"
proof -
  have update: "\<forall>t \<in> set ((net_objects net)[a := u]). inbox_ok fr pf S t" if "inbox_ok fr pf S u" for a u
    using that assms(3) set_update_subset_insert [of "net_objects net" a u] by blast
  have nth: "inbox_ok fr pf S (net_objects net ! a)" if "a < length (net_objects net)" for a
    using assms(3) that by (metis nth_mem)
  from assms(1) show ?thesis
  proof cases
    case (New u)
    then show ?thesis using assms(3) by (auto simp: inbox_ok_def)
  next
    case (Take a x xs)
    then have "inbox_ok fr pf S ((net_objects net ! a)\<lparr>mt_inbox := xs\<rparr>)" using nth [of a] by (simp add: inbox_ok_def)
    with Take show ?thesis using update by simp
  next
    case (Shut a)
    then have "inbox_ok fr pf S ((net_objects net ! a)\<lparr>mt_closed := True\<rparr>)" using nth [of a] by (simp add: inbox_ok_def)
    with Shut show ?thesis using update by simp
  next
    case (Put a u s0 m0 m0')
    then have "inbox_ok fr pf S (u\<lparr>mt_inbox := mt_inbox u @ [(s0, m0')]\<rparr>)"
      using nth [of a] assms(2) by (auto simp: inbox_ok_def)
    with Put show ?thesis using update by simp
  qed (use assms(3) in simp)
qed

lemma accounted_step:
  assumes "net_wf net" "accounted fr pf S net" "offered e net \<subseteq> S"
  shows "accounted fr pf S (net_step fr pf e net)"
proof -
  obtain c where c: "changes fr pf net c (net_objects (net_step fr pf e net))" "set_option c \<subseteq> offered e net \<union> flying net"
    "flying (net_step fr pf e net) \<subseteq> flying net \<union> offered e net"
    using effect_step [OF assms(1), of fr pf e] unfolding effect_def by blast
  have "flying net \<subseteq> S" "\<forall>t \<in> set (net_objects net). inbox_ok fr pf S t" using assms(2) by (simp_all add: accounted_def)
  moreover from this have "set_option c \<subseteq> S" using c(2) assms(3) by blast
  ultimately show ?thesis
    using accounted_changes [OF c(1)] c(3) assms(3) unfolding accounted_def by (metis Un_least order_trans)
qed

lemma net_sends_Cons: "set (net_sends fr pf (e # evs) net) = offered e net \<union> set (net_sends fr pf evs (net_step fr pf e net))"
  by (auto simp: offered_def split: net_event.splits if_splits)

lemma run_invariant:
  "net_wf net \<Longrightarrow> accounted fr pf S net \<Longrightarrow> set (net_sends fr pf evs net) \<subseteq> S \<Longrightarrow>
   net_wf (net_run fr pf evs net) \<and> accounted fr pf S (net_run fr pf evs net)"
proof (induction evs arbitrary: net)
  case (Cons e evs)
  from Cons.prems(3) have "offered e net \<subseteq> S" "set (net_sends fr pf evs (net_step fr pf e net)) \<subseteq> S"
    unfolding net_sends_Cons by auto
  with Cons.IH [OF net_wf_step [OF Cons.prems(1)] accounted_step [OF Cons.prems(1,2)]] show ?case
    by (simp add: net_run_def)
qed (simp add: net_run_def)

lemma SimNetwork_wf: "net_wf SimNetwork" "accounted fr pf S SimNetwork"
  by (simp_all add: SimNetwork_def net_wf_def accounted_def flying_def)

text \<open>
  C24: the network invents nothing. In every run, whatever latencies, losses, partitions,
  closings and reconnections happen, an inbox holds at most its configured number of messages,
  and each of them carries the name of an open transport that sent it to a transport of this
  name; what the receiver sees is the sent message after a passage over the wire format.
\<close>

theorem network_integrity:
  assumes "net = net_run fr pf evs SimNetwork" "t \<in> set (net_objects net)"
  shows "(0 < max_inbox_size (mt_security t) \<longrightarrow> len (mt_inbox t) \<le> max_inbox_size (mt_security t)) \<and>
    (\<forall>(s, m') \<in> set (mt_inbox t). \<exists>m. (s, mt_id t, m) \<in> set (net_sends fr pf evs SimNetwork) \<and>
       isolated fr pf (mt_security t) m = Inr m')"
proof -
  have "net_wf net \<and> accounted fr pf (set (net_sends fr pf evs SimNetwork)) net"
    unfolding assms(1) by (rule run_invariant [OF SimNetwork_wf]) simp
  with assms(2) show ?thesis unfolding net_wf_def accounted_def inbox_ok_def by blast
qed


subsection \<open>Partitions\<close>

definition from_source :: "string \<Rightarrow> memory_transport \<Rightarrow> (string \<times> message) list" where
  "from_source s t = filter (\<lambda>(x, _). x = s) (mt_inbox t)"

text \<open>An event that may lift the block of a link.\<close>

fun heals :: "string \<Rightarrow> string \<Rightarrow> net_event \<Rightarrow> bool" where
  "heals s t (Heal group_a group_b symmetric) = ((s, t) \<in> links group_a group_b symmetric)"
| "heals s t HealAll = True"
| "heals s t _ = False"

lemma arrive_blocked: "net_blocked (fst (arrive fr pf f net)) = net_blocked net"
  by (simp add: arrive_def split: sum.split)

lemma blocked_step: "is_blocked net s t \<Longrightarrow> \<not> heals s t e \<Longrightarrow> is_blocked (net_step fr pf e net) s t"
  by (cases e) (auto simp: net_step_def is_blocked_def net_defs send_message_def route_message_def land_def recv_message_def
      arrive_blocked split: option.split list.split)

lemma changes_isolate:
  assumes "changes fr pf net c objs" "is_blocked net s t" "a < length objs" "mt_id (objs ! a) = t"
  shows "\<exists>k. from_source s (objs ! a) = drop k (if a < length (net_objects net) then from_source s (net_objects net ! a) else [])"
  using assms(1)
proof cases
  case Same
  then show ?thesis using assms(3) by (intro exI [of _ 0]) simp
next
  case (New u)
  then show ?thesis using assms(3) by (intro exI [of _ 0]) (auto simp: from_source_def nth_append less_Suc_eq)
next
  case (Take b x xs)
  then have "from_source s (objs ! a) = drop (if a = b \<and> fst x = s then 1 else 0) (from_source s (net_objects net ! a))"
    using assms(3) by (auto simp: from_source_def nth_list_update case_prod_beta)
  then show ?thesis using Take assms(3) by (intro exI) simp
next
  case (Shut b)
  then show ?thesis using assms(3) by (intro exI [of _ 0]) (auto simp: from_source_def nth_list_update)
next
  case (Put b u s0 m0 m0')
  then have "from_source s (objs ! a) = from_source s (net_objects net ! a)"
    using assms(2-4) by (auto simp: from_source_def nth_list_update)
  then show ?thesis using Put assms(3) by (intro exI [of _ 0]) simp
qed

lemma run_keeps_id:
  "net_wf net \<Longrightarrow> a < length (net_objects net) \<Longrightarrow> mt_id (net_objects (net_run fr pf evs net) ! a) = mt_id (net_objects net ! a)"
proof (induction evs arbitrary: net)
  case (Cons e evs)
  obtain c where c: "changes fr pf net c (net_objects (net_step fr pf e net))"
    using effect_step [OF Cons.prems(1), of fr pf e] unfolding effect_def by blast
  from Cons.IH [OF net_wf_step [OF Cons.prems(1)], of fr pf e] changes_objects [OF c] Cons.prems(2) show ?case
    by (simp add: net_run_def)
qed (simp add: net_run_def)

text \<open>
  C23: a partition isolates. While a link is blocked and no event heals it, nothing from its
  source enters an inbox of its target, not even a message that was already in flight: such an
  inbox only loses messages of that source, from the front, and an inbox created in the
  meantime has none.
\<close>

theorem partition_isolates:
  assumes "net_wf net" "is_blocked net s t" "\<forall>e \<in> set evs. \<not> heals s t e"
    and "net' = net_run fr pf evs net" "a < length (net_objects net')" "mt_id (net_objects net' ! a) = t"
  shows "\<exists>k. from_source s (net_objects net' ! a) =
    drop k (if a < length (net_objects net) then from_source s (net_objects net ! a) else [])"
  using assms
proof (induction evs arbitrary: net)
  case Nil
  then show ?case by (intro exI [of _ 0]) (simp add: net_run_def)
next
  case (Cons e evs)
  let ?n = "net_step fr pf e net"
  have r: "net' = net_run fr pf evs ?n" using Cons.prems(4) by (simp add: net_run_def)
  obtain k where k: "from_source s (net_objects net' ! a) =
      drop k (if a < length (net_objects ?n) then from_source s (net_objects ?n ! a) else [])"
    using Cons.IH [OF net_wf_step [OF Cons.prems(1)] blocked_step [OF Cons.prems(2)] _ r Cons.prems(5,6)] Cons.prems(3) by auto
  obtain c where c: "changes fr pf net c (net_objects ?n)"
    using effect_step [OF Cons.prems(1), of fr pf e] unfolding effect_def by blast
  show ?case
  proof (cases "a < length (net_objects ?n)")
    case True
    then have "mt_id (net_objects ?n ! a) = t"
      using run_keeps_id [OF net_wf_step [OF Cons.prems(1)] True, of fr pf evs] Cons.prems(6) r by simp
    then obtain j where "from_source s (net_objects ?n ! a) =
        drop j (if a < length (net_objects net) then from_source s (net_objects net ! a) else [])"
      using changes_isolate [OF c Cons.prems(2) True] by blast
    then show ?thesis using k True by (intro exI [of _ "k + j"]) simp
  next
    case False
    then have "\<not> a < length (net_objects net)" using changes_objects(1) [OF c] by simp
    then show ?thesis using k False by simp
  qed
qed


subsection \<open>Concrete runs\<close>

definition sample_events :: "net_event list" where
  "sample_events = [Join ''a'' default_security_config, Join ''b'' default_security_config, Send 0 ''b'' sample_message None]"

lemma sample_isolated: "isolated sample_repr sample_parse default_security_config sample_message = Inr sample_message"
proof -
  obtain b where b: "to_bytes sample_repr (max_frame_size default_security_config) sample_message = Inr b"
    using sample_message_bytes by blast
  have "sort_dict (msg_payload sample_message) = msg_payload sample_message" by (simp add: sort_dict_def)
  then have "sample_message\<lparr>msg_payload := sort_dict (msg_payload sample_message)\<rparr> = sample_message" by simp
  then show ?thesis
    using wire_roundtrip [OF b _ _ sample_message_printable(2) sample_message_valid(2)] b
    by (auto simp: isolated_def default_security_config_def)
qed

lemma sample_run:
  "net_objects (net_run sample_repr sample_parse sample_events SimNetwork) =
     [\<lparr>mt_id = ''a'', mt_security = default_security_config, mt_inbox = [], mt_closed = False\<rparr>,
      \<lparr>mt_id = ''b'', mt_security = default_security_config, mt_inbox = [(''a'', sample_message)], mt_closed = False\<rparr>]"
  using sample_isolated
  by (simp add: sample_events_def net_run_def net_step_def net_defs SimNetwork_def send_message_def route_message_def
      is_blocked_def arrive_def deliver_packet_def queue_full_def)

theorem network_integrity_witness:
  "\<exists>t m. t \<in> set (net_objects (net_run sample_repr sample_parse sample_events SimNetwork)) \<and>
     mt_inbox t = [(''a'', sample_message)] \<and>
     (''a'', mt_id t, m) \<in> set (net_sends sample_repr sample_parse sample_events SimNetwork) \<and>
     isolated sample_repr sample_parse (mt_security t) m = Inr sample_message"
proof -
  let ?t = "\<lparr>mt_id = ''b'', mt_security = default_security_config, mt_inbox = [(''a'', sample_message)], mt_closed = False\<rparr>"
  have t: "?t \<in> set (net_objects (net_run sample_repr sample_parse sample_events SimNetwork))" by (simp add: sample_run)
  from network_integrity [OF refl t] t show ?thesis by (intro exI [of _ ?t]) auto
qed

theorem partition_isolates_witness:
  "\<exists>net. net = net_run sample_repr sample_parse (sample_events @ [Partition {''a''} {''b''} True]) SimNetwork \<and>
     (\<exists>k. from_source ''a'' (net_objects (net_run sample_repr sample_parse [Send 0 ''b'' sample_message None] net) ! 1) =
        drop k [(''a'', sample_message)])"
proof -
  let ?net = "net_run sample_repr sample_parse (sample_events @ [Partition {''a''} {''b''} True]) SimNetwork"
  let ?net' = "net_run sample_repr sample_parse [Send 0 ''b'' sample_message None] ?net"
  have o: "net_objects ?net = net_objects (net_run sample_repr sample_parse sample_events SimNetwork)"
    by (simp add: net_run_def net_step_def net_defs)
  have w: "net_wf ?net" using run_invariant [OF SimNetwork_wf, of _ _ _ UNIV] by blast
  have b: "is_blocked ?net ''a'' ''b''" by (simp add: net_run_def net_step_def net_defs is_blocked_def links_def)
  then have e: "net_objects ?net' = net_objects ?net"
    by (simp add: net_run_def [of _ _ "[Send 0 ''b'' sample_message None]"] net_step_def send_message_def route_message_def o sample_run)
  have "\<exists>k. from_source ''a'' (net_objects ?net' ! 1) =
      drop k (if 1 < length (net_objects ?net) then from_source ''a'' (net_objects ?net ! 1) else [])"
    using e by (intro partition_isolates [OF w b _ refl]) (simp_all add: o sample_run)
  then show ?thesis by (simp add: o sample_run from_source_def)
qed

end
