(* ===== verification/Py_Text.thy ===== *)
theory Py_Text
  imports Security
begin

section \<open>Python text\<close>

text \<open>
  What the HTTP server, the exporter and the command line use of Python's \<^verbatim>\<open>str\<close>: splitting and
  stripping, \<^verbatim>\<open>int\<close> of a text, and UTF-8. Text that arrives from a network client can hold any
  code point, so it is a list of code points here (\<open>unicode\<close>); the identifiers of the other
  theories are \<open>string\<close>s and become text by \<open>points\<close>. The tables of white space and decimal digits
  are those of Unicode 14, the version of Python 3.11.
\<close>

type_synonym unicode = "nat list"

definition points :: "string \<Rightarrow> unicode" where
  "points s = map of_char s"

subsection \<open>Splitting and stripping\<close>

definition uspace :: "nat \<Rightarrow> bool" where
  "uspace c \<longleftrightarrow> 9 \<le> c \<and> c \<le> 13 \<or> 28 \<le> c \<and> c \<le> 32 \<or>
     c \<in> {0x85, 0xA0, 0x1680, 0x2028, 0x2029, 0x202F, 0x205F, 0x3000} \<or> 0x2000 \<le> c \<and> c \<le> 0x200A"

text \<open>\<^verbatim>\<open>s.strip()\<close> and \<^verbatim>\<open>s.split()\<close>, for a given notion of white space.\<close>

definition strip :: "('a \<Rightarrow> bool) \<Rightarrow> 'a list \<Rightarrow> 'a list" where
  "strip sp s = rev (dropWhile sp (rev (dropWhile sp s)))"

fun split_words :: "('a \<Rightarrow> bool) \<Rightarrow> 'a list \<Rightarrow> 'a list \<Rightarrow> 'a list list" where
  "split_words sp w [] = (if w = [] then [] else [rev w])"
| "split_words sp w (c # s) =
     (if sp c then (if w = [] then split_words sp [] s else rev w # split_words sp [] s)
      else split_words sp (c # w) s)"

text \<open>\<^verbatim>\<open>s.split(sep)\<close> and, for a text with the separator, \<^verbatim>\<open>s.split(sep, 1)\<close>.\<close>

fun split_on :: "'a \<Rightarrow> 'a list \<Rightarrow> 'a list list" where
  "split_on x [] = [[]]"
| "split_on x (c # s) =
     (if c = x then [] # split_on x s
      else (case split_on x s of [] \<Rightarrow> [[c]] | w # ws \<Rightarrow> (c # w) # ws))"

fun split_once :: "'a \<Rightarrow> 'a list \<Rightarrow> ('a list \<times> 'a list) option" where
  "split_once x [] = None"
| "split_once x (c # s) =
     (if c = x then Some ([], s) else map_option (\<lambda>(l, r). (c # l, r)) (split_once x s))"

text \<open>
  \<^verbatim>\<open>s.lower()\<close>. Beside the ASCII letters two code points have a lower case with an ASCII letter.
  The lower case of any other letter has no ASCII letter in it, and since the code looks up and
  compares ASCII names only, such letters can stay as they are.
\<close>

definition lower_point :: "nat \<Rightarrow> unicode" where
  "lower_point c =
     (if 65 \<le> c \<and> c \<le> 90 then [c + 32]
      else if c = 0x130 then [105, 0x307]
      else if c = 0x212A then [107]
      else [c])"

definition lower :: "unicode \<Rightarrow> unicode" where
  "lower s = concat (map lower_point s)"

lemma split_once_append [simp]: "x \<notin> set l \<Longrightarrow> split_once x (l @ x # r) = Some (l, r)"
  by (induction l) auto

lemma split_once_SomeD: "split_once x s = Some (l, r) \<Longrightarrow> s = l @ x # r \<and> x \<notin> set l"
proof (induction s arbitrary: l)
  case (Cons c s)
  show ?case
  proof (cases "c = x")
    case False
    with Cons.prems obtain l' where "split_once x s = Some (l', r)" "l = c # l'" by auto
    with Cons.IH [of l'] False show ?thesis by auto
  qed (use Cons.prems in simp)
qed simp

lemma split_once_Some: "split_once x s = Some (l, r) \<longleftrightarrow> s = l @ x # r \<and> x \<notin> set l"
  using split_once_SomeD [of x s l r] split_once_append [of x l r] by blast

lemma split_once_None: "split_once x s = None \<longleftrightarrow> x \<notin> set s"
  by (induction s) auto

lemma split_on_absent: "x \<notin> set s \<Longrightarrow> split_on x s = [s]"
  by (induction s) auto

lemma split_on_append [simp]: "x \<notin> set l \<Longrightarrow> split_on x (l @ x # r) = l # split_on x r"
  by (induction l) auto

lemma split_words_append:
  "list_all (\<lambda>c. \<not> sp c) w \<Longrightarrow> split_words sp v (w @ s) = split_words sp (rev w @ v) s"
  by (induction w arbitrary: v) auto

lemma dropWhile_pad: "list_all sp a \<Longrightarrow> s = [] \<or> \<not> sp (hd s) \<Longrightarrow> dropWhile sp (a @ s) = s"
  by (induction a) (cases s; simp)+

lemma strip_pad:
  assumes "list_all sp a" "list_all sp b" "s \<noteq> []" "\<not> sp (hd s)" "\<not> sp (last s)"
  shows "strip sp (a @ s @ b) = s"
proof -
  have "dropWhile sp (a @ s @ b) = s @ b" using assms by (intro dropWhile_pad) auto
  moreover have "dropWhile sp (rev b @ rev s) = rev s"
    using assms by (intro dropWhile_pad) (auto simp: list_all_iff hd_rev)
  ultimately show ?thesis by (simp add: strip_def)
qed

lemma strip_id: "s \<noteq> [] \<Longrightarrow> \<not> sp (hd s) \<Longrightarrow> \<not> sp (last s) \<Longrightarrow> strip sp s = s"
  using strip_pad [of sp "[]" "[]" s] by simp

lemma strip_Nil: "strip sp s = [] \<longleftrightarrow> list_all sp s"
proof (cases "dropWhile sp s")
  case Nil
  have "list_all sp s" unfolding list_all_iff using Nil by (simp only: dropWhile_eq_Nil_conv)
  then show ?thesis unfolding strip_def Nil by simp
next
  case (Cons c t)
  then have "\<not> sp c" by (metis hd_dropWhile list.distinct(1) list.sel(1))
  then have "strip sp s \<noteq> []" by (simp add: strip_def Cons dropWhile_eq_Nil_conv)
  moreover have "c \<in> set s" using Cons by (metis list.set_intros(1) set_dropWhileD)
  ultimately show ?thesis using \<open>\<not> sp c\<close> by (auto simp: list_all_iff)
qed

lemma strip_infix: "\<exists>a b. s = a @ strip sp s @ b"
proof -
  obtain a where a: "s = a @ dropWhile sp s" by (metis takeWhile_dropWhile_id)
  obtain b where "rev (dropWhile sp s) = b @ dropWhile sp (rev (dropWhile sp s))"
    by (metis takeWhile_dropWhile_id)
  then have "dropWhile sp s = strip sp s @ rev b" unfolding strip_def by (metis rev_append rev_rev_ident)
  with a show ?thesis by (metis)
qed

subsection \<open>Integers\<close>

definition nd_starts :: "nat list" where
  "nd_starts =
     [0x30, 0x660, 0x6F0, 0x7C0, 0x966, 0x9E6, 0xA66, 0xAE6, 0xB66, 0xBE6, 0xC66, 0xCE6, 0xD66,
      0xDE6, 0xE50, 0xED0, 0xF20, 0x1040, 0x1090, 0x17E0, 0x1810, 0x1946, 0x19D0, 0x1A80,
      0x1A90, 0x1B50, 0x1BB0, 0x1C40, 0x1C50, 0xA620, 0xA8D0, 0xA900, 0xA9D0, 0xA9F0, 0xAA50,
      0xABF0, 0xFF10, 0x104A0, 0x10D30, 0x11066, 0x110F0, 0x11136, 0x111D0, 0x112F0, 0x11450,
      0x114D0, 0x11650, 0x116C0, 0x11730, 0x118E0, 0x11950, 0x11C50, 0x11D50, 0x11DA0, 0x16A60,
      0x16AC0, 0x16B50, 0x1D7CE, 0x1D7D8, 0x1D7E2, 0x1D7EC, 0x1D7F6, 0x1E140, 0x1E2F0, 0x1E950,
      0x1FBF0]"

definition decimal :: "nat \<Rightarrow> nat option" where
  "decimal c =
     (if c < 128 then (if 48 \<le> c \<and> c \<le> 57 then Some (c - 48) else None)
      else map_option (\<lambda>z. c - z) (find (\<lambda>z. z \<le> c \<and> c \<le> z + 9) nd_starts))"

text \<open>\<^verbatim>\<open>int\<close> skips the control characters 28 to 31 only when they are not ASCII, that is, never.\<close>

definition int_space :: "nat \<Rightarrow> bool" where
  "int_space c \<longleftrightarrow> (if c < 128 then 9 \<le> c \<and> c \<le> 13 \<or> c = 32 else uspace c)"

definition digits_value :: "nat list \<Rightarrow> nat" where
  "digits_value ds = foldl (\<lambda>a d. 10 * a + d) 0 ds"

text \<open>Digits with single underscores between them, at most as many as the interpreter converts.\<close>

definition unsigned_of :: "unicode \<Rightarrow> nat result" where
  "unsigned_of s =
     (let parts = split_on 95 s; ds = map decimal (concat parts)
      in if [] \<in> set parts \<or> None \<in> set ds \<or> max_str_digits < length ds then Inl ValueError
         else Inr (digits_value (map the ds)))"

definition int_of_text :: "unicode \<Rightarrow> int result" where
  "int_of_text s =
     (case strip int_space s of
        [] \<Rightarrow> Inl ValueError
      | c # r \<Rightarrow>
          if c = 45 then rbind (unsigned_of r) (\<lambda>n. Inr (- int n))
          else if c = 43 then rbind (unsigned_of r) (\<lambda>n. Inr (int n))
          else rbind (unsigned_of (c # r)) (\<lambda>n. Inr (int n)))"

subsection \<open>UTF-8\<close>

definition utf8_point :: "nat \<Rightarrow> bytes" where
  "utf8_point c = map word_of_nat
     (if c < 0x80 then [c]
      else if c < 0x800 then [0xC0 + c div 64, 0x80 + c mod 64]
      else if c < 0x10000 then [0xE0 + c div 4096, 0x80 + c div 64 mod 64, 0x80 + c mod 64]
      else [0xF0 + c div 262144, 0x80 + c div 4096 mod 64, 0x80 + c div 64 mod 64, 0x80 + c mod 64])"

definition utf8_text :: "unicode \<Rightarrow> bytes" where
  "utf8_text s = concat (map utf8_point s)"

text \<open>
  \<^verbatim>\<open>decode("utf-8", errors="replace")\<close>: the number of continuation bytes a first byte asks for,
  the range of the second byte, and one replacement character for each longest piece that
  starts like a character and is none.
\<close>

definition lead :: "nat \<Rightarrow> nat \<times> nat \<times> nat" where
  "lead b =
     (if 0xC2 \<le> b \<and> b \<le> 0xDF then (1, 0x80, 0xBF)
      else if b = 0xE0 then (2, 0xA0, 0xBF)
      else if b = 0xED then (2, 0x80, 0x9F)
      else if 0xE1 \<le> b \<and> b \<le> 0xEF then (2, 0x80, 0xBF)
      else if b = 0xF0 then (3, 0x90, 0xBF)
      else if 0xF1 \<le> b \<and> b \<le> 0xF3 then (3, 0x80, 0xBF)
      else if b = 0xF4 then (3, 0x80, 0x8F)
      else (0, 0, 0))"

fun continuation :: "nat \<Rightarrow> nat \<Rightarrow> nat \<Rightarrow> bytes \<Rightarrow> nat list" where
  "continuation (Suc k) lo hi (b # r) =
     (if lo \<le> unat b \<and> unat b \<le> hi then unat b # continuation k 0x80 0xBF r else [])"
| "continuation _ lo hi r = []"

definition lead_bits :: "nat \<Rightarrow> nat \<Rightarrow> nat" where
  "lead_bits need b = b mod 2 ^ (6 - need)"

fun utf8_replace :: "bytes \<Rightarrow> unicode" where
  "utf8_replace [] = []"
| "utf8_replace (b # r) =
     (let n = unat b; (need, lo, hi) = lead n; cs = continuation need lo hi r
      in if n < 0x80 then n # utf8_replace r
         else if need = 0 then 0xFFFD # utf8_replace r
         else if length cs = need
         then foldl (\<lambda>a c. 64 * a + (c - 0x80)) (lead_bits need n) cs # utf8_replace (drop need r)
         else 0xFFFD # utf8_replace (drop (length cs) r))"

declare utf8_replace.simps(2) [simp del]

lemma utf8_replace_ascii: "unat b < 0x80 \<Longrightarrow> utf8_replace (b # r) = unat b # utf8_replace r"
  by (cases "lead (unat b)") (simp add: utf8_replace.simps(2))

lemma utf8_replace_ascii_append:
  "list_all (\<lambda>b. unat b < 0x80) s \<Longrightarrow> utf8_replace (s @ r) = map unat s @ utf8_replace r"
  by (induction s) (simp_all add: utf8_replace_ascii)

lemma continuation_length: "length (continuation k lo hi r) \<le> length r"
  by (induction k lo hi r rule: continuation.induct) simp_all

lemma continuation_head:
  "continuation k lo hi r = c # cs \<Longrightarrow> lo \<le> c \<and> c \<le> hi"
  by (cases "(k, lo, hi, r)" rule: continuation.cases) (auto split: if_splits)

text \<open>A character of several bytes is not ASCII.\<close>

lemma foldl_points_mono: "a \<le> foldl (\<lambda>a c. 64 * a + (c - 0x80)) a cs" for a :: nat
proof (induction cs arbitrary: a)
  case (Cons c cs)
  have "a \<le> 64 * a + (c - 0x80)" by simp
  also have "\<dots> \<le> foldl (\<lambda>a c. 64 * a + (c - 0x80)) (64 * a + (c - 0x80)) cs" by (rule Cons)
  finally show ?case by simp
qed simp

lemma decoded_not_ascii:
  assumes "lead n = (need, lo, hi)" "need \<noteq> 0" "length (continuation need lo hi r) = need"
  shows "0x80 \<le> foldl (\<lambda>a c. 64 * a + (c - 0x80)) (lead_bits need n) (continuation need lo hi r)"
proof -
  obtain c cs where c: "continuation need lo hi r = c # cs" "length cs = need - 1"
    using assms(2,3) by (cases "continuation need lo hi r") auto
  note h = continuation_head [OF c(1)]
  let ?a = "64 * lead_bits need n + (c - 0x80)"
  have b: "need = 1 \<and> 2 \<le> lead_bits need n \<or> 1 < need \<and> 2 \<le> ?a"
  proof (cases "need = 1")
    case True
    with assms(1) have "0xC2 \<le> n" "n \<le> 0xDF" by (auto simp: lead_def split: if_splits)
    then have "2 \<le> n mod 32" by presburger
    with True show ?thesis by (simp add: lead_bits_def)
  next
    case False
    then consider "need = 2" "n = 0xE0" "lo = 0xA0" | "need = 2" "0xE1 \<le> n" "n \<le> 0xEF"
      | "need = 3" "n = 0xF0" "lo = 0x90" | "need = 3" "0xF1 \<le> n" "n \<le> 0xF4"
      using assms(1,2) by (auto simp: lead_def split: if_splits)
    then show ?thesis
    proof cases
      case 2
      then have "1 \<le> n mod 16" by presburger
      with 2 show ?thesis by (simp add: lead_bits_def)
    next
      case 4
      then have "1 \<le> n mod 8" by presburger
      with 4 show ?thesis by (simp add: lead_bits_def)
    qed (use h in \<open>auto simp: lead_bits_def\<close>)
  qed
  show ?thesis
  proof (cases cs)
    case Nil
    with b c have "2 \<le> lead_bits need n" by auto
    with c Nil show ?thesis by simp
  next
    case (Cons d ds)
    with b c have "2 \<le> ?a" by auto
    then have "0x80 \<le> 64 * ?a + (d - 0x80)" by simp
    also have "\<dots> \<le> foldl (\<lambda>a c. 64 * a + (c - 0x80)) (64 * ?a + (d - 0x80)) ds" by (rule foldl_points_mono)
    finally show ?thesis using c Cons by simp
  qed
qed

text \<open>Every step yields one code point; an ASCII code point is a byte of its own.\<close>

lemma utf8_replace_step:
  "\<exists>c k. utf8_replace (b # r) = c # utf8_replace (drop k r) \<and> (c < 0x80 \<longrightarrow> c = unat b \<and> k = 0)"
proof -
  obtain need lo hi where l: "lead (unat b) = (need, lo, hi)" by (cases "lead (unat b)")
  let ?cs = "continuation need lo hi r"
  consider (ascii) "unat b < 0x80" | (no) "\<not> unat b < 0x80" "need = 0"
    | (full) "\<not> unat b < 0x80" "need \<noteq> 0" "length ?cs = need"
    | (cut) "\<not> unat b < 0x80" "need \<noteq> 0" "length ?cs \<noteq> need" by blast
  then show ?thesis
  proof cases
    case ascii
    then show ?thesis by - (rule exI [of _ "unat b"], rule exI [of _ "0::nat"], simp add: utf8_replace_ascii)
  next
    case no
    then show ?thesis
      by - (rule exI [of _ "0xFFFD::nat"], rule exI [of _ "0::nat"], simp add: utf8_replace.simps(2) l)
  next
    case full
    with decoded_not_ascii [OF l full(2,3)] show ?thesis
      by - (rule exI [of _ "foldl (\<lambda>a c. 64 * a + (c - 0x80)) (lead_bits need (unat b)) ?cs"],
            rule exI [of _ need], simp add: utf8_replace.simps(2) l)
  next
    case cut
    then show ?thesis
      by - (rule exI [of _ "0xFFFD::nat"], rule exI [of _ "length ?cs"], simp add: utf8_replace.simps(2) l)
  qed
qed

text \<open>An ASCII text that occurs in the decoded text occurs in the bytes.\<close>

lemma utf8_replace_prefix:
  "utf8_replace bs = a @ y \<Longrightarrow> list_all (\<lambda>c. c < 0x80) a \<Longrightarrow> \<exists>q. bs = map word_of_nat a @ q"
proof (induction a arbitrary: bs)
  case (Cons c a)
  then obtain b r where bs: "bs = b # r" by (cases bs) auto
  obtain k where "c = unat b" "utf8_replace r = a @ y"
    using utf8_replace_step [of b r] Cons.prems bs by auto
  moreover from this(2) obtain q where "r = map word_of_nat a @ q" using Cons by auto
  ultimately show ?case using bs by simp
qed simp

lemma utf8_replace_infix:
  assumes "utf8_replace bs = x @ a @ y" "list_all (\<lambda>c. c < 0x80) a"
  shows "\<exists>p q. bs = p @ map word_of_nat a @ q"
  using assms(1)
proof (induction x arbitrary: bs)
  case Nil
  then show ?case using utf8_replace_prefix [OF _ assms(2), of bs y] by (metis append_Nil)
next
  case (Cons c x)
  then obtain b r where bs: "bs = b # r" by (cases bs) auto
  obtain d k where "utf8_replace (b # r) = d # utf8_replace (drop k r)" using utf8_replace_step by blast
  with Cons.prems bs have "utf8_replace (drop k r) = x @ a @ y" by simp
  then obtain p q where "drop k r = p @ map word_of_nat a @ q" using Cons.IH by blast
  then have "bs = (b # take k r @ p) @ map word_of_nat a @ q"
    using bs by (metis append.assoc append_Cons append_take_drop_id)
  then show ?case by blast
qed

end
