(* ===== verification/Ip_Address.thy ===== *)
theory Ip_Address
  imports Py_Text
begin

section \<open>Loopback addresses\<close>

text \<open>
  \<^verbatim>\<open>ipaddress.ip_address(host).is_loopback\<close>, on which the HTTP server and the command line decide
  whether a status page may be served without a token: the parsers of the standard library for
  dotted decimal IPv4 and for IPv6 addresses with omission, embedded IPv4 suffix and scope. As in
  Python 3.11 and 3.12, the only IPv6 loopback address is the number one.
\<close>

subsection \<open>IPv4\<close>

text \<open>\<^verbatim>\<open>_parse_octet\<close>\<close>

definition parse_octet :: "string \<Rightarrow> nat option" where
  "parse_octet s =
     (if s = [] \<or> \<not> list_all is_digit s \<or> 3 < length s \<or> (s \<noteq> ''0'' \<and> hd s = CHR ''0'') then None
      else if 255 < read_nat s then None
      else Some (read_nat s))"

definition ipv4_int :: "string \<Rightarrow> nat option" where
  "ipv4_int s =
     (if CHR 0x2F \<in> set s then None
      else case map parse_octet (split_on (CHR ''.'') s) of
             [Some a, Some b, Some c, Some d] \<Rightarrow> Some (((a * 256 + b) * 256 + c) * 256 + d)
           | _ \<Rightarrow> None)"

subsection \<open>IPv6\<close>

definition parse_hextet :: "string \<Rightarrow> nat option" where
  "parse_hextet s =
     (if s = [] \<or> 4 < length s \<or> None \<in> set (map unhex s) then None
      else Some (foldl (\<lambda>a c. 16 * a + the (unhex c)) 0 s))"

text \<open>\<^verbatim>\<open>'%x'\<close> of a number\<close>

fun hex_nat :: "nat \<Rightarrow> string" where
  "hex_nat n = (if n < 16 then [hex_digit n] else hex_nat (n div 16) @ [hex_digit (n mod 16)])"

declare hex_nat.simps [simp del]

text \<open>The parts between the colons, with an IPv4 suffix turned into two of them.\<close>

definition ipv6_parts :: "string \<Rightarrow> string list option" where
  "ipv6_parts s =
     (let parts = split_on (CHR '':'') s
      in if s = [] \<or> length parts < 3 then None
         else if CHR ''.'' \<in> set (last parts)
         then map_option (\<lambda>i. butlast parts @ [hex_nat (i div 65536 mod 65536), hex_nat (i mod 65536)])
                (ipv4_int (last parts))
         else Some parts)"

text \<open>The empty parts between the two ends: at most one, where a run of zeros is left out.\<close>

definition empty_inner :: "string list \<Rightarrow> nat list" where
  "empty_inner parts = filter (\<lambda>i. parts ! i = []) [1..<length parts - 1]"

definition hextets :: "string list \<Rightarrow> nat list option" where
  "hextets ps =
     (let hs = map parse_hextet ps in if None \<in> set hs then None else Some (map the hs))"

definition join16 :: "nat list \<Rightarrow> nat" where
  "join16 hs = foldl (\<lambda>a h. a * 65536 + h) 0 hs"

definition ipv6_of_parts :: "string list \<Rightarrow> nat option" where
  "ipv6_of_parts parts =
     (case empty_inner parts of
        [] \<Rightarrow>
          if length parts \<noteq> 8 \<or> hd parts = [] \<or> last parts = [] then None
          else map_option join16 (hextets parts)
      | [skip] \<Rightarrow>
          let hi = (if hd parts = [] then skip - 1 else skip);
              lo = (if last parts = [] then length parts - skip - 2 else length parts - skip - 1)
          in if hd parts = [] \<and> hi \<noteq> 0 \<or> last parts = [] \<and> lo \<noteq> 0 \<or> 8 < hi + lo + 1 then None
             else (case (hextets (take hi parts), hextets (drop (length parts - lo) parts)) of
                     (Some a, Some b) \<Rightarrow> Some (join16 (a @ replicate (8 - (hi + lo)) 0 @ b))
                   | _ \<Rightarrow> None)
      | _ \<Rightarrow> None)"

definition ipv6_int :: "string \<Rightarrow> nat option" where
  "ipv6_int host =
     (let addr = takeWhile (\<lambda>c. c \<noteq> CHR 0x25) host; scope = drop (length addr) host
      in if CHR 0x2F \<in> set host \<or> (scope \<noteq> [] \<and> (tl scope = [] \<or> CHR 0x25 \<in> set (tl scope))) then None
         else case ipv6_parts addr of
                None \<Rightarrow> None
              | Some parts \<Rightarrow> if 9 < length parts then None else ipv6_of_parts parts)"

subsection \<open>Loopback\<close>

definition is_loopback_host :: "string \<Rightarrow> bool" where
  "is_loopback_host host \<longleftrightarrow>
     lower (points host) = points ''localhost'' \<or>
     (case ipv4_int host of
        Some i \<Rightarrow> i div 2 ^ 24 = 127
      | None \<Rightarrow> ipv6_int host = Some 1)"

subsection \<open>Dotted decimal addresses\<close>

definition dotted :: "nat \<Rightarrow> nat \<Rightarrow> nat \<Rightarrow> nat \<Rightarrow> string" where
  "dotted a b c d = dec_nat a @ ''.'' @ dec_nat b @ ''.'' @ dec_nat c @ ''.'' @ dec_nat d"

lemma parse_octet_dec_nat:
  assumes "n < 256"
  shows "parse_octet (dec_nat n) = Some n"
proof -
  have "list_all is_digit (dec_nat n)" using dec_nat_digits by (simp add: list_all_iff)
  moreover have "length (dec_nat n) \<le> 3"
  proof -
    have one: "length (dec_nat k) \<le> (if k < 10 then 1 else Suc (length (dec_nat (k div 10))))" for k
      by (subst dec_nat.simps) simp
    have "n div (10 * 10) < 10" using assms by (intro less_mult_imp_div_less) simp
    then have "n div 10 div 10 < 10" by (simp only: div_mult2_eq)
    with one [of n] one [of "n div 10"] one [of "n div 10 div 10"] show ?thesis by (simp split: if_splits)
  qed
  moreover have "hd (dec_nat n) \<noteq> CHR ''0'' \<or> dec_nat n = ''0''"
    using dec_nat_zero [of n] by (auto simp: dec_nat.simps [of 0] digit_char_def)
  ultimately show ?thesis using assms by (auto simp: parse_octet_def)
qed

lemma not_in_digits: "\<not> is_digit c \<Longrightarrow> c \<notin> set (dec_nat n)"
  using dec_nat_digits by blast

lemma ipv4_int_dotted:
  assumes "a < 256" "b < 256" "c < 256" "d < 256"
  shows "ipv4_int (dotted a b c d) = Some (((a * 256 + b) * 256 + c) * 256 + d)"
proof -
  have n: "CHR ''.'' \<notin> set (dec_nat n)" "CHR 0x2F \<notin> set (dec_nat n)" for n
    by (intro not_in_digits; simp add: is_digit_def)+
  have "split_on (CHR ''.'') (dotted a b c d) = [dec_nat a, dec_nat b, dec_nat c, dec_nat d]"
    by (simp add: dotted_def n split_on_absent)
  moreover have "CHR 0x2F \<notin> set (dotted a b c d)" by (simp add: dotted_def n)
  ultimately show ?thesis using assms by (simp add: ipv4_int_def parse_octet_dec_nat)
qed

lemma loopback_dotted:
  assumes "a < 256" "b < 256" "c < 256" "d < 256"
  shows "is_loopback_host (dotted a b c d) \<longleftrightarrow> a = 127"
proof -
  have "46 \<in> set (lower (points (dotted a b c d)))"
    by (simp add: lower_def points_def dotted_def lower_point_def)
  then have "lower (points (dotted a b c d)) \<noteq> points ''localhost''"
    by (auto simp: points_def)
  moreover have "(((a * 256 + b) * 256 + c) * 256 + d) div 2 ^ 24 = a" using assms by simp
  ultimately show ?thesis by (simp add: is_loopback_host_def ipv4_int_dotted [OF assms])
qed

end
