(* ===== verification/Http_Server.thy ===== *)
theory Http_Server
  imports Ip_Address
begin

section \<open>The HTTP server (transport.py)\<close>

text \<open>
  \<^verbatim>\<open>HttpServer\<close>: the reader of requests with its limits and time-outs, the check of the bearer
  token, and the responses. A client is the bytes that arrive before it closes the connection,
  stalls until the time-out, or resets the connection; what happens to the bytes written is
  decided by the outcomes of \<^verbatim>\<open>drain\<close>, which are arguments. The routine that produces the pages is
  the field \<open>hs_handler\<close>. What the operating system answers to the binding of the socket is an
  argument of \<open>http_start\<close>.
\<close>

type_synonym response = "int \<times> string \<times> bytes"

record http_server =
  hs_host :: string
  hs_port :: int
  hs_handler :: "unicode \<Rightarrow> unicode \<Rightarrow> response result"
  hs_security :: security_config
  hs_token :: "string option"
  hs_listening :: bool
  hs_closed :: bool

definition HttpServer ::
  "string \<Rightarrow> int \<Rightarrow> (unicode \<Rightarrow> unicode \<Rightarrow> response result) \<Rightarrow> security_config \<Rightarrow> string option \<Rightarrow> http_server result" where
  "HttpServer host port handler security token =
     (if \<not> is_loopback_host host \<and> (token = None \<or> token = Some []) then Inl ValueError
      else if token \<noteq> None \<and> len (the token) < 32 then Inl ValueError
      else Inr \<lparr>hs_host = host, hs_port = port, hs_handler = handler, hs_security = security, hs_token = token,
                hs_listening = False, hs_closed = False\<rparr>)"

text \<open>\<open>bound\<close> is the exception of \<^verbatim>\<open>asyncio.start_server\<close>, or the port of the first socket, if it has one.\<close>

definition http_start :: "int option result \<Rightarrow> http_server \<Rightarrow> http_server result" where
  "http_start bound srv =
     rbind bound (\<lambda>p.
       Inr (srv\<lparr>hs_listening := True, hs_port := (case p of None \<Rightarrow> hs_port srv | Some q \<Rightarrow> q)\<rparr>))"

definition http_stop :: "http_server \<Rightarrow> http_server" where
  "http_stop srv = srv\<lparr>hs_closed := True, hs_listening := False\<rparr>"

subsection \<open>Reading\<close>

datatype ending = Closed | Stalled | Broken

fun ending_error :: "ending \<Rightarrow> py_error" where
  "ending_error Closed = IncompleteReadError"
| "ending_error Stalled = TimeoutError"
| "ending_error Broken = OSError"

text \<open>
  \<^verbatim>\<open>wait_for(reader.readline(), timeout)\<close> of a stream reader with the limit of the server: a line
  with its newline, or what is left when the client has closed.
\<close>

definition readline :: "int \<Rightarrow> ending \<Rightarrow> bytes \<Rightarrow> (bytes \<times> bytes) result" where
  "readline limit en s =
     (case split_once 10 s of
        Some (l, r) \<Rightarrow> if len l > limit then Inl ValueError else Inr (l @ [10], r)
      | None \<Rightarrow>
          if len s > limit then Inl ValueError
          else if en = Closed then Inr (s, [])
          else Inl (ending_error en))"

definition readexactly :: "int \<Rightarrow> ending \<Rightarrow> bytes \<Rightarrow> bytes result" where
  "readexactly n en s = (if n \<le> len s then Inr (take (nat n) s) else Inl (ending_error en))"

definition plain :: string where
  "plain = ''text/plain; charset=utf-8''"

text \<open>A fixed answer with a line of text as its body.\<close>

definition line_body :: "string \<Rightarrow> bytes" where
  "line_body s = utf8_encode (s @ [CHR 0x0A])"

definition bad_request :: response where
  "bad_request = (400, plain, line_body ''Bad Request'')"

definition too_large :: response where
  "too_large = (431, plain, line_body ''Request Header Fields Too Large'')"

type_synonym headers = "(unicode, unicode) dict"

lemma readline_shrinks:
  "readline limit en s = Inr (l, r) \<Longrightarrow> s = l @ r \<and> (l \<noteq> [] \<longrightarrow> length r < length s)"
  by (auto simp: readline_def split_once_Some split: option.splits if_splits)

function read_headers ::
  "int \<Rightarrow> ending \<Rightarrow> bytes \<Rightarrow> int \<Rightarrow> headers \<Rightarrow> (response + headers \<times> bytes) result" where
  "read_headers mx en s header_bytes hs =
     (case readline mx en s of
        Inl e \<Rightarrow> Inl e
      | Inr (hdr, r) \<Rightarrow>
          if header_bytes + len hdr > mx then Inr (Inl too_large)
          else if hdr = [] \<or> hdr = [13, 10] \<or> hdr = [10] then Inr (Inr (hs, r))
          else if 58 \<notin> set hdr then Inr (Inl bad_request)
          else
            (case split_once 58 (utf8_replace hdr) of
               None \<Rightarrow> Inl ValueError
             | Some (key, val) \<Rightarrow>
                 read_headers mx en r (header_bytes + len hdr)
                   (AList.update (lower (strip uspace key)) (strip uspace val) hs)))"
  by pat_completeness auto
termination
  by (relation "measure (\<lambda>(mx, en, s, n, hs). length s)") (auto dest: readline_shrinks)

declare read_headers.simps [simp del]

subsection \<open>Answering\<close>

text \<open>\<^verbatim>\<open>hmac.compare_digest\<close> refuses texts that are not ASCII.\<close>

definition compare_digest :: "unicode \<Rightarrow> unicode \<Rightarrow> bool result" where
  "compare_digest a b =
     (if list_all (\<lambda>c. c < 128) a \<and> list_all (\<lambda>c. c < 128) b then Inr (a = b) else Inl TypeError)"

definition bearer_ok :: "http_server \<Rightarrow> headers \<Rightarrow> bool result" where
  "bearer_ok srv hs =
     (case hs_token srv of
        None \<Rightarrow> Inr True
      | Some t \<Rightarrow> compare_digest (get_default hs (points ''authorization'') []) (points (''Bearer '' @ t)))"

definition body_length :: "headers \<Rightarrow> int" where
  "body_length hs =
     (case int_of_text (get_default hs (points ''content-length'') (points ''0'')) of
        Inl _ \<Rightarrow> -1
      | Inr n \<Rightarrow> n)"

definition answer ::
  "http_server \<Rightarrow> ending \<Rightarrow> unicode \<Rightarrow> unicode \<Rightarrow> headers \<Rightarrow> bytes \<Rightarrow> response result" where
  "answer srv en meth path hs rest =
     (let n = body_length hs; mx = max_http_body (hs_security srv)
      in rbind (bearer_ok srv hs) (\<lambda>ok.
         rbind
           (if \<not> ok then Inr (401, plain, line_body ''Unauthorized'')
            else if n < 0 then Inr (400, plain, line_body ''Invalid Content-Length'')
            else if n > mx then Inr (413, plain, line_body ''Request body too large'')
            else if n \<noteq> 0
            then rbind (readexactly n en rest) (\<lambda>_. Inr (400, plain, line_body ''Request body is not accepted''))
            else hs_handler srv meth path)
           (\<lambda>(status, ctype, body).
              Inr (if status = 200 \<and> len body > mx
                   then (500, plain, line_body ''Response too large'') else (status, ctype, body)))))"

text \<open>The method and the path of a request line of three words.\<close>

definition request_line :: "bytes \<Rightarrow> (unicode \<times> unicode) option" where
  "request_line line =
     (case split_words uspace [] (strip uspace (utf8_replace line)) of
        [meth, path, version] \<Rightarrow> if 2048 < length path then None else Some (meth, path)
      | _ \<Rightarrow> None)"

text \<open>The body of the \<^verbatim>\<open>try\<close> block up to the response: none if the client sent nothing.\<close>

definition request_reply :: "http_server \<Rightarrow> ending \<Rightarrow> bytes \<Rightarrow> response option result" where
  "request_reply srv en s =
     rbind (readline (max_http_headers (hs_security srv)) en s) (\<lambda>(line, r).
       if line = [] then Inr None
       else if len line > max_http_headers (hs_security srv) then Inr (Some too_large)
       else
         (case request_line line of
            None \<Rightarrow> Inr (Some bad_request)
          | Some (meth, path) \<Rightarrow>
              rbind (read_headers (max_http_headers (hs_security srv)) en r (len line) []) (\<lambda>h.
                case h of
                  Inl reply \<Rightarrow> Inr (Some reply)
                | Inr (hs, rest) \<Rightarrow> rbind (answer srv en meth path hs rest) (\<lambda>reply. Inr (Some reply)))))"

subsection \<open>Responses\<close>

definition status_reason :: "int \<Rightarrow> string" where
  "status_reason status = get_default
     [(200, ''OK''), (400, ''Bad Request''), (401, ''Unauthorized''), (404, ''Not Found''),
      (405, ''Method Not Allowed''), (408, ''Request Timeout''), (413, ''Payload Too Large''),
      (431, ''Request Header Fields Too Large''), (500, ''Internal Server Error'')]
     status ''Unknown''"

definition crlf :: string where
  "crlf = [CHR 0x0D, CHR 0x0A]"

text \<open>The content security policy has two words in single quotes.\<close>

definition security_policy :: string where
  "security_policy = ''default-src '' @ [CHR 0x27] @ ''self'' @ [CHR 0x27] @ ''; frame-ancestors '' @
     [CHR 0x27] @ ''none'' @ [CHR 0x27]"

definition response_header :: "int \<Rightarrow> string \<Rightarrow> nat \<Rightarrow> string" where
  "response_header status ctype n =
     ''HTTP/1.1 '' @ dec_int status @ '' '' @ status_reason status @ crlf @
     ''Content-Type: '' @ ctype @ crlf @
     ''Content-Length: '' @ dec_nat n @ crlf @
     ''Cache-Control: no-store'' @ crlf @
     ''X-Content-Type-Options: nosniff'' @ crlf @
     ''Content-Security-Policy: '' @ security_policy @ crlf @
     (if status = 401 then ''WWW-Authenticate: Bearer realm=peerq'' @ crlf else []) @
     ''Connection: close'' @ crlf @ crlf"

definition write_response :: "response \<Rightarrow> bytes" where
  "write_response rsp =
     (case rsp of (status, ctype, body) \<Rightarrow> utf8_encode (response_header status ctype (length body)) @ body)"

text \<open>
  The handlers of exceptions, with the content type and the body in force: what is written, and
  the exception that leaves. \<open>d\<close> is the exception of \<^verbatim>\<open>drain\<close>, if any; only the answer to a time-out
  lets it pass.
\<close>

definition client_fault :: "py_error \<Rightarrow> bool" where
  "client_fault e \<longleftrightarrow> e \<in> {IncompleteReadError, ValueError, OSError, ConnectionError, PermissionError}"

definition on_exception :: "py_error \<Rightarrow> string \<Rightarrow> bytes \<Rightarrow> py_error option \<Rightarrow> bytes \<times> py_error option" where
  "on_exception e ctype body d =
     (if e = TimeoutError then (write_response (408, ctype, line_body ''Request Timeout''), d)
      else if client_fault e then (write_response (400, ctype, body), None)
      else (write_response (500, ctype, line_body ''Internal Server Error''), None))"

definition http_handle_client ::
  "http_server \<Rightarrow> ending \<Rightarrow> bytes \<Rightarrow> py_error option \<Rightarrow> py_error option \<Rightarrow> bytes \<times> py_error option" where
  "http_handle_client srv en s d1 d2 =
     (case request_reply srv en s of
        Inl e \<Rightarrow> on_exception e plain (line_body ''Bad Request'') d1
      | Inr None \<Rightarrow> ([], None)
      | Inr (Some (status, ctype, body)) \<Rightarrow>
          (case d1 of
             None \<Rightarrow> (write_response (status, ctype, body), None)
           | Some e \<Rightarrow>
               (let (out, err) = on_exception e ctype body d2
                in (write_response (status, ctype, body) @ out, err))))"

subsection \<open>Binding\<close>

text \<open>
  A server that can be reached from other machines has a token. A server on a dotted address
  outside 127.0.0.0/8 exists only with a bearer token, and no server has a token of fewer than
  32 characters.
\<close>

theorem http_binding_guarded:
  assumes "HttpServer (dotted a b c d) port h sec tok = Inr srv" "a < 256" "b < 256" "c < 256" "d < 256"
  shows "(a \<noteq> 127 \<longrightarrow> hs_token srv \<noteq> None) \<and> (\<forall>t. hs_token srv = Some t \<longrightarrow> 32 \<le> length t)"
  using assms(1) loopback_dotted [OF assms(2-5)]
  by (cases tok) (auto simp: HttpServer_def split: if_splits)

subsection \<open>Requests without the token\<close>

lemma readline_append: "readline limit en s = Inr (l, r) \<Longrightarrow> s = l @ r"
  using readline_shrinks by blast

text \<open>The reader of headers stops, or takes one header and goes on.\<close>

lemma read_headers_Inr:
  assumes "read_headers mx en s n hs = Inr res"
  obtains (stop) hdr r where "readline mx en s = Inr (hdr, r)" "res \<in> {Inl too_large, Inl bad_request, Inr (hs, r)}"
  | (more) hdr r key val where "readline mx en s = Inr (hdr, r)" "\<not> n + len hdr > mx"
      "\<not> (hdr = [] \<or> hdr = [13, 10] \<or> hdr = [10])" "\<not> 58 \<notin> set hdr"
      "split_once 58 (utf8_replace hdr) = Some (key, val)"
      "read_headers mx en r (n + len hdr) (AList.update (lower (strip uspace key)) (strip uspace val) hs) = Inr res"
proof -
  obtain hdr r where rl: "readline mx en s = Inr (hdr, r)"
    using assms by (subst (asm) read_headers.simps) (auto split: sum.splits)
  show thesis
  proof (cases "n + len hdr > mx \<or> hdr = [] \<or> hdr = [13, 10] \<or> hdr = [10] \<or> 58 \<notin> set hdr")
    case True
    then have "res \<in> {Inl too_large, Inl bad_request, Inr (hs, r)}"
      using assms rl by (subst (asm) read_headers.simps) (auto split: if_splits)
    with rl show ?thesis by (rule stop)
  next
    case False
    then obtain key val where kv: "split_once 58 (utf8_replace hdr) = Some (key, val)"
      using assms rl by (subst (asm) read_headers.simps) (auto split: if_splits option.splits)
    then have "read_headers mx en r (n + len hdr)
        (AList.update (lower (strip uspace key)) (strip uspace val) hs) = Inr res"
      using assms rl False by (subst (asm) read_headers.simps) (auto split: if_splits)
    then show ?thesis using more [OF rl _ _ _ kv] False by blast
  qed
qed

text \<open>An ASCII value of a header is part of the bytes the client sent.\<close>

lemma header_value_sent:
  assumes "read_headers mx en s n hs = Inr (Inr (hs', rest))" "map_of hs' k = Some v" "list_all (\<lambda>c. c < 0x80) v"
  shows "map_of hs k = Some v \<or> (\<exists>p q. s = p @ map word_of_nat v @ q)"
  using assms(1)
proof (induction mx en s n hs rule: read_headers.induct)
  case (1 mx en s n hs)
  from 1(2) show ?case
  proof (cases rule: read_headers_Inr)
    case stop
    then show ?thesis using assms(2) by simp
  next
    case (more hdr r key val)
    note s = readline_append [OF more(1)]
    let ?hs = "AList.update (lower (strip uspace key)) (strip uspace val) hs"
    have "map_of ?hs k = Some v \<or> (\<exists>p q. r = p @ map word_of_nat v @ q)"
      by (rule 1(1) [OF more(1) refl more(2-5) refl more(6)])
    then consider "map_of hs k = Some v" | "v = strip uspace val" | p q where "r = p @ map word_of_nat v @ q"
      by (auto simp: dict_simps split: if_splits)
    then show ?thesis
    proof cases
      case 2
      obtain a b where "val = a @ v @ b" using strip_infix [of val uspace] 2 by auto
      then have "utf8_replace hdr = (key @ 58 # a) @ v @ b" using more(5) by (simp add: split_once_Some)
      from utf8_replace_infix [OF this assms(3)] obtain p q where "hdr = p @ map word_of_nat v @ q" by blast
      then have "s = p @ map word_of_nat v @ (q @ r)" using s by simp
      then show ?thesis by blast
    next
      case 3
      then have "s = (hdr @ p) @ map word_of_nat v @ q" using s by simp
      then show ?thesis by blast
    qed simp
  qed
qed

lemma ascii_utf8_encode:
  "list_all (\<lambda>c. c < 0x80) (points s) \<Longrightarrow> utf8_encode s = map word_of_nat (points s)"
  by (induction s) (auto simp: utf8_encode_def utf8_char_def points_def)

definition names_token :: "bytes \<Rightarrow> string \<Rightarrow> bool" where
  "names_token s t \<longleftrightarrow> (\<exists>p q. s = p @ utf8_encode (''Bearer '' @ t) @ q)"

lemma token_refused:
  assumes "hs_token srv = Some t" "read_headers mx en r n [] = Inr (Inr (hs, rest))" "\<not> names_token r t"
  shows "bearer_ok srv hs \<in> {Inr False, Inl TypeError}"
proof -
  let ?v = "get_default hs (points ''authorization'') []"
  have "bearer_ok srv hs \<noteq> Inr True"
  proof
    assume "bearer_ok srv hs = Inr True"
    then have v: "?v = points (''Bearer '' @ t)" "list_all (\<lambda>c. c < 0x80) ?v"
      using assms(1) by (auto simp: bearer_ok_def compare_digest_def split: if_splits)
    then have "?v \<noteq> []" by (simp add: points_def)
    then have "map_of hs (points ''authorization'') = Some ?v" by (auto simp: get_default_def split: option.splits)
    from header_value_sent [OF assms(2) this v(2)] obtain p q where "r = p @ map word_of_nat ?v @ q" by auto
    with v ascii_utf8_encode [of "''Bearer '' @ t"] have "names_token r t"
      unfolding names_token_def by (metis)
    with assms(3) show False by simp
  qed
  then show ?thesis using assms(1) by (auto simp: bearer_ok_def compare_digest_def)
qed

lemma names_token_append: "names_token r t \<Longrightarrow> names_token (l @ r) t"
  unfolding names_token_def by (metis append.assoc)

lemma answer_refused:
  assumes "bearer_ok srv hs \<in> {Inr False, Inl TypeError}"
  shows "answer srv en meth path hs rest =
    (if bearer_ok srv hs = Inr False then Inr (401, plain, line_body ''Unauthorized'') else Inl TypeError)"
  using assms by (auto simp: answer_def Let_def)

lemma refused_any_handler:
  "bearer_ok (srv\<lparr>hs_handler := h\<rparr>) hs = bearer_ok srv hs"
  by (simp add: bearer_ok_def)

lemma read_headers_reply:
  "read_headers mx en s n hs = Inr (Inl reply) \<Longrightarrow> reply \<in> {bad_request, too_large}"
proof (induction mx en s n hs rule: read_headers.induct)
  case (1 mx en s n hs)
  from 1(2) show ?case
  proof (cases rule: read_headers_Inr)
    case (more hdr r key val)
    show ?thesis by (rule 1(1) [OF more(1) refl more(2-5) refl more(6)])
  qed auto
qed

lemma request_reply_line:
  assumes "readline (max_http_headers (hs_security srv)) en s = Inr (line, r)" "line \<noteq> []"
    "\<not> len line > max_http_headers (hs_security srv)" "request_line line = Some (m, p)"
  shows "request_reply srv en s =
    rbind (read_headers (max_http_headers (hs_security srv)) en r (len line) []) (\<lambda>h.
      case h of
        Inl reply \<Rightarrow> Inr (Some reply)
      | Inr (hs, rest) \<Rightarrow> rbind (answer srv en m p hs rest) (\<lambda>reply. Inr (Some reply)))"
  using assms by (simp add: request_reply_def)

lemma request_reply_early:
  assumes "readline (max_http_headers (hs_security srv)) en s = Inr (line, r)"
    "line = [] \<or> len line > max_http_headers (hs_security srv) \<or> request_line line = None"
  shows "request_reply srv en s =
    Inr (if line = [] then None
         else if len line > max_http_headers (hs_security srv) then Some too_large else Some bad_request)"
  using assms by (auto simp: request_reply_def)

lemma reply_without_token:
  assumes "hs_token srv = Some t" "\<not> names_token s t"
  shows "request_reply (srv\<lparr>hs_handler := h\<rparr>) en s = request_reply srv en s \<and>
    (\<forall>st ct b. request_reply srv en s = Inr (Some (st, ct, b)) \<longrightarrow> st \<in> {400, 401, 431})"
proof (cases "readline (max_http_headers (hs_security srv)) en s")
  case (Inl e)
  then show ?thesis by (simp add: request_reply_def)
next
  case (Inr x)
  let ?mx = "max_http_headers (hs_security srv)" and ?srv = "srv\<lparr>hs_handler := h\<rparr>"
  obtain line r where rl: "readline ?mx en s = Inr (line, r)" using Inr by (cases x) simp
  then have rl': "readline (max_http_headers (hs_security ?srv)) en s = Inr (line, r)" by simp
  have no: "\<not> names_token r t" using names_token_append assms(2) readline_append [OF rl] by blast
  show ?thesis
  proof (cases "line = [] \<or> len line > ?mx \<or> request_line line = None")
    case True
    with request_reply_early [OF rl] request_reply_early [OF rl'] show ?thesis
      by (simp add: bad_request_def too_large_def)
  next
    case False
    then obtain m p where f: "line \<noteq> []" "\<not> len line > ?mx" "request_line line = Some (m, p)" by auto
    have f': "\<not> len line > max_http_headers (hs_security ?srv)" using f(2) by simp
    note eq = request_reply_line [OF rl f] request_reply_line [OF rl' f(1) f' f(3)]
    show ?thesis
    proof (cases "read_headers ?mx en r (len line) []" rule: sum.exhaust)
      case (Inr x)
      show ?thesis
      proof (cases x)
        case (Inl reply)
        with Inr eq read_headers_reply [of ?mx en r "len line" "[]" reply] show ?thesis
          by (auto simp: bad_request_def too_large_def)
      next
        case (Inr y)
        obtain hs rest where hd: "read_headers ?mx en r (len line) [] = Inr (Inr (hs, rest))"
          using Inr \<open>read_headers ?mx en r (len line) [] = Inr x\<close> by (cases y) simp
        note ref = token_refused [OF assms(1) hd no]
        have "bearer_ok ?srv hs \<in> {Inr False, Inl TypeError}" using ref refused_any_handler by metis
        from answer_refused [OF ref, of en m p rest] answer_refused [OF this, of en m p rest] eq hd
        show ?thesis by (simp add: refused_any_handler)
      qed
    qed (use eq in simp)
  qed
qed

text \<open>
  C15: the status pages need the token. If the server has a bearer token and the client's bytes
  nowhere hold the words \<open>Bearer\<close> and the token, then what the server writes does not depend on
  the routine that produces the pages, and the response has one of the statuses 400, 401, 408,
  431 and 500 (or there is none).
\<close>

theorem http_token_required:
  assumes "hs_token srv = Some t" "\<not> names_token s t"
  shows "http_handle_client srv en s d1 d2 = http_handle_client (srv\<lparr>hs_handler := h\<rparr>) en s d1 d2 \<and>
    (\<forall>w err. http_handle_client srv en s None d2 = (w, err) \<longrightarrow>
       w = [] \<or> (\<exists>st ct b. w = write_response (st, ct, b) \<and> st \<in> {400, 401, 408, 431, 500}))"
proof (intro conjI allI impI)
  note r = reply_without_token [OF assms, of h en]
  then show "http_handle_client srv en s d1 d2 = http_handle_client (srv\<lparr>hs_handler := h\<rparr>) en s d1 d2"
    by (simp add: http_handle_client_def)
  fix w err
  assume w: "http_handle_client srv en s None d2 = (w, err)"
  show "w = [] \<or> (\<exists>st ct b. w = write_response (st, ct, b) \<and> st \<in> {400, 401, 408, 431, 500})"
  proof (cases "request_reply srv en s")
    case (Inl e)
    with w show ?thesis by (auto simp: http_handle_client_def on_exception_def split: if_splits)
  next
    case (Inr x)
    with w r show ?thesis
      by (cases x) (auto simp: http_handle_client_def)
  qed
qed

subsection \<open>Bounded reading\<close>

text \<open>What a reader does with a prefix that is long enough does not depend on what follows.\<close>

lemma readline_prefix:
  assumes "limit < len p"
  shows "readline limit en (p @ x) =
    (case readline limit Broken p of Inl e \<Rightarrow> Inl e | Inr (l, r) \<Rightarrow> Inr (l, r @ x))"
proof (cases "split_once 10 p")
  case None
  then have no: "10 \<notin> set p" by (simp add: split_once_None)
  have "readline limit en (p @ x) = Inl ValueError"
  proof (cases "split_once 10 (p @ x)")
    case (Some lr)
    then obtain l r where lr: "split_once 10 (p @ x) = Some (l, r)" by (cases lr) auto
    then have "p @ x = l @ 10 # r" by (simp add: split_once_Some)
    have "length p \<le> length l"
    proof (rule ccontr)
      assume "\<not> length p \<le> length l"
      then have "(p @ x) ! length l \<in> set p" by (simp add: nth_append)
      with no \<open>p @ x = l @ 10 # r\<close> show False by simp
    qed
    with assms lr show ?thesis by (simp add: readline_def)
  qed (use assms in \<open>simp add: readline_def\<close>)
  then show ?thesis using None assms by (simp add: readline_def)
next
  case (Some lr)
  then obtain l r where lr: "split_once 10 p = Some (l, r)" by (cases lr) auto
  then have "split_once 10 (p @ x) = Some (l, r @ x)" by (simp add: split_once_Some)
  with lr show ?thesis by (simp add: readline_def)
qed

definition extend :: "bytes \<Rightarrow> (response + headers \<times> bytes) result \<Rightarrow> (response + headers \<times> bytes) result" where
  "extend x res = (case res of Inr (Inr (hs, rest)) \<Rightarrow> Inr (Inr (hs, rest @ x)) | _ \<Rightarrow> res)"

lemma read_headers_prefix:
  assumes "2 * mx - n + k < len p" "0 \<le> n" "n \<le> mx" "0 \<le> k"
  shows "read_headers mx en (p @ x) n hs = extend x (read_headers mx Broken p n hs) \<and>
    (\<forall>hs' rest. read_headers mx Broken p n hs = Inr (Inr (hs', rest)) \<longrightarrow> k \<le> len rest)"
  using assms
proof (induction mx Broken p n hs rule: read_headers.induct)
  case (1 mx p n hs)
  have "mx < len p" using 1(2-5) by simp
  note rp = readline_prefix [OF this, of en x]
  show ?case
  proof (cases "readline mx Broken p")
    case (Inl e)
    with rp show ?thesis by (simp add: read_headers.simps [of mx] extend_def)
  next
    case (Inr lr)
    then obtain hdr r where rl: "readline mx Broken p = Inr (hdr, r)" by (cases lr) auto
    with rp have rx: "readline mx en (p @ x) = Inr (hdr, r @ x)" by simp
    have p: "len p = len hdr + len r" using readline_append [OF rl] by simp
    note unfold = read_headers.simps [of mx Broken p n hs] read_headers.simps [of mx en "p @ x" n hs]
    consider (big) "n + len hdr > mx" | (blank) "\<not> n + len hdr > mx" "hdr = [] \<or> hdr = [13, 10] \<or> hdr = [10]"
      | (bad) "\<not> n + len hdr > mx" "\<not> (hdr = [] \<or> hdr = [13, 10] \<or> hdr = [10])" "58 \<notin> set hdr"
      | (more) "\<not> n + len hdr > mx" "\<not> (hdr = [] \<or> hdr = [13, 10] \<or> hdr = [10])" "58 \<in> set hdr" by blast
    then show ?thesis
    proof cases
      case blank
      have "k \<le> len r" using p blank(1) 1(2-5) by simp
      with blank rl rx show ?thesis by (simp add: unfold extend_def)
    next
      case more
      show ?thesis
      proof (cases "split_once 58 (utf8_replace hdr)")
        case None
        with more rl rx show ?thesis by (simp add: unfold extend_def)
      next
        case (Some kv)
        then obtain key val where kv: "split_once 58 (utf8_replace hdr) = Some (key, val)" by (cases kv) auto
        have "2 * mx - (n + len hdr) + k < len r" "0 \<le> n + len hdr" "n + len hdr \<le> mx"
          using p more(1) 1(2-5) by simp_all
        note IH = 1(1) [OF rl refl more(1-2) _ kv refl this 1(5)]
        show ?thesis using IH more rl rx kv by (simp add: unfold)
      qed
    qed (use rl rx in \<open>simp_all add: unfold extend_def\<close>)
  qed
qed

text \<open>
  C30: a connection costs a bounded amount of reading. Two clients whose bytes agree on a prefix
  longer than twice the header limit plus the body limit get the same response, whatever they
  send afterwards and however they end; so the server never waits for more.
\<close>

theorem http_reads_bounded:
  assumes "2 * max_http_headers (hs_security srv) + max_http_body (hs_security srv) < len p"
    "0 \<le> max_http_headers (hs_security srv)" "0 \<le> max_http_body (hs_security srv)"
  shows "http_handle_client srv en (p @ x) d1 d2 = http_handle_client srv en' (p @ y) d1 d2"
proof -
  let ?mx = "max_http_headers (hs_security srv)" and ?mb = "max_http_body (hs_security srv)"
  have "?mx < len p" using assms by simp
  note rp = readline_prefix [OF this]
  have "request_reply srv en (p @ x) = request_reply srv en' (p @ y)"
  proof (cases "readline ?mx Broken p")
    case (Inl e)
    with rp show ?thesis by (simp add: request_reply_def)
  next
    case (Inr lr)
    then obtain line r where rl: "readline ?mx Broken p = Inr (line, r)" by (cases lr) auto
    then have rx: "readline ?mx en (p @ x) = Inr (line, r @ x)" "readline ?mx en' (p @ y) = Inr (line, r @ y)"
      using rp by simp_all
    show ?thesis
    proof (cases "line = [] \<or> len line > ?mx \<or> request_line line = None")
      case True
      then show ?thesis using request_reply_early [OF rx(1)] request_reply_early [OF rx(2)] by simp
    next
      case False
      then obtain m w where f: "line \<noteq> []" "\<not> len line > ?mx" "request_line line = Some (m, w)" by auto
      have "len p = len line + len r" using readline_append [OF rl] by simp
      with assms f(2) have "2 * ?mx - len line + ?mb < len r" by simp
      note hp = read_headers_prefix [OF this _ _ assms(3), of _ _ "[]"]
      have same: "answer srv en m w hs (rest @ x) = answer srv en' m w hs (rest @ y)" if "?mb \<le> len rest" for hs rest
        using that by (cases "bearer_ok srv hs") (auto simp: answer_def readexactly_def Let_def)
      note eq = request_reply_line [OF rx(1) f] request_reply_line [OF rx(2) f]
      show ?thesis using hp [of en x] hp [of en' y] f(2) same
        by (auto simp: eq extend_def split: sum.splits)
    qed
  qed
  then show ?thesis by (simp add: http_handle_client_def)
qed

subsection \<open>Requests that are served\<close>

text \<open>A request as an HTTP client writes it.\<close>

definition render_headers :: "(string \<times> string) list \<Rightarrow> string" where
  "render_headers hdrs = concat (map (\<lambda>(k, v). k @ '': '' @ v @ crlf) hdrs)"

definition render_request :: "string \<Rightarrow> string \<Rightarrow> (string \<times> string) list \<Rightarrow> string" where
  "render_request meth path hdrs = meth @ '' '' @ path @ '' HTTP/1.1'' @ crlf @ render_headers hdrs @ crlf"

definition visible :: "char \<Rightarrow> bool" where
  "visible c \<longleftrightarrow> 32 < code c \<and> code c < 127"

definition header_ok :: "string \<times> string \<Rightarrow> bool" where
  "header_ok kv \<longleftrightarrow> (case kv of (k, v) \<Rightarrow> k \<noteq> [] \<and> list_all (\<lambda>c. visible c \<and> c \<noteq> CHR '':'') k \<and>
     v \<noteq> [] \<and> list_all (\<lambda>c. visible c \<or> c = CHR '' '') v \<and> visible (hd v) \<and> visible (last v))"

definition parsed_headers :: "(string \<times> string) list \<Rightarrow> headers \<Rightarrow> headers" where
  "parsed_headers hdrs hs = fold (\<lambda>(k, v). AList.update (lower (points k)) (points v)) hdrs hs"

lemma utf8_encode_append [simp]: "utf8_encode (a @ b) = utf8_encode a @ utf8_encode b"
  by (simp add: utf8_encode_def)

lemma points_simps [simp]: "points (a @ b) = points a @ points b" "length (points s) = length s" "points [] = []"
  "points s = [] \<longleftrightarrow> s = []"
  by (simp_all add: points_def)

lemma utf8_replace_encode:
  assumes "list_all (\<lambda>c. code c < 128) s"
  shows "utf8_replace (utf8_encode s @ r) = points s @ utf8_replace r" "length (utf8_encode s) = length s"
    "b \<in> set (utf8_encode s) \<longleftrightarrow> unat b \<in> code ` set s"
proof -
  have e: "utf8_encode s = map (\<lambda>c. word_of_nat (code c)) s"
    using assms by (induction s) (simp_all add: utf8_encode_def utf8_char_def)
  have u: "unat (word_of_nat (code c) :: byte) = code c" if "code c < 128" for c
    using that by (intro unat_byte) simp
  have "list_all (\<lambda>b. unat b < 0x80) (utf8_encode s)" "map unat (utf8_encode s) = points s"
    unfolding e using assms u by (auto simp: list_all_iff points_def)
  then show "utf8_replace (utf8_encode s @ r) = points s @ utf8_replace r"
    by (metis utf8_replace_ascii_append)
  show "length (utf8_encode s) = length s" unfolding e by simp
  have "word_of_nat (unat b) = b" by simp
  then show "b \<in> set (utf8_encode s) \<longleftrightarrow> unat b \<in> code ` set s"
    unfolding e using assms u by (fastforce simp: list_all_iff image_iff)
qed

lemma readline_line:
  assumes "list_all (\<lambda>c. code c < 128 \<and> code c \<noteq> 10) s" "len s + 1 \<le> limit"
  shows "readline limit en (utf8_encode (s @ crlf) @ r) = Inr (utf8_encode (s @ crlf), r)"
proof -
  have s: "list_all (\<lambda>c. code c < 128) s" using assms(1) by (simp add: list_all_iff)
  have c: "utf8_encode crlf = [13, 10]" by (simp add: crlf_def utf8_encode_def utf8_char_def)
  have "(10 :: byte) \<notin> set (utf8_encode s @ [13])"
    using assms(1) utf8_replace_encode(3) [OF s, of 10] by (auto simp: list_all_iff)
  from split_once_append [OF this, of r] have "split_once 10 (utf8_encode (s @ crlf) @ r) = Some (utf8_encode s @ [13], r)"
    by (simp add: c)
  then show ?thesis using assms(2) utf8_replace_encode(2) [OF s] by (simp add: readline_def c)
qed

lemma utf8_encode_Nil [simp]: "utf8_encode [] = []"
  by (simp add: utf8_encode_def)

lemma crlf_bytes [simp]: "utf8_encode crlf = [13, 10]" "points crlf = [13, 10]" "length crlf = 2"
  by (simp_all add: crlf_def utf8_encode_def utf8_char_def points_def)

lemma visible_facts:
  "visible c \<Longrightarrow> code c < 128 \<and> code c \<noteq> 10 \<and> \<not> uspace (code c)"
  by (auto simp: visible_def uspace_def)

lemma points_hd_last: "s \<noteq> [] \<Longrightarrow> hd (points s) = code (hd s) \<and> last (points s) = code (last s)"
  by (simp add: points_def hd_map last_map)

lemma code_eq: "code c = code d \<longleftrightarrow> c = d"
  by (metis char_of_char)

text \<open>What the reader makes of one rendered header.\<close>

lemma rendered_header:
  assumes "header_ok (k, v)"
  shows "list_all (\<lambda>c. code c < 128 \<and> code c \<noteq> 10) (k @ '': '' @ v)"
    "split_once 58 (utf8_replace (utf8_encode ((k @ '': '' @ v) @ crlf))) = Some (points k, 32 # points v @ [13, 10])"
    "strip uspace (32 # points v @ [13, 10]) = points v" "strip uspace (points k) = points k"
    "58 \<in> set (utf8_encode ((k @ '': '' @ v) @ crlf))"
    "length (utf8_encode ((k @ '': '' @ v) @ crlf)) = length k + length v + 4" "k \<noteq> []"
proof -
  have ok: "k \<noteq> []" "list_all (\<lambda>c. visible c \<and> c \<noteq> CHR '':'') k" "v \<noteq> []"
    "list_all (\<lambda>c. visible c \<or> c = CHR '' '') v" "visible (hd v)" "visible (last v)"
    using assms by (simp_all add: header_ok_def)
  show k: "k \<noteq> []" by fact
  have "list_all (\<lambda>c. code c < 128 \<and> code c \<noteq> 10) k"
    by (rule list.pred_mono_strong [OF ok(2)]) (use visible_facts in blast)
  moreover have "list_all (\<lambda>c. code c < 128 \<and> code c \<noteq> 10) v"
  proof (rule list.pred_mono_strong [OF ok(4)])
    show "code c < 128 \<and> code c \<noteq> 10" if "visible c \<or> c = CHR '' ''" for c
      using that visible_facts [of c] by (elim disjE) simp_all
  qed
  ultimately show s: "list_all (\<lambda>c. code c < 128 \<and> code c \<noteq> 10) (k @ '': '' @ v)" by simp
  have s128: "list_all (\<lambda>c. code c < 128) ((k @ '': '' @ v) @ crlf)"
    using list.pred_mono_strong [OF s, of "\<lambda>c. code c < 128"] by (simp add: crlf_def)
  have dec: "utf8_replace (utf8_encode ((k @ '': '' @ v) @ crlf)) = points k @ 58 # (32 # points v @ [13, 10])"
    using utf8_replace_encode(1) [OF s128, of "[]"] by (simp add: points_def crlf_def)
  have "58 \<notin> set (points k)"
  proof
    assume "58 \<in> set (points k)"
    then obtain c where c: "c \<in> set k" "code c = 58" unfolding points_def by auto
    then have "c = CHR '':''" using code_eq [of c "CHR '':''"] by simp
    with c(1) ok(2) show False unfolding list_all_iff by blast
  qed
  then show "split_once 58 (utf8_replace (utf8_encode ((k @ '': '' @ v) @ crlf))) = Some (points k, 32 # points v @ [13, 10])"
    unfolding dec by (rule split_once_append)
  have vk: "visible (hd k)" "visible (last k)" using ok(1,2) by (auto simp: list_all_iff)
  have hl: "\<not> uspace (hd (points v))" "\<not> uspace (last (points v))" "\<not> uspace (hd (points k))" "\<not> uspace (last (points k))"
    using ok(1,3,5,6) vk points_hd_last [of k] points_hd_last [of v]
      visible_facts [of "hd k"] visible_facts [of "last k"] visible_facts [of "hd v"] visible_facts [of "last v"] by simp_all
  show "strip uspace (32 # points v @ [13, 10]) = points v"
    using strip_pad [of uspace "[32]" "[13, 10]" "points v"] hl ok(3) by (simp add: uspace_def)
  show "strip uspace (points k) = points k" using hl k by (intro strip_id) simp_all
  show "length (utf8_encode ((k @ '': '' @ v) @ crlf)) = length k + length v + 4"
    using utf8_replace_encode(2) [OF s128] by simp
  have "(58 :: nat) \<in> code ` set ((k @ '': '' @ v) @ crlf)" by simp
  then show "58 \<in> set (utf8_encode ((k @ '': '' @ v) @ crlf))" using utf8_replace_encode(3) [OF s128, of 58] by simp
qed

lemma read_rendered_headers:
  assumes "list_all header_ok hdrs" "n + len (render_headers hdrs) + 2 \<le> mx" "0 \<le> n"
  shows "read_headers mx en (utf8_encode (render_headers hdrs @ crlf) @ rest) n hs =
    Inr (Inr (parsed_headers hdrs hs, rest))"
  using assms
proof (induction hdrs arbitrary: n hs)
  case Nil
  then have "readline mx en (utf8_encode ([] @ crlf) @ rest) = Inr (utf8_encode ([] @ crlf), rest)"
    by (intro readline_line) (simp_all add: render_headers_def)
  then have "readline mx en (13 # 10 # rest) = Inr ([13, 10], rest)" by simp
  with Nil show ?case
    by (simp add: read_headers.simps [of mx] parsed_headers_def render_headers_def)
next
  case (Cons kv hdrs)
  obtain k v where kv: "kv = (k, v)" by (cases kv)
  define line tail where "line = utf8_encode ((k @ '': '' @ v) @ crlf)"
    and "tail = utf8_encode (render_headers hdrs @ crlf) @ rest"
  have "header_ok (k, v)" using Cons.prems(1) kv by simp
  note h = rendered_header [OF this, folded line_def]
  have r: "render_headers (kv # hdrs) = (k @ '': '' @ v) @ crlf @ render_headers hdrs"
    by (simp add: render_headers_def kv)
  have rl: "readline mx en (line @ tail) = Inr (line, tail)"
    unfolding line_def using Cons.prems(2,3) r by (intro readline_line h(1)) simp
  have "line \<noteq> []" "line \<noteq> [13, 10]" "line \<noteq> [10]" using h(6,7) by auto
  moreover have "n + len line \<le> mx" using Cons.prems(2) r h(6) by simp
  ultimately have "read_headers mx en (line @ tail) n hs =
      read_headers mx en tail (n + len line) (AList.update (lower (points k)) (points v) hs)"
    using rl h(2-5) by (subst read_headers.simps) simp
  also have "\<dots> = Inr (Inr (parsed_headers hdrs (AList.update (lower (points k)) (points v) hs), rest))"
    unfolding tail_def using Cons.prems r h(6) by (intro Cons.IH) simp_all
  finally have "read_headers mx en (line @ tail) n hs = Inr (Inr (parsed_headers (kv # hdrs) hs, rest))"
    by (simp add: parsed_headers_def kv)
  moreover have "utf8_encode (render_headers (kv # hdrs) @ crlf) @ rest = line @ tail"
    unfolding r line_def tail_def by (simp only: utf8_encode_append append.assoc)
  ultimately show ?case by simp
qed

text \<open>The request line of a rendered request.\<close>

definition word_ok :: "string \<Rightarrow> bool" where
  "word_ok w \<longleftrightarrow> w \<noteq> [] \<and> list_all visible w"

lemma word_points: "word_ok w \<Longrightarrow> list_all (\<lambda>c. \<not> uspace c) (points w) \<and> list_all (\<lambda>c. code c < 128 \<and> code c \<noteq> 10) w"
  unfolding word_ok_def points_def list_all_iff using visible_facts by auto

lemma rendered_request_line:
  assumes "word_ok meth" "word_ok path" "length path \<le> 2048"
  shows "list_all (\<lambda>c. code c < 128 \<and> code c \<noteq> 10) (meth @ '' '' @ path @ '' HTTP/1.1'')"
    "request_line (utf8_encode ((meth @ '' '' @ path @ '' HTTP/1.1'') @ crlf)) = Some (points meth, points path)"
    "length (utf8_encode ((meth @ '' '' @ path @ '' HTTP/1.1'') @ crlf)) = length meth + length path + 12"
proof -
  let ?l = "meth @ '' '' @ path @ '' HTTP/1.1''" and ?v = "points ''HTTP/1.1''"
  show l: "list_all (\<lambda>c. code c < 128 \<and> code c \<noteq> 10) ?l"
    using word_points [OF assms(1)] word_points [OF assms(2)] by simp
  have l128: "list_all (\<lambda>c. code c < 128) (?l @ crlf)"
    using list.pred_mono_strong [OF l, of "\<lambda>c. code c < 128"] by (simp add: crlf_def)
  show "length (utf8_encode (?l @ crlf)) = length meth + length path + 12"
    using utf8_replace_encode(2) [OF l128] by simp
  have dec: "utf8_replace (utf8_encode (?l @ crlf)) = (points meth @ [32] @ points path @ [32] @ ?v) @ [13, 10]"
    using utf8_replace_encode(1) [OF l128, of "[]"] by (simp add: points_def crlf_def)
  have m: "points meth \<noteq> []" "points path \<noteq> []" using assms by (simp_all add: word_ok_def)
  have sp: "list_all (\<lambda>c. \<not> uspace c) (points meth)" "list_all (\<lambda>c. \<not> uspace c) (points path)"
    using word_points assms(1,2) by blast+
  have v: "?v = [72, 84, 84, 80, 47, 49, 46, 49]" by (simp add: points_def)
  have "strip uspace ([] @ (points meth @ [32] @ points path @ [32] @ ?v) @ [13, 10]) =
      points meth @ [32] @ points path @ [32] @ ?v"
    using sp(1) m by (intro strip_pad) (auto simp: v uspace_def list_all_iff)
  moreover have "split_words uspace [] (points meth @ [32] @ points path @ [32] @ ?v) = [points meth, points path, ?v]"
    using m by (simp add: split_words_append [OF sp(1)] split_words_append [OF sp(2)]) (simp add: v uspace_def)
  ultimately show "request_line (utf8_encode (?l @ crlf)) = Some (points meth, points path)"
    using assms(3) unfolding request_line_def dec by simp
qed

lemma rendered_request_served:
  assumes "word_ok meth" "word_ok path" "length path \<le> 2048" "list_all header_ok hdrs"
    "len (render_request meth path hdrs) \<le> max_http_headers (hs_security srv)"
    "map_of (parsed_headers hdrs []) (points ''content-length'') = None"
    "\<forall>t. hs_token srv = Some t \<longrightarrow> list_all (\<lambda>c. code c < 128) t \<and>
       map_of (parsed_headers hdrs []) (points ''authorization'') = Some (points (''Bearer '' @ t))"
    "0 \<le> max_http_body (hs_security srv)"
    "hs_handler srv (points meth) (points path) = Inr (st, ct, b)" "len b \<le> max_http_body (hs_security srv)"
  shows "http_handle_client srv en (utf8_encode (render_request meth path hdrs) @ rest) None d2 =
    (write_response (st, ct, b), None)"
proof -
  let ?l = "meth @ '' '' @ path @ '' HTTP/1.1''" and ?mx = "max_http_headers (hs_security srv)"
  let ?hs = "parsed_headers hdrs []"
  define line where "line = utf8_encode (?l @ crlf)"
  note q = rendered_request_line [OF assms(1-3), folded line_def]
  have size: "length (render_request meth path hdrs) = length line + length (render_headers hdrs) + 2"
    by (simp add: render_request_def q(3))
  have "utf8_encode (render_request meth path hdrs) @ rest = line @ utf8_encode (render_headers hdrs @ crlf) @ rest"
    unfolding render_request_def line_def by (simp only: utf8_encode_append append.assoc)
  moreover have "readline ?mx en (line @ utf8_encode (render_headers hdrs @ crlf) @ rest) =
      Inr (line, utf8_encode (render_headers hdrs @ crlf) @ rest)"
    unfolding line_def using assms(5) size q(3) by (intro readline_line q(1)) simp
  moreover have "line \<noteq> []" "\<not> len line > ?mx" using q(3) assms(5) size by auto
  moreover have "read_headers ?mx en (utf8_encode (render_headers hdrs @ crlf) @ rest) (len line) [] = Inr (Inr (?hs, rest))"
    using assms(5) size by (intro read_rendered_headers assms(4)) simp_all
  moreover have "answer srv en (points meth) (points path) ?hs rest = Inr (st, ct, b)"
  proof -
    have "bearer_ok srv ?hs = Inr True"
      using assms(7) by (cases "hs_token srv")
        (auto simp: bearer_ok_def compare_digest_def get_default_def points_def list_all_iff)
    moreover have "body_length ?hs = 0"
      using assms(6) by (simp add: body_length_def get_default_def int_of_text_def unsigned_of_def decimal_def
          digits_value_def points_def strip_def int_space_def max_str_digits_def)
    ultimately show ?thesis using assms(8-10) by (simp add: answer_def)
  qed
  ultimately have "request_reply srv en (utf8_encode (render_request meth path hdrs) @ rest) = Inr (Some (st, ct, b))"
    using request_reply_line [of srv en _ line _ "points meth" "points path"] q(2) by simp
  then show ?thesis by (simp add: http_handle_client_def)
qed

text \<open>
  A request with the token is served. The server answers a request rendered by a client, with
  any well-formed headers within the limit and among them its token, by the response of the
  routine that produces the pages, whole and nothing else.
\<close>

theorem http_serves:
  assumes "word_ok meth" "word_ok path" "length path \<le> 2048" "list_all header_ok hdrs"
    "len (render_request meth path hdrs) \<le> max_http_headers (hs_security srv)"
    "map_of (parsed_headers hdrs []) (points ''content-length'') = None"
    "\<forall>t. hs_token srv = Some t \<longrightarrow> list_all (\<lambda>c. code c < 128) t \<and>
       map_of (parsed_headers hdrs []) (points ''authorization'') = Some (points (''Bearer '' @ t))"
    "0 \<le> max_http_body (hs_security srv)"
    "hs_handler srv (points meth) (points path) = Inr (st, ct, b)" "len b \<le> max_http_body (hs_security srv)"
  shows "http_handle_client srv en (utf8_encode (render_request meth path hdrs) @ rest) None d2 =
    (write_response (st, ct, b), None)"
  using assms by (rule rendered_request_served)

subsection \<open>Responses\<close>

lemma request_reply_Inr:
  assumes "request_reply srv en s = Inr x"
  obtains (silent) r where "x = None" "readline (max_http_headers (hs_security srv)) en s = Inr ([], r)"
  | (refused) reply where "x = Some reply" "reply \<in> {bad_request, too_large}"
  | (served) m p hs rest reply where "x = Some reply" "answer srv en m p hs rest = Inr reply"
proof -
  let ?mx = "max_http_headers (hs_security srv)"
  obtain line r where rl: "readline ?mx en s = Inr (line, r)"
    using assms by (auto simp: request_reply_def rbind_Inr_iff)
  show thesis
  proof (cases "line = [] \<or> len line > ?mx \<or> request_line line = None")
    case True
    show ?thesis
    proof (cases "line = []")
      case True
      with request_reply_early [OF rl] assms rl show ?thesis by (intro silent) simp_all
    next
      case False
      with request_reply_early [OF rl \<open>_ \<or> _\<close>] assms show ?thesis
        by (intro refused [of "if len line > ?mx then too_large else bad_request"]) auto
    qed
  next
    case False
    then obtain m p where f: "line \<noteq> []" "\<not> len line > ?mx" "request_line line = Some (m, p)" by auto
    obtain h where h: "read_headers ?mx en r (len line) [] = Inr h"
      using assms request_reply_line [OF rl f] by (auto simp: rbind_Inr_iff)
    show ?thesis
    proof (cases h)
      case (Inl reply)
      with assms h request_reply_line [OF rl f] read_headers_reply [of ?mx en r "len line" "[]" reply] show ?thesis
        by (intro refused [of reply]) auto
    next
      case (Inr y)
      obtain hs rest where "y = (hs, rest)" by (cases y)
      with Inr assms h request_reply_line [OF rl f] show ?thesis
        by (auto simp: rbind_Inr_iff intro: served)
    qed
  qed
qed

text \<open>A response within the body limit that is one of the server's own or produced by its handler.\<close>

definition proper :: "http_server \<Rightarrow> response \<Rightarrow> bool" where
  "proper srv rsp \<longleftrightarrow> (fst rsp = 200 \<longrightarrow> len (snd (snd rsp)) \<le> max_http_body (hs_security srv)) \<and>
     (fst rsp \<in> {400, 401, 408, 413, 431, 500} \<or> (\<exists>m p. hs_handler srv m p = Inr rsp))"

lemma answer_proper: "answer srv en m p hs rest = Inr rsp \<Longrightarrow> proper srv rsp"
  by (auto simp: answer_def rbind_Inr_iff proper_def Let_def split: if_splits prod.splits)

lemma reply_proper: "request_reply srv en s = Inr (Some rsp) \<Longrightarrow> proper srv rsp"
  by (erule request_reply_Inr) (auto simp: proper_def bad_request_def too_large_def dest: answer_proper)

lemma on_exception_proper:
  "\<exists>rsp. on_exception e ct b None = (write_response rsp, None) \<and> proper srv rsp"
proof (cases "e = TimeoutError")
  case True
  then show ?thesis
    by (intro exI [of _ "(408, ct, line_body ''Request Timeout'')"]) (simp add: on_exception_def proper_def)
next
  case False
  let ?rsp = "if client_fault e then (400, ct, b) else (500, ct, line_body ''Internal Server Error'')"
  from False show ?thesis by (intro exI [of _ ?rsp]) (simp add: on_exception_def proper_def)
qed


subsection \<open>Reading a response back\<close>

lemma decimal_digit: "is_digit c \<Longrightarrow> decimal (code c) = Some (code c - 48) \<and> code c \<noteq> 95 \<and> code c \<noteq> 45 \<and> code c \<noteq> 43 \<and>
    \<not> int_space (code c) \<and> visible c"
  by (auto simp: decimal_def is_digit_def int_space_def visible_def)

lemma digits_value_read_nat: "digits_value (map (\<lambda>c. code c - 48) s) = read_nat s"
  by (simp add: digits_value_def read_nat_def foldl_map)

lemma int_of_text_dec_nat:
  assumes "length (dec_nat n) \<le> max_str_digits"
  shows "int_of_text (points (dec_nat n)) = Inr (int n)"
proof -
  let ?d = "dec_nat n"
  have d: "\<forall>c \<in> set ?d. is_digit c" using dec_nat_digits by blast
  have ne: "?d \<noteq> []" by simp
  then have "points ?d \<noteq> []" by simp
  note ne = ne this this [symmetric]
  have "hd ?d \<in> set ?d" "last ?d \<in> set ?d" using ne by simp_all
  with d ne points_hd_last [of ?d] decimal_digit [of "hd ?d"] decimal_digit [of "last ?d"]
  have "strip int_space (points ?d) = points ?d" "hd (points ?d) \<noteq> 45" "hd (points ?d) \<noteq> 43"
    by (auto intro!: strip_id)
  moreover have "95 \<notin> set (points ?d)" unfolding points_def using d decimal_digit by (metis imageE list.set_map)
  then have "split_on 95 (points ?d) = [points ?d]" by (rule split_on_absent)
  moreover have "map decimal (points ?d) = map (\<lambda>c. Some (code c - 48)) ?d"
    using d decimal_digit by (simp add: points_def)
  then have "None \<notin> set (map decimal (points ?d))"
    "map the (map decimal (points ?d)) = map (\<lambda>c. code c - 48) ?d" by (auto simp: o_def)
  ultimately have "unsigned_of (points ?d) = Inr (read_nat ?d)"
    using assms ne by (simp add: unsigned_of_def Let_def digits_value_read_nat)
  then show ?thesis using \<open>strip int_space (points ?d) = points ?d\<close> \<open>hd (points ?d) \<noteq> 45\<close> \<open>hd (points ?d) \<noteq> 43\<close> ne
    by (cases "points ?d") (simp_all add: int_of_text_def)
qed

definition value_ok :: "string \<Rightarrow> bool" where
  "value_ok v \<longleftrightarrow> header_ok (''x'', v)"

lemma header_ok_name: "header_ok (k, v) \<longleftrightarrow> header_ok (k, ''x'') \<and> value_ok v"
  by (auto simp: header_ok_def value_ok_def visible_def)

definition response_headers :: "int \<Rightarrow> string \<Rightarrow> nat \<Rightarrow> (string \<times> string) list" where
  "response_headers status ctype n =
     [(''Content-Type'', ctype), (''Content-Length'', dec_nat n), (''Cache-Control'', ''no-store''),
      (''X-Content-Type-Options'', ''nosniff''), (''Content-Security-Policy'', security_policy)] @
     (if status = 401 then [(''WWW-Authenticate'', ''Bearer realm=peerq'')] else []) @
     [(''Connection'', ''close'')]"

lemma response_header_rendered:
  "response_header status ctype n =
     (''HTTP/1.1 '' @ dec_int status @ '' '' @ status_reason status) @ crlf @
     render_headers (response_headers status ctype n) @ crlf"
  by (simp add: response_header_def response_headers_def render_headers_def)

lemma value_ok_dec_nat: "value_ok (dec_nat n)"
proof -
  have "visible c" if "c \<in> set (dec_nat n)" for c using that dec_nat_digits decimal_digit by blast
  moreover have "dec_nat n \<noteq> []" by simp
  ultimately show ?thesis by (simp add: value_ok_def header_ok_def visible_def [of "CHR ''x''"] list_all_iff)
qed

lemma response_headers_ok: "value_ok ctype \<Longrightarrow> list_all header_ok (response_headers status ctype n)"
  unfolding response_headers_def
  by (simp add: header_ok_name [of _ "dec_nat n"] header_ok_name [of _ ctype] value_ok_dec_nat)
     (simp add: header_ok_def visible_def security_policy_def)

lemma status_line_ok:
  "list_all (\<lambda>c. code c < 128 \<and> code c \<noteq> 10) (''HTTP/1.1 '' @ dec_int status @ '' '' @ status_reason status)"
proof -
  have "code c < 128 \<and> code c \<noteq> 10" if "c \<in> set (dec_nat k)" for c k
    using that dec_nat_digits [of c k] decimal_digit [of c] visible_facts [of c] by blast
  then have "list_all (\<lambda>c. code c < 128 \<and> code c \<noteq> 10) (dec_int status)" by (simp add: dec_int_def list_all_iff)
  moreover have "list_all (\<lambda>c. code c < 128 \<and> code c \<noteq> 10) (status_reason status)"
    by (simp add: status_reason_def get_default_def)
  ultimately show ?thesis by simp
qed

text \<open>
  A response is framed correctly. A client that reads the status line and the headers the way
  the server does finds the status, the content type and a content length that is the length of
  exactly the body that follows.
\<close>

theorem response_roundtrip:
  assumes "value_ok ct" "len (response_header st ct (length b)) \<le> mx" "length (dec_nat (length b)) \<le> max_str_digits"
  shows "\<exists>r hs. readline mx en (write_response (st, ct, b)) =
      Inr (utf8_encode ((''HTTP/1.1 '' @ dec_int st @ '' '' @ status_reason st) @ crlf), r) \<and>
    read_headers mx en r 0 [] = Inr (Inr (hs, b)) \<and> body_length hs = len b \<and>
    map_of hs (points ''content-type'') = Some (points ct)"
proof -
  define sl hd where "sl = ''HTTP/1.1 '' @ dec_int st @ '' '' @ status_reason st"
    and "hd = response_headers st ct (length b)"
  have w: "response_header st ct (length b) = sl @ crlf @ render_headers hd @ crlf"
    unfolding sl_def hd_def by (rule response_header_rendered)
  let ?r = "utf8_encode (render_headers hd @ crlf) @ b"
  have "write_response (st, ct, b) = utf8_encode (sl @ crlf) @ ?r"
    unfolding write_response_def by (simp add: w)
  moreover have "readline mx en (utf8_encode (sl @ crlf) @ ?r) = Inr (utf8_encode (sl @ crlf), ?r)"
    using assms(2) w status_line_ok [of st, folded sl_def] by (intro readline_line) simp_all
  moreover have "read_headers mx en ?r 0 [] = Inr (Inr (parsed_headers hd [], b))"
    using assms(2) w by (intro read_rendered_headers) (simp_all add: hd_def response_headers_ok assms(1))
  moreover have "map_of (parsed_headers hd []) (points ''content-type'') = Some (points ct)"
    "map_of (parsed_headers hd []) (points ''content-length'') = Some (points (dec_nat (length b)))"
    unfolding hd_def response_headers_def
    by (simp_all add: parsed_headers_def lower_def lower_point_def points_def)
  then have "body_length (parsed_headers hd []) = len b"
    by (simp add: body_length_def get_default_def int_of_text_dec_nat [OF assms(3)])
  ultimately show ?thesis using \<open>map_of (parsed_headers hd []) (points ''content-type'') = Some (points ct)\<close>
    unfolding sl_def by auto
qed

subsection \<open>Concrete instances\<close>

definition sample_token :: string where
  "sample_token = replicate 32 (CHR ''t'')"

definition sample_server :: http_server where
  "sample_server = \<lparr>hs_host = ''127.0.0.1'', hs_port = 9102,
     hs_handler = (\<lambda>m p. Inr (200, ''text/plain'', [79, 75])), hs_security = default_security_config,
     hs_token = Some sample_token, hs_listening = False, hs_closed = False\<rparr>"

theorem http_binding_guarded_witness:
  "(10 \<noteq> (127 :: nat) \<longrightarrow> hs_token (sample_server\<lparr>hs_host := dotted 10 0 0 1\<rparr>) \<noteq> None) \<and>
   (\<forall>t. hs_token (sample_server\<lparr>hs_host := dotted 10 0 0 1\<rparr>) = Some t \<longrightarrow> 32 \<le> length t)"
proof (rule http_binding_guarded)
  show "HttpServer (dotted 10 0 0 1) 9102 (\<lambda>m p. Inr (200, ''text/plain'', [79, 75])) default_security_config
      (Some sample_token) = Inr (sample_server\<lparr>hs_host := dotted 10 0 0 1\<rparr>)"
    by (simp add: HttpServer_def sample_server_def sample_token_def)
qed simp_all

theorem http_token_required_witness:
  "http_handle_client sample_server Closed [71, 13, 10] None None =
   http_handle_client (sample_server\<lparr>hs_handler := (\<lambda>m p. Inl KeyError)\<rparr>) Closed [71, 13, 10] None None"
proof -
  have "\<not> names_token [71, 13, 10] sample_token"
  proof
    assume "names_token [71, 13, 10] sample_token"
    then obtain p q where "[71, 13, 10] = p @ utf8_encode (''Bearer '' @ sample_token) @ q"
      unfolding names_token_def by blast
    from arg_cong [OF this, of length] have "length (utf8_encode (''Bearer '' @ sample_token)) \<le> 3"
      unfolding length_append by simp
    then show False using length_utf8_encode [of "''Bearer '' @ sample_token"] by (simp add: sample_token_def)
  qed
  from http_token_required [OF _ this, of sample_server Closed None None] show ?thesis
    by (simp add: sample_server_def)
qed

theorem http_reads_bounded_witness:
  "http_handle_client (sample_server\<lparr>hs_security := default_security_config\<lparr>max_http_headers := 1, max_http_body := 1\<rparr>\<rparr>)
     Closed ([65, 65, 65, 65] @ [10]) None None =
   http_handle_client (sample_server\<lparr>hs_security := default_security_config\<lparr>max_http_headers := 1, max_http_body := 1\<rparr>\<rparr>)
     Stalled ([65, 65, 65, 65] @ []) None None"
  by (rule http_reads_bounded) simp_all

theorem http_serves_witness:
  "http_handle_client sample_server Stalled
     (utf8_encode (render_request ''GET'' ''/status'' [(''Authorization'', ''Bearer '' @ sample_token)]) @ []) None None =
   (write_response (200, ''text/plain'', [79, 75]), None)"
  by (rule http_serves)
     (simp_all add: word_ok_def visible_def header_ok_def sample_token_def sample_server_def default_security_config_def
       render_request_def render_headers_def parsed_headers_def lower_def lower_point_def points_def list_all_iff)


theorem response_roundtrip_witness:
  "\<exists>r hs. readline 1000 Closed (write_response (200, ''text/plain'', [79, 75])) =
      Inr (utf8_encode ((''HTTP/1.1 '' @ dec_int 200 @ '' '' @ status_reason 200) @ crlf), r) \<and>
    read_headers 1000 Closed r 0 [] = Inr (Inr (hs, [79, 75])) \<and> body_length hs = len [79 :: byte, 75] \<and>
    map_of hs (points ''content-type'') = Some (points ''text/plain'')"
  by (rule response_roundtrip)
     (simp_all add: value_ok_def header_ok_def visible_def response_header_def crlf_def security_policy_def
       dec_int_def dec_nat.simps status_reason_def get_default_def max_str_digits_def)

end
