(* ===== verification/Dashboard_Page.thy ===== *)
theory Dashboard_Page
  imports Http_Server
begin

section \<open>The text of the dashboard (exporter.py)\<close>

text \<open>
  The HTML page of \<^verbatim>\<open>get_dashboard_html\<close>, line by line, in parts that take the values inserted into
  them. The style sheet is in the page, so it is here as well. The title holds a dash that is not
  a character of \<open>string\<close>; the page is put together from the parts in the theory of the exporter.
\<close>

definition text_lines :: "string list \<Rightarrow> string" where
  "text_lines ls = concat (map (\<lambda>l. l @ [CHR 0x0A]) ls)"

definition page_open :: "string" where
  "page_open = text_lines
     [''<!DOCTYPE html>'',
      ''<html lang=\"en\">'',
      ''<head>'',
      ''  <meta charset=\"UTF-8\">'',
      ''  <meta name=\"viewport\" content=\"width=device-width, initial-scale=1.0\">'',
      ''  <meta http-equiv=\"refresh\" content=\"3\">'']"

definition page_style :: "string" where
  "page_style = text_lines
     [''  <style>'',
      ''    :root {'',
      ''      --bg: #0b0f19;'',
      ''      --card-bg: #111827;'',
      ''      --card-border: #1f2937;'',
      ''      --text: #f3f4f6;'',
      ''      --text-muted: #9ca3af;'',
      ''      --primary: #3b82f6;'',
      ''      --success: #10b981;'',
      ''      --warning: #f59e0b;'',
      ''      --danger: #ef4444;'',
      ''      --code-bg: #1e293b;'',
      ''    }'',
      ''    * { box-sizing: border-box; margin: 0; padding: 0; }'',
      ''    body {'',
      ''      font-family: -apple-system, BlinkMacSystemFont, \"Segoe UI\", Roboto, Helvetica, sans-serif;'',
      ''      background-color: var(--bg);'',
      ''      color: var(--text);'',
      ''      line-height: 1.5;'',
      ''      padding: 1.5rem;'',
      ''    }'',
      ''    header {'',
      ''      display: flex;'',
      ''      justify-content: space-between;'',
      ''      align-items: center;'',
      ''      padding-bottom: 1.5rem;'',
      ''      border-bottom: 1px solid var(--card-border);'',
      ''      margin-bottom: 1.5rem;'',
      ''      flex-wrap: wrap;'',
      ''      gap: 1rem;'',
      ''    }'',
      ''    .brand {'',
      ''      display: flex;'',
      ''      align-items: center;'',
      ''      gap: 0.75rem;'',
      ''    }'',
      ''    .brand h1 {'',
      ''      font-size: 1.5rem;'',
      ''      font-weight: 700;'',
      ''      letter-spacing: -0.025em;'',
      ''    }'',
      ''    .node-tag {'',
      ''      background: var(--code-bg);'',
      ''      padding: 0.25rem 0.6rem;'',
      ''      border-radius: 6px;'',
      ''      font-family: ui-monospace, monospace;'',
      ''      font-size: 0.9rem;'',
      ''      border: 1px solid var(--card-border);'',
      ''    }'',
      ''    .nav-links {'',
      ''      display: flex;'',
      ''      gap: 0.75rem;'',
      ''    }'',
      ''    .nav-links a {'',
      ''      color: var(--primary);'',
      ''      text-decoration: none;'',
      ''      font-size: 0.875rem;'',
      ''      background: var(--card-bg);'',
      ''      padding: 0.35rem 0.75rem;'',
      ''      border-radius: 6px;'',
      ''      border: 1px solid var(--card-border);'',
      ''      transition: background 0.15s;'',
      ''    }'',
      ''    .nav-links a:hover {'',
      ''      background: var(--card-border);'',
      ''    }'',
      ''    .grid-4 {'',
      ''      display: grid;'',
      ''      grid-template-columns: repeat(auto-fit, minmax(200px, 1fr));'',
      ''      gap: 1rem;'',
      ''      margin-bottom: 1.5rem;'',
      ''    }'',
      ''    .stat-card {'',
      ''      background: var(--card-bg);'',
      ''      border: 1px solid var(--card-border);'',
      ''      border-radius: 8px;'',
      ''      padding: 1rem 1.25rem;'',
      ''    }'',
      ''    .stat-card .label {'',
      ''      font-size: 0.8rem;'',
      ''      color: var(--text-muted);'',
      ''      text-transform: uppercase;'',
      ''      letter-spacing: 0.05em;'',
      ''      margin-bottom: 0.25rem;'',
      ''    }'',
      ''    .stat-card .value {'',
      ''      font-size: 1.75rem;'',
      ''      font-weight: 700;'',
      ''    }'',
      ''    .grid-2 {'',
      ''      display: grid;'',
      ''      grid-template-columns: repeat(auto-fit, minmax(400px, 1fr));'',
      ''      gap: 1.5rem;'',
      ''      margin-bottom: 1.5rem;'',
      ''    }'',
      ''    .panel {'',
      ''      background: var(--card-bg);'',
      ''      border: 1px solid var(--card-border);'',
      ''      border-radius: 8px;'',
      ''      padding: 1.25rem;'',
      ''    }'',
      ''    .panel h2 {'',
      ''      font-size: 1.1rem;'',
      ''      font-weight: 600;'',
      ''      margin-bottom: 1rem;'',
      ''      border-bottom: 1px solid var(--card-border);'',
      ''      padding-bottom: 0.5rem;'',
      ''      display: flex;'',
      ''      justify-content: space-between;'',
      ''      align-items: center;'',
      ''    }'',
      ''    .badge {'',
      ''      display: inline-flex;'',
      ''      align-items: center;'',
      ''      gap: 0.35rem;'',
      ''      padding: 0.25rem 0.6rem;'',
      ''      border-radius: 9999px;'',
      ''      font-size: 0.8rem;'',
      ''      font-weight: 500;'',
      ''      margin: 0.2rem;'',
      ''    }'',
      ''    .badge-success {'',
      ''      background: rgba(16, 185, 129, 0.15);'',
      ''      color: #34d399;'',
      ''      border: 1px solid rgba(16, 185, 129, 0.3);'',
      ''    }'',
      ''    .badge-warning {'',
      ''      background: rgba(245, 158, 11, 0.15);'',
      ''      color: #fbbf24;'',
      ''      border: 1px solid rgba(245, 158, 11, 0.3);'',
      ''    }'',
      ''    .badge-neutral {'',
      ''      background: var(--code-bg);'',
      ''      color: var(--text);'',
      ''      border: 1px solid var(--card-border);'',
      ''    }'',
      ''    .dot { width: 8px; height: 8px; border-radius: 50%; display: inline-block; }'',
      ''    .dot-green { background-color: var(--success); }'',
      ''    .dot-amber { background-color: var(--warning); }'',
      ''    .state-grid {'',
      ''      display: grid;'',
      ''      grid-template-columns: repeat(3, 1fr);'',
      ''      gap: 0.75rem;'',
      ''      margin-bottom: 1rem;'',
      ''    }'',
      ''    .state-box {'',
      ''      background: var(--code-bg);'',
      ''      border-radius: 6px;'',
      ''      padding: 0.75rem;'']"

definition page_style_end :: "string" where
  "page_style_end = text_lines
     [''      text-align: center;'',
      ''    }'',
      ''    .state-box .name { font-size: 0.75rem; color: var(--text-muted); text-transform: uppercase; }'',
      ''    .state-box .count { font-size: 1.3rem; font-weight: 700; }'',
      ''    table {'',
      ''      width: 100%;'',
      ''      border-collapse: collapse;'',
      ''      font-size: 0.875rem;'',
      ''    }'',
      ''    th, td {'',
      ''      padding: 0.6rem 0.75rem;'',
      ''      text-align: left;'',
      ''      border-bottom: 1px solid var(--card-border);'',
      ''    }'',
      ''    th { color: var(--text-muted); font-weight: 500; }'',
      ''    code {'',
      ''      font-family: ui-monospace, monospace;'',
      ''      background: var(--code-bg);'',
      ''      padding: 0.1rem 0.3rem;'',
      ''      border-radius: 4px;'',
      ''    }'',
      ''    .text-muted { color: var(--text-muted); font-size: 0.875rem; font-style: italic; }'',
      ''    footer {'',
      ''      margin-top: 2rem;'',
      ''      padding-top: 1rem;'',
      ''      border-top: 1px solid var(--card-border);'',
      ''      text-align: center;'',
      ''      color: var(--text-muted);'',
      ''      font-size: 0.8rem;'',
      ''    }'',
      ''  </style>'']"

definition page_banner :: "string \<Rightarrow> string" where
  "page_banner node_id = text_lines
     [''</head>'',
      ''<body>'',
      ''  <header>'',
      ''    <div class=\"brand\">'',
      ''      <h1>PeerQ Mesh</h1>'',
      ''      <span class=\"node-tag\">Node: '' @ node_id @ ''</span>'',
      ''      <span class=\"badge badge-success\"><span class=\"dot dot-green\"></span>Active</span>'',
      ''    </div>'',
      ''    <div class=\"nav-links\">'',
      ''      <a href=\"/status\" target=\"_blank\">JSON Status</a>'',
      ''      <a href=\"/metrics\" target=\"_blank\">Prometheus Metrics</a>'',
      ''      <a href=\"/healthz\" target=\"_blank\">Healthz</a>'',
      ''    </div>'',
      ''  </header>'',
      []]"

definition stat_cards :: "string \<Rightarrow> string \<Rightarrow> string \<Rightarrow> string \<Rightarrow> string \<Rightarrow> string" where
  "stat_cards total_tasks depth leases live known = text_lines
     [''  <div class=\"grid-4\">'',
      ''    <div class=\"stat-card\">'',
      ''      <div class=\"label\">Total Tasks</div>'',
      ''      <div class=\"value\">'' @ total_tasks @ ''</div>'',
      ''    </div>'',
      ''    <div class=\"stat-card\">'',
      ''      <div class=\"label\">Queue Depth</div>'',
      ''      <div class=\"value\">'' @ depth @ ''</div>'',
      ''    </div>'',
      ''    <div class=\"stat-card\">'',
      ''      <div class=\"label\">Active Leases</div>'',
      ''      <div class=\"value\">'' @ leases @ ''</div>'',
      ''    </div>'',
      ''    <div class=\"stat-card\">'',
      ''      <div class=\"label\">Live Peers</div>'',
      ''      <div class=\"value\">'',
      ''        '' @ live,
      ''        <span style=\"font-size: 0.8rem; color: var(--text-muted);\">/ '' @ known @ ''</span>'',
      ''      </div>'',
      ''    </div>'',
      ''  </div>'',
      []]"

definition state_panel :: "(string \<Rightarrow> string) \<Rightarrow> (string \<Rightarrow> string) \<Rightarrow> string" where
  "state_panel by_state counter = text_lines
     [''  <div class=\"grid-2\">'',
      ''    <div class=\"panel\">'',
      ''      <h2>Task State Distribution</h2>'',
      ''      <div class=\"state-grid\">'',
      ''        <div class=\"state-box\">'',
      ''          <div class=\"name\">Submitted</div>'',
      ''          <div class=\"count\">'' @ by_state ''submitted'' @ ''</div>'',
      ''        </div>'',
      ''        <div class=\"state-box\">'',
      ''          <div class=\"name\">Claimed</div>'',
      ''          <div class=\"count\">'' @ by_state ''claimed'' @ ''</div>'',
      ''        </div>'',
      ''        <div class=\"state-box\">'',
      ''          <div class=\"name\">Running</div>'',
      ''          <div class=\"count\">'' @ by_state ''running'' @ ''</div>'',
      ''        </div>'',
      ''        <div class=\"state-box\">'',
      ''          <div class=\"name\">Completed</div>'',
      ''          <div class=\"count\" style=\"color: var(--success);\">'' @ by_state ''completed'' @ ''</div>'',
      ''        </div>'',
      ''        <div class=\"state-box\">'',
      ''          <div class=\"name\">Failed</div>'',
      ''          <div class=\"count\" style=\"color: var(--danger);\">'' @ by_state ''failed'' @ ''</div>'',
      ''        </div>'',
      ''        <div class=\"state-box\">'',
      ''          <div class=\"name\">Timed Out</div>'',
      ''          <div class=\"count\">'' @ by_state ''timed_out'' @ ''</div>'',
      ''        </div>'',
      ''      </div>'',
      ''      <div style=\"font-size: 0.85rem; color: var(--text-muted);\">'',
      ''        Enqueued: '' @ counter ''enqueued'' @ '' | Claimed: '' @ counter ''claimed'' @
        '' | Completed: '' @ counter ''completed'' @ '' | Failed: '' @ counter ''failed'',
      ''        | Reclaimed: '' @ counter ''reclaimed'' @ '' | Rejected: '' @ counter ''rejected'',
      ''      </div>'',
      ''    </div>'']"

definition topology_panel :: "string \<Rightarrow> string \<Rightarrow> string" where
  "topology_panel peers credits_text = text_lines
     [[],
      ''    <div class=\"panel\">'',
      ''      <h2>Cluster Topology</h2>'',
      ''      <div style=\"margin-bottom: 1rem;\">'',
      ''        '' @ peers,
      ''      </div>'',
      ''      <h2>Flow Control Credits</h2>'',
      ''      <div>'',
      ''        '' @ credits_text,
      ''      </div>'',
      ''    </div>'',
      ''  </div>'',
      []]"

definition lease_panel :: "string \<Rightarrow> string" where
  "lease_panel table = text_lines
     [''  <div class=\"grid-2\">'',
      ''    <div class=\"panel\">'',
      ''      <h2>Active Task Leases</h2>'',
      ''      '' @ table,
      ''    </div>'',
      []]"

definition clock_panel :: "string \<Rightarrow> string \<Rightarrow> string \<Rightarrow> string \<Rightarrow> string \<Rightarrow> string" where
  "clock_panel vclock task_p50 task_p99 gossip_p50 gossip_p99 = text_lines
     [''    <div class=\"panel\">'',
      ''      <h2>Vector Clock & Latencies</h2>'',
      ''      <div style=\"margin-bottom: 1rem;\">'',
      ''        <strong>Vector Clock:</strong><br>'',
      ''        '' @ vclock,
      ''      </div>'',
      ''      <div>'',
      ''        <strong>Execution Latencies:</strong><br>'',
      ''        <table>'',
      ''          <tr>'',
      ''            <td>Task Latency (p50 / p99)</td>'',
      ''            <td><code>'' @ task_p50 @ ''</code> / <code>'' @ task_p99 @ ''</code></td>'',
      ''          </tr>'',
      ''          <tr>'',
      ''            <td>Gossip Latency (p50 / p99)</td>'',
      ''            <td><code>'' @ gossip_p50 @ ''</code> / <code>'' @ gossip_p99 @ ''</code></td>'',
      ''          </tr>'',
      ''        </table>'',
      ''      </div>'',
      ''    </div>'',
      ''  </div>'',
      []]"

definition page_end :: "string \<Rightarrow> string" where
  "page_end now = text_lines
     [''  <footer>'',
      ''    PeerQ Leaderless Distributed Task Mesh &bull; Local clock: '' @ now @ ''s &bull; Auto-refreshing'',
      ''  </footer>'',
      ''</body>'',
      ''</html>'']"

end
