(* ===== verification/Json_Indent.thy ===== *)
theory Json_Indent
  imports Json
begin

section \<open>Indented JSON\<close>

text \<open>
  \<^verbatim>\<open>json.dumps(data, indent=2, sort_keys=True)\<close>, the text of the status document, and that
  \<^verbatim>\<open>json.loads\<close> reads it back.
\<close>

definition newline_indent :: "nat \<Rightarrow> string" where
  "newline_indent k = CHR 0x0A # replicate (2 * k) (CHR '' '')"

fun dump_indent :: "(real \<Rightarrow> string) \<Rightarrow> nat \<Rightarrow> json \<Rightarrow> string"
  and indent_elems :: "(real \<Rightarrow> string) \<Rightarrow> nat \<Rightarrow> json list \<Rightarrow> string"
  and indent_members :: "(real \<Rightarrow> string) \<Rightarrow> nat \<Rightarrow> (string \<times> json) list \<Rightarrow> string" where
  "dump_indent fr k (JList []) = ''[]''"
| "dump_indent fr k (JList (x # xs)) =
     ''['' @ newline_indent (Suc k) @ indent_elems fr (Suc k) (x # xs) @ newline_indent k @ '']''"
| "dump_indent fr k (JDict []) = ''{}''"
| "dump_indent fr k (JDict (m # ms)) =
     ''{'' @ newline_indent (Suc k) @ indent_members fr (Suc k) (m # ms) @ newline_indent k @ ''}''"
| "dump_indent fr k j = dump fr True j"
| "indent_elems fr k [] = []"
| "indent_elems fr k [x] = dump_indent fr k x"
| "indent_elems fr k (x # y # ys) = dump_indent fr k x @ '','' @ newline_indent k @ indent_elems fr k (y # ys)"
| "indent_members fr k [] = []"
| "indent_members fr k [(key, v)] = quote True key @ '': '' @ dump_indent fr k v"
| "indent_members fr k ((key, v) # m # ms) =
     quote True key @ '': '' @ dump_indent fr k v @ '','' @ newline_indent k @ indent_members fr k (m # ms)"

definition dumps_indent :: "(real \<Rightarrow> string) \<Rightarrow> json \<Rightarrow> string result" where
  "dumps_indent fr j = (if dumpable j then Inr (dump_indent fr 0 (sort_json j)) else Inl ValueError)"

lemma skip_ws_indent [simp]: "skip_ws (newline_indent k @ s) = skip_ws s"
proof -
  have "skip_ws (replicate m (CHR '' '') @ s) = skip_ws s" for m
    by (induction m) (simp_all add: skip_ws_def is_ws_def)
  moreover have "skip_ws (CHR 0x0A # t) = skip_ws t" for t by (simp add: skip_ws_def is_ws_def)
  ultimately show ?thesis by (simp add: newline_indent_def)
qed

lemma skip_ws_space [simp]: "skip_ws (CHR '' '' # s) = skip_ws s"
  by (simp add: skip_ws_def is_ws_def)

lemma delim_indent [simp]: "delim (newline_indent k @ s)"
  by (simp add: newline_indent_def)

lemma dump_indent_start:
  assumes "printable fr pf j"
  shows "\<exists>c t. dump_indent fr k j = c # t \<and> value_start c"
proof (cases j)
  case (JList xs)
  then show ?thesis by (cases xs) (simp_all add: value_start_simps)
next
  case (JDict d)
  then show ?thesis by (cases d) (simp_all add: value_start_simps)
qed (use dump_start [OF assms, of True] in simp_all)

lemma skip_ws_dump_indent: "printable fr pf j \<Longrightarrow> skip_ws (dump_indent fr k j @ s) = dump_indent fr k j @ s"
  using dump_indent_start [of fr pf j k] by (auto simp: skip_ws_start)

lemma indent_elems_start:
  assumes "xs \<noteq> []" "\<forall>x \<in> set xs. printable fr pf x"
  shows "\<exists>c t. indent_elems fr k xs = c # t \<and> value_start c"
proof -
  obtain x ys where xs: "xs = x # ys" using assms(1) by (cases xs) auto
  obtain c t where "dump_indent fr k x = c # t" "value_start c"
    using dump_indent_start [of fr pf x k] assms(2) xs by auto
  with xs show ?thesis by (cases ys) auto
qed

lemma indent_members_start: "ms \<noteq> [] \<Longrightarrow> \<exists>t. indent_members fr k ms = CHR 0x22 # t"
  by (cases "(fr, k, ms)" rule: indent_members.cases) (auto simp: quote_def)

text \<open>One element or member and its separator.\<close>

lemma parse_elems_ws:
  assumes "parse_value pf n s = Some (x, r)"
  shows "skip_ws r = CHR '']'' # rest \<Longrightarrow> parse_elems pf (Suc n) s = Some ([x], rest)"
    "skip_ws r = CHR '','' # t \<Longrightarrow> parse_elems pf n (skip_ws t) = Some (xs, rest) \<Longrightarrow>
      parse_elems pf (Suc n) s = Some (x # xs, rest)"
  using assms by (simp_all add: parse_elems.simps cons_fst_def)

lemma parse_members_ws:
  assumes "parse_value pf n (skip_ws s) = Some (v, r)"
  shows "skip_ws r = CHR 0x7D # rest \<Longrightarrow> parse_members pf (Suc n) (quote a key @ CHR '':'' # s) = Some ([(key, v)], rest)"
    "skip_ws r = CHR '','' # t \<Longrightarrow> parse_members pf n (skip_ws t) = Some (ms, rest) \<Longrightarrow>
      parse_members pf (Suc n) (quote a key @ CHR '':'' # s) = Some ((key, v) # ms, rest)"
proof -
  obtain u where "quote a key @ CHR '':'' # s = CHR 0x22 # u" "scan_str u = Some (key, CHR '':'' # s)"
    using scan_str_quote [of a key "CHR '':'' # s"] by blast
  with assms show "skip_ws r = CHR 0x7D # rest \<Longrightarrow> parse_members pf (Suc n) (quote a key @ CHR '':'' # s) = Some ([(key, v)], rest)"
    "skip_ws r = CHR '','' # t \<Longrightarrow> parse_members pf n (skip_ws t) = Some (ms, rest) \<Longrightarrow>
      parse_members pf (Suc n) (quote a key @ CHR '':'' # s) = Some ((key, v) # ms, rest)"
    by (simp_all add: parse_members.simps cons_fst_def)
qed

lemma parse_value_open:
  assumes "skip_ws s = c # t"
  shows "value_start c \<Longrightarrow> parse_elems pf n (c # t) = Some (xs, rest) \<Longrightarrow>
      parse_value pf (Suc n) (CHR ''['' # s) = Some (JList xs, rest)"
    "c = CHR 0x22 \<Longrightarrow> parse_members pf n (c # t) = Some (ms, rest) \<Longrightarrow>
      parse_value pf (Suc n) (CHR 0x7B # s) = Some (JDict (dict_of_pairs ms), rest)"
  using assms by (simp_all add: parse_value.simps value_start_def)

lemma parse_indent:
  "\<And>n rest. printable fr pf j \<Longrightarrow> delim rest \<Longrightarrow> 2 * length (dump_indent fr k j) \<le> n \<Longrightarrow>
     parse_value pf n (dump_indent fr k j @ rest) = Some (j, rest)"
  "\<And>n rest i. xs \<noteq> [] \<Longrightarrow> \<forall>x \<in> set xs. printable fr pf x \<Longrightarrow> 2 * length (indent_elems fr k xs) < n \<Longrightarrow>
     parse_elems pf n (indent_elems fr k xs @ newline_indent i @ CHR '']'' # rest) = Some (xs, rest)"
  "\<And>n rest i. ms \<noteq> [] \<Longrightarrow> \<forall>v \<in> snd ` set ms. printable fr pf v \<Longrightarrow> 2 * length (indent_members fr k ms) < n \<Longrightarrow>
     parse_members pf n (indent_members fr k ms @ newline_indent i @ CHR 0x7D # rest) = Some (ms, rest)"
proof (induction fr k j and fr k xs and fr k ms rule: dump_indent_indent_elems_indent_members.induct)
  case (1 fr k)
  then show ?case by (cases n) (simp_all add: parse_value_empty [simplified])
next
  case (2 fr k x xs)
  have pr: "\<forall>x \<in> set (x # xs). printable fr pf x" using 2(2) by (simp add: printable_simps)
  obtain c t where ct: "indent_elems fr (Suc k) (x # xs) = c # t" "value_start c"
    using indent_elems_start [OF _ pr] by blast
  obtain m where m: "n = Suc m" "2 * length (indent_elems fr (Suc k) (x # xs)) < m" using 2(4) by (cases n) auto
  have "parse_elems pf m (c # t @ newline_indent k @ CHR '']'' # rest) = Some (x # xs, rest)"
    using 2(1) [OF _ pr m(2), of k rest] ct(1) by simp
  from parse_value_open(1) [OF _ ct(2) this, of "newline_indent (Suc k) @ c # t @ newline_indent k @ CHR '']'' # rest"]
  show ?case using ct m(1) by (simp add: skip_ws_start)
next
  case (3 fr k)
  then show ?case by (cases n) (simp_all add: parse_value_empty [simplified])
next
  case (4 fr k p ps)
  have pr: "\<forall>v \<in> snd ` set (p # ps). printable fr pf v" "distinct (keys (p # ps))"
    using 4(2) unfolding printable_simps by auto
  obtain t where t: "indent_members fr (Suc k) (p # ps) = CHR 0x22 # t" using indent_members_start by blast
  obtain m where m: "n = Suc m" "2 * length (indent_members fr (Suc k) (p # ps)) < m" using 4(4) by (cases n) auto
  have "parse_members pf m (CHR 0x22 # t @ newline_indent k @ CHR 0x7D # rest) = Some (p # ps, rest)"
    using 4(1) [OF _ pr(1) m(2), of k rest] t by simp
  from parse_value_open(2) [OF _ refl this, of "newline_indent (Suc k) @ CHR 0x22 # t @ newline_indent k @ CHR 0x7D # rest"]
  show ?case using t m(1) by (simp add: dict_of_pairs_distinct [OF pr(2)])
next
  case (7 fr k x)
  then obtain m where m: "n = Suc m" "2 * length (dump_indent fr k x) \<le> m" by (cases n) auto
  have "parse_value pf m (dump_indent fr k x @ newline_indent i @ CHR '']'' # rest) =
      Some (x, newline_indent i @ CHR '']'' # rest)"
    using 7(3) m(2) by (intro 7(1)) simp_all
  from parse_elems_ws(1) [OF this] show ?case by (simp add: m(1))
next
  case (8 fr k x y ys)
  have pr: "printable fr pf x" "\<forall>x \<in> set (y # ys). printable fr pf x" using 8(4) by simp_all
  obtain m where m: "n = Suc m" "2 * length (dump_indent fr k x) \<le> m" "2 * length (indent_elems fr k (y # ys)) < m"
    using 8(5) by (cases n) auto
  let ?tail = "indent_elems fr k (y # ys) @ newline_indent i @ CHR '']'' # rest"
  have v: "parse_value pf m (dump_indent fr k x @ CHR '','' # newline_indent k @ ?tail) =
      Some (x, CHR '','' # newline_indent k @ ?tail)"
    by (rule 8(1) [OF pr(1) _ m(2)]) simp
  obtain c t where "indent_elems fr k (y # ys) = c # t" "value_start c" using indent_elems_start [OF _ pr(2)] by blast
  then have "skip_ws (newline_indent k @ ?tail) = ?tail" by (simp add: skip_ws_start)
  with 8(2) [OF _ pr(2) m(3), of i rest] have "parse_elems pf m (skip_ws (newline_indent k @ ?tail)) = Some (y # ys, rest)" by simp
  from parse_elems_ws(2) [OF v _ this] show ?case by (simp add: m(1))
next
  case (10 fr k key v)
  have pr: "printable fr pf v" using 10(3) by simp
  obtain m where m: "n = Suc m" "2 * length (dump_indent fr k v) \<le> m" using 10(4) by (cases n) auto
  have "parse_value pf m (dump_indent fr k v @ newline_indent i @ CHR 0x7D # rest) =
      Some (v, newline_indent i @ CHR 0x7D # rest)"
    by (rule 10(1) [OF pr _ m(2)]) simp
  then have "parse_value pf m (skip_ws (CHR '' '' # dump_indent fr k v @ newline_indent i @ CHR 0x7D # rest)) =
      Some (v, newline_indent i @ CHR 0x7D # rest)"
    using skip_ws_dump_indent [OF pr, of k] by simp
  from parse_members_ws(1) [OF this] show ?case by (simp add: m(1))
next
  case (11 fr k key v p ps)
  have pr: "printable fr pf v" "\<forall>v \<in> snd ` set (p # ps). printable fr pf v" using 11(4) by simp_all
  obtain m where m: "n = Suc m" "2 * length (dump_indent fr k v) \<le> m" "2 * length (indent_members fr k (p # ps)) < m"
    using 11(5) by (cases n) auto
  let ?tail = "indent_members fr k (p # ps) @ newline_indent i @ CHR 0x7D # rest"
  have "parse_value pf m (dump_indent fr k v @ CHR '','' # newline_indent k @ ?tail) =
      Some (v, CHR '','' # newline_indent k @ ?tail)"
    by (rule 11(1) [OF pr(1) _ m(2)]) simp
  then have v: "parse_value pf m (skip_ws (CHR '' '' # dump_indent fr k v @ CHR '','' # newline_indent k @ ?tail)) =
      Some (v, CHR '','' # newline_indent k @ ?tail)"
    using skip_ws_dump_indent [OF pr(1), of k] by simp
  obtain t where "indent_members fr k (p # ps) = CHR 0x22 # t" using indent_members_start by blast
  then have "skip_ws (newline_indent k @ ?tail) = ?tail" by simp
  with 11(2) [OF _ pr(2) m(3), of i rest] have "parse_members pf m (skip_ws (newline_indent k @ ?tail)) = Some (p # ps, rest)" by simp
  from parse_members_ws(2) [OF v _ this] show ?case by (simp add: m(1))
qed (simp_all add: parse_dump(1) del: dump.simps)

lemma loads_dumps_indent:
  assumes "printable fr pf j"
  shows "\<exists>t. dumps_indent fr j = Inr t \<and> loads pf t = Some (sort_json j)"
proof -
  have pr: "printable fr pf (sort_json j)" using assms by (simp add: printable_sort_json)
  let ?t = "dump_indent fr 0 (sort_json j)"
  have "parse_value pf (2 * length ?t + 1) (?t @ []) = Some (sort_json j, [])"
    using pr by (intro parse_indent) simp_all
  then have "loads pf ?t = Some (sort_json j)" using skip_ws_dump_indent [OF pr, of 0 "[]"] by (simp add: loads_def)
  moreover have "dumps_indent fr j = Inr ?t" using assms by (simp add: dumps_indent_def printable_def)
  ultimately show ?thesis by blast
qed

end
