(* ===== verification/Exporter.thy ===== *)
theory Exporter
  imports Node_Store Dashboard_Page Json_Indent
begin

section \<open>Metrics exporter and dashboard (exporter.py)\<close>

text \<open>
  What a node shows of itself: the Prometheus text of its counters and latencies, the status
  document, the dashboard, and the routine that answers the requests of the HTTP server. The
  node is only read. Readings of the clock are arguments. Formatting a float rounds half to even
  as for the canonical bytes of a record; an integer of more than 4300 digits cannot be
  formatted.
\<close>

subsection \<open>Formatting\<close>

definition pad_to :: "nat \<Rightarrow> nat \<Rightarrow> string" where
  "pad_to k n = replicate (k - length (dec_nat n)) (CHR ''0'') @ dec_nat n"

text \<open>\<^verbatim>\<open>f"{x:.kf}"\<close>\<close>

definition fmt_fixed :: "nat \<Rightarrow> real \<Rightarrow> string" where
  "fmt_fixed k x =
     (let n = round_real (\<bar>x\<bar> * 10 ^ k)
      in (if x < 0 then ''-'' else []) @ dec_nat (n div 10 ^ k) @ ''.'' @ pad_to k (n mod 10 ^ k))"

text \<open>The quotient of a float and a positive number, formatted.\<close>

fun fmt_quotient :: "nat \<Rightarrow> pyfloat \<Rightarrow> real \<Rightarrow> string" where
  "fmt_quotient k (Fin x) d = fmt_fixed k (x / d)"
| "fmt_quotient k PosInf d = ''inf''"
| "fmt_quotient k NegInf d = ''-inf''"
| "fmt_quotient k NaN d = ''nan''"

definition fmt_int :: "int \<Rightarrow> string result" where
  "fmt_int i = (if length (dec_nat (nat \<bar>i\<bar>)) \<le> max_str_digits then Inr (dec_int i) else Inl ValueError)"

text \<open>A list comprehension whose expression may raise, and \<^verbatim>\<open>sep.join(xs)\<close>.\<close>

fun rmap :: "('a \<Rightarrow> 'b result) \<Rightarrow> 'a list \<Rightarrow> 'b list result" where
  "rmap f [] = Inr []"
| "rmap f (x # xs) = rbind (f x) (\<lambda>y. rbind (rmap f xs) (\<lambda>ys. Inr (y # ys)))"

fun join :: "'a list \<Rightarrow> 'a list list \<Rightarrow> 'a list" where
  "join sep [] = []"
| "join sep [x] = x"
| "join sep (x # y # ys) = x @ sep @ join sep (y # ys)"

subsection \<open>Prometheus text\<close>

definition COUNTER_METRIC_NAMES :: "(string \<times> string \<times> string) list" where
  "COUNTER_METRIC_NAMES =
     [(''enqueued'', ''peerq_tasks_enqueued_total'', ''Total tasks admitted into local queue''),
      (''claimed'', ''peerq_tasks_claimed_total'', ''Total tasks claimed by workers''),
      (''completed'', ''peerq_tasks_completed_total'', ''Total tasks successfully completed''),
      (''failed'', ''peerq_tasks_failed_total'', ''Total tasks that encountered errors''),
      (''reclaimed'', ''peerq_tasks_reclaimed_total'', ''Total tasks reclaimed after lease expiry''),
      (''rejected'', ''peerq_tasks_rejected_total'', ''Total stale task commits rejected by fencing'')]"

definition HISTOGRAM_METRIC_NAMES :: "(string \<times> string \<times> string) list" where
  "HISTOGRAM_METRIC_NAMES =
     [(''task_latency'', ''peerq_task_execution_latency_seconds'', ''Task handler execution latency''),
      (''claim_latency'', ''peerq_claim_latency_seconds'', ''Task claim scheduling latency''),
      (''gossip_latency'', ''peerq_gossip_latency_seconds'', ''Gossip anti-entropy propagation latency'')]"

definition dq :: string where
  "dq = [CHR 0x22]"

definition labels :: "string \<Rightarrow> string" where
  "labels node_id = (if node_id = [] then [] else ''{node='' @ dq @ node_id @ dq @ ''}'')"

definition label_prefix :: "string \<Rightarrow> string" where
  "label_prefix node_id = (if node_id = [] then [] else ''node='' @ dq @ node_id @ dq @ '','')"

definition counter_lines :: "metrics \<Rightarrow> string \<Rightarrow> string \<times> string \<times> string \<Rightarrow> string list result" where
  "counter_lines m node_id entry =
     (case entry of (key, name, help) \<Rightarrow>
        rbind (fmt_int (get_counter m key)) (\<lambda>v.
          Inr [''# HELP '' @ name @ '' '' @ help, ''# TYPE '' @ name @ '' counter'',
               name @ labels node_id @ '' '' @ v]))"

definition quantile_line :: "string \<Rightarrow> string \<Rightarrow> string \<Rightarrow> string \<Rightarrow> string" where
  "quantile_line name node_id q v =
     name @ ''{'' @ label_prefix node_id @ ''quantile='' @ dq @ q @ dq @ ''} '' @ v"

definition histogram_lines :: "metrics \<Rightarrow> string \<Rightarrow> string \<times> string \<times> string \<Rightarrow> string list result" where
  "histogram_lines m node_id entry =
     (case entry of (key, name, help) \<Rightarrow>
        (case get_histogram m key of
           None \<Rightarrow> Inr []
         | Some h \<Rightarrow>
             rbind
               (if hist_count h = 0
                then Inr [quantile_line name node_id ''0.5'' ''0.0'', quantile_line name node_id ''0.95'' ''0.0'',
                          quantile_line name node_id ''0.99'' ''0.0'', name @ ''_count'' @ labels node_id @ '' 0'',
                          name @ ''_sum'' @ labels node_id @ '' 0.0'']
                else rbind (fmt_int (int (hist_count h))) (\<lambda>c.
                       Inr [quantile_line name node_id ''0.5'' (fmt_quotient 6 (quantile h (50 / 100)) (10 ^ 6)),
                            quantile_line name node_id ''0.95'' (fmt_quotient 6 (quantile h (95 / 100)) (10 ^ 6)),
                            quantile_line name node_id ''0.99'' (fmt_quotient 6 (quantile h (99 / 100)) (10 ^ 6)),
                            name @ ''_count'' @ labels node_id @ '' '' @ c,
                            name @ ''_sum'' @ labels node_id @ '' '' @
                              fmt_fixed 6 (hist_mean h * real (hist_count h) / 10 ^ 6)]))
               (\<lambda>ls. Inr ([''# HELP '' @ name @ '' '' @ help, ''# TYPE '' @ name @ '' summary''] @ ls))))"

definition format_prometheus_text :: "metrics \<Rightarrow> string \<Rightarrow> string result" where
  "format_prometheus_text m node_id =
     rbind (rmap (counter_lines m node_id) COUNTER_METRIC_NAMES) (\<lambda>cs.
     rbind (rmap (histogram_lines m node_id) HISTOGRAM_METRIC_NAMES) (\<lambda>hs.
       Inr (join [CHR 0x0A] (concat cs @ concat hs @ [[]]))))"

subsection \<open>Status document\<close>

record lease_entry =
  le_task :: string
  le_claimed_by :: "string option"
  le_epoch :: int
  le_peer :: string
  le_expiry :: real

record cluster_status =
  cs_node :: string
  cs_known :: "string list"
  cs_live :: "string list"
  cs_suspected :: "string list"
  cs_depth :: nat
  cs_credits :: "(string, int) dict"
  cs_total :: nat
  cs_by_state :: "(string, int) dict"
  cs_leases :: "lease_entry list"
  cs_clock :: "(string, int) dict"

definition by_state :: "task_record list \<Rightarrow> (string, int) dict" where
  "by_state ts =
     fold (\<lambda>t d. AList.update (state_value (state t)) (get_default d (state_value (state t)) 0 + 1) d)
       ts (map (\<lambda>s. (state_value s, 0)) task_states)"

definition lease_of :: "task_record \<Rightarrow> lease_entry" where
  "lease_of t = \<lparr>le_task = task_id t, le_claimed_by = claimed_by t, le_epoch = epoch (fence_token t),
     le_peer = fence_peer (fence_token t), le_expiry = lease_expiry t\<rparr>"

definition collect_status :: "py_env \<Rightarrow> node \<Rightarrow> real \<Rightarrow> cluster_status result" where
  "collect_status V n now =
     (let tasks = map snd (all_tasks n)
      in rbind (rmap (\<lambda>p. rbind (suspected V n p now) (\<lambda>s. Inr (p, s))) (n_peers n)) (\<lambda>ps.
         Inr \<lparr>cs_node = n_id n, cs_known = n_peers n,
              cs_live = map fst (filter (\<lambda>x. \<not> snd x) ps), cs_suspected = map fst (filter snd ps),
              cs_depth = qsize (n_queue n),
              cs_credits = fold (\<lambda>p d. AList.update p (get_credits (n_flow n) p) d) (n_peers n) [],
              cs_total = length (all_tasks n), cs_by_state = by_state tasks,
              cs_leases = map lease_of (filter (\<lambda>t. state t = CLAIMED \<or> state t = RUNNING) tasks),
              cs_clock = vc_to_dict (n_clock n)\<rparr>))"

definition lease_json :: "lease_entry \<Rightarrow> json" where
  "lease_json e = JDict
     [(''task_id'', JStr (le_task e)), (''claimed_by'', opt_json JStr (le_claimed_by e)),
      (''fence_epoch'', JInt (le_epoch e)), (''fence_peer'', JStr (le_peer e)),
      (''lease_expiry'', JFloat (Fin (le_expiry e)))]"

definition ints_json :: "(string, int) dict \<Rightarrow> json" where
  "ints_json d = JDict (map (\<lambda>(k, v). (k, JInt v)) d)"

definition status_json :: "cluster_status \<Rightarrow> json" where
  "status_json s = JDict
     [(''node_id'', JStr (cs_node s)),
      (''cluster_topology'', JDict
        [(''known_peers'', JList (map JStr (cs_known s))), (''live_peers'', JList (map JStr (cs_live s))),
         (''suspected_peers'', JList (map JStr (cs_suspected s)))]),
      (''queue'', JDict [(''depth'', JInt (int (cs_depth s))), (''peer_credits'', ints_json (cs_credits s))]),
      (''tasks'', JDict
        [(''total'', JInt (int (cs_total s))), (''by_state'', ints_json (cs_by_state s)),
         (''active_leases'', JList (map lease_json (cs_leases s)))]),
      (''vector_clock'', ints_json (cs_clock s))]"

definition format_cluster_status :: "py_env \<Rightarrow> node \<Rightarrow> real \<Rightarrow> json result" where
  "format_cluster_status V n now = rbind (collect_status V n now) (\<lambda>s. Inr (status_json s))"

subsection \<open>Dashboard\<close>

definition escape_html :: "char \<Rightarrow> string" where
  "escape_html c =
     (if c = CHR ''&'' then ''&amp;''
      else if c = CHR ''<'' then ''&lt;''
      else if c = CHR ''>'' then ''&gt;''
      else if c = CHR 0x22 then ''&quot;''
      else if c = CHR 0x27 then ''&#x27;''
      else [c])"

definition html_escape :: "string \<Rightarrow> string" where
  "html_escape s = concat (map escape_html s)"

definition format_quantile :: "histogram option \<Rightarrow> real \<Rightarrow> string" where
  "format_quantile hist q =
     (case hist of
        None \<Rightarrow> ''N/A''
      | Some h \<Rightarrow> if hist_count h = 0 then ''N/A'' else fmt_quotient 2 (quantile h q) 1000 @ '' ms'')"

definition peer_badge :: "string list \<Rightarrow> string list \<Rightarrow> string \<Rightarrow> string" where
  "peer_badge up down p =
     (if p \<in> set up then
        ''<span class=\"badge badge-success\">'' @ ''<span class=\"dot dot-green\"></span>'' @ p @ '' (live)</span>''
      else if p \<in> set down then
        ''<span class=\"badge badge-warning\">'' @ ''<span class=\"dot dot-amber\"></span>'' @ p @ '' (suspected)</span>''
      else ''<span class=\"badge badge-neutral\">'' @ p @ ''</span>'')"

definition peers_html :: "cluster_status \<Rightarrow> string" where
  "peers_html s =
     (let known = map html_escape (cs_known s); up = map html_escape (cs_live s);
          down = map html_escape (cs_suspected s)
      in if known = [] then ''<span class=\"text-muted\">Single node (standalone mode)</span>''
         else join '' '' (map (peer_badge up down) known))"

definition lease_row :: "real \<Rightarrow> lease_entry \<Rightarrow> string result" where
  "lease_row now e =
     rbind (fmt_int (le_epoch e)) (\<lambda>fepoch.
       Inr (''<tr><td><code>'' @ html_escape (le_task e) @ ''</code></td><td><code>'' @
            html_escape (case le_claimed_by e of None \<Rightarrow> ''None'' | Some p \<Rightarrow> p) @ ''</code></td>'' @
            ''<td>'' @ fepoch @ ''</td><td>'' @ fmt_fixed 2 (le_expiry e) @ ''s</td><td>'' @
            fmt_fixed 2 (max 0 (le_expiry e - now)) @ ''s</td></tr>''))"

definition leases_table :: "real \<Rightarrow> cluster_status \<Rightarrow> string result" where
  "leases_table now s =
     (if cs_leases s = [] then Inr ''<p class=\"text-muted\">No active leases currently held.</p>''
      else rbind (rmap (lease_row now) (cs_leases s)) (\<lambda>rows.
             Inr (''<table><thead><tr><th>Task ID</th><th>Claimed By</th><th>Fence Epoch</th>'' @
                  ''<th>Lease Expiry</th><th>Remaining</th></tr></thead><tbody>'' @ concat rows @
                  ''</tbody></table>'')))"

text \<open>The badges of a sorted dictionary of numbers, or a text if it is empty.\<close>

definition int_badges :: "string \<Rightarrow> string \<Rightarrow> (string, int) dict \<Rightarrow> string result" where
  "int_badges unit_text empty_text d =
     (if d = [] then Inr (''<span class=\"text-muted\">'' @ empty_text @ ''</span>'')
      else rbind (rmap (\<lambda>(k, v). rbind (fmt_int v) (\<lambda>t.
                    Inr (''<span class=\"badge badge-neutral\"><code>'' @ html_escape k @ ''</code>: '' @ t @
                         unit_text @ ''</span>''))) (sort_key fst d)) (\<lambda>bs.
             Inr (join '' '' bs)))"

text \<open>The numbers of a list of keys, formatted.\<close>

definition fmt_keys :: "(string \<Rightarrow> int) \<Rightarrow> string list \<Rightarrow> (string, string) dict result" where
  "fmt_keys f ks = rmap (\<lambda>k. rbind (fmt_int (f k)) (\<lambda>t. Inr (k, t))) ks"

definition dashboard_states :: "string list" where
  "dashboard_states = [''submitted'', ''claimed'', ''running'', ''completed'', ''failed'', ''timed_out'']"

definition get_dashboard_html :: "py_env \<Rightarrow> node \<Rightarrow> real \<Rightarrow> real \<Rightarrow> unicode result" where
  "get_dashboard_html V n now1 now2 =
     rbind (collect_status V n now1) (\<lambda>s.
     rbind (fmt_keys (get_counter (n_metrics n)) COUNTER_NAMES) (\<lambda>counts.
     rbind (fmt_keys (\<lambda>k. get_default (cs_by_state s) k 0) dashboard_states) (\<lambda>states.
     rbind (leases_table now2 s) (\<lambda>table.
     rbind (int_badges [] ''Empty'' (cs_clock s)) (\<lambda>vclock.
     rbind (int_badges '' credits'' ''No peer connections'' (cs_credits s)) (\<lambda>credits_text.
       let node_id = html_escape (n_id n);
           task_hist = get_histogram (n_metrics n) ''task_latency'';
           gossip_hist = get_histogram (n_metrics n) ''gossip_latency''
       in Inr (points (page_open @ ''  <title>PeerQ '') @ [0x2014] @
               points ('' Node '' @ node_id @ ''</title>'' @ [CHR 0x0A] @ page_style @ page_style_end @
                 page_banner node_id @
                 stat_cards (dec_nat (cs_total s)) (dec_nat (cs_depth s)) (dec_nat (length (cs_leases s)))
                   (dec_nat (length (cs_live s))) (dec_nat (length (cs_known s))) @
                 state_panel (\<lambda>k. get_default states k []) (\<lambda>k. get_default counts k []) @
                 topology_panel (peers_html s) credits_text @ lease_panel table @
                 clock_panel vclock (format_quantile task_hist (50 / 100)) (format_quantile task_hist (99 / 100))
                   (format_quantile gossip_hist (50 / 100)) (format_quantile gossip_hist (99 / 100)) @
                 page_end (fmt_fixed 3 now2)))))))))"

subsection \<open>Requests\<close>

definition CONTENT_TYPE_PROMETHEUS :: string where
  "CONTENT_TYPE_PROMETHEUS = ''text/plain; version=0.0.4; charset=utf-8''"

definition CONTENT_TYPE_HTML :: string where
  "CONTENT_TYPE_HTML = ''text/html; charset=utf-8''"

definition handle_request :: "py_env \<Rightarrow> node \<Rightarrow> real \<Rightarrow> real \<Rightarrow> unicode \<Rightarrow> unicode \<Rightarrow> response result" where
  "handle_request V n now1 now2 meth path =
     (if meth \<noteq> points ''GET'' then Inr (405, ''text/plain'', line_body ''Method Not Allowed'')
      else if path = points ''/'' \<or> path = points ''/dashboard'' then
        rbind (get_dashboard_html V n now1 now2) (\<lambda>page. Inr (200, CONTENT_TYPE_HTML, utf8_text page))
      else if path = points ''/metrics'' then
        rbind (format_prometheus_text (n_metrics n) (n_id n)) (\<lambda>t. Inr (200, CONTENT_TYPE_PROMETHEUS, utf8_encode t))
      else if path = points ''/status'' then
        rbind (format_cluster_status V n now1) (\<lambda>j.
        rbind (dumps_indent (env_repr V) j) (\<lambda>t. Inr (200, ''application/json'', utf8_encode t)))
      else if path = points ''/healthz'' then Inr (200, ''text/plain'', line_body ''OK'')
      else Inr (404, ''text/plain'', line_body ''Not Found''))"

text \<open>The server of a node's status, with the handler as it answers for a state of the node.\<close>

definition StatusServer ::
  "py_env \<Rightarrow> node \<Rightarrow> real \<Rightarrow> real \<Rightarrow> string \<Rightarrow> int \<Rightarrow> security_config option \<Rightarrow> string option \<Rightarrow> http_server result" where
  "StatusServer V n now1 now2 host port security token =
     HttpServer host port (handle_request V n now1 now2)
       (case security of None \<Rightarrow> n_security n | Some c \<Rightarrow> c) token"

subsection \<open>What the status document says\<close>

lemma rmap_Inr: "rmap f xs = Inr ys \<longleftrightarrow> list_all2 (\<lambda>x y. f x = Inr y) xs ys"
proof (induction xs arbitrary: ys)
  case (Cons x xs)
  show ?case by (cases ys) (auto simp: rbind_Inr_iff Cons)
qed auto

lemma sum_update:
  fixes d :: "('k, int) dict"
  shows "sum_list (map snd (AList.update k (get_default d k 0 + 1) d)) = sum_list (map snd d) + 1"
  by (induction d) (auto simp: get_default_def)

lemma by_state_fold:
  fixes d :: "(string, int) dict"
  defines "f \<equiv> \<lambda>t d. AList.update (state_value (state t)) (get_default d (state_value (state t)) (0::int) + 1) d"
  shows "sum_list (map snd (fold f ts d)) = sum_list (map snd d) + len ts"
    "get_default (fold f ts d) (state_value st) 0 =
       get_default d (state_value st) 0 + len (filter (\<lambda>t. state t = st) ts)"
    "k \<notin> state_value ` UNIV \<Longrightarrow> get_default (fold f ts d) k 0 = get_default d k 0"
proof (induction ts arbitrary: d)
  case (Cons t ts)
  {
    case 1
    show ?case using Cons(1) [of "f t d"] by (simp add: f_def sum_update)
  next
    case 2
    show ?case using Cons(2) [of "f t d"] by (auto simp: f_def dict_simps state_value_inj)
  next
    case 3
    then have "k \<noteq> state_value (state t)" by auto
    with Cons(3) [of "f t d"] 3 show ?case by (simp add: f_def dict_simps)
  }
qed simp_all

lemma by_state_facts:
  "sum_list (map snd (by_state ts)) = len ts"
  "get_default (by_state ts) (state_value st) 0 = len (filter (\<lambda>t. state t = st) ts)"
  "k \<notin> state_value ` UNIV \<Longrightarrow> get_default (by_state ts) k 0 = 0"
proof -
  let ?d = "map (\<lambda>s. (state_value s, 0 :: int)) task_states"
  have z: "sum_list (map snd ?d) = 0" "get_default ?d k 0 = 0" for k
    by (simp_all add: task_states_def get_default_def)
  note f = by_state_fold [where ts = ts and d = ?d]
  show "sum_list (map snd (by_state ts)) = len ts" using f(1) z by (simp add: by_state_def)
  show "get_default (by_state ts) (state_value st) 0 = len (filter (\<lambda>t. state t = st) ts)"
    using f(2) [of st] z by (simp add: by_state_def)
  show "get_default (by_state ts) k 0 = 0" if "k \<notin> state_value ` UNIV" using f(3) [OF that] z by (simp add: by_state_def)
qed

lemma split_suspects:
  assumes "rmap (\<lambda>p. rbind (g p) (\<lambda>s. Inr (p, s))) xs = Inr ps"
  shows "map fst ps = xs" "(p, b) \<in> set ps \<Longrightarrow> g p = Inr b"
    "mset (map fst (filter (\<lambda>x. \<not> snd x) ps)) + mset (map fst (filter snd ps)) = mset xs"
proof -
  have l: "list_all2 (\<lambda>p y. rbind (g p) (\<lambda>s. Inr (p, s)) = Inr y) xs ps" using assms by (simp add: rmap_Inr)
  then show m: "map fst ps = xs" by (induction rule: list_all2_induct) (auto simp: rbind_Inr_iff)
  show "(p, b) \<in> set ps \<Longrightarrow> g p = Inr b"
    using l by (induction rule: list_all2_induct) (auto simp: rbind_Inr_iff)
  have "mset (filter (\<lambda>x. \<not> snd x) ps) + mset (filter snd ps) = mset ps"
    by (metis mset_filter multiset_partition add.commute)
  then have "image_mset fst (mset (filter (\<lambda>x. \<not> snd x) ps)) + image_mset fst (mset (filter snd ps)) = image_mset fst (mset ps)"
    by (metis image_mset_union)
  then show "mset (map fst (filter (\<lambda>x. \<not> snd x) ps)) + mset (map fst (filter snd ps)) = mset xs"
    using m by (metis mset_map)
qed


subsection \<open>The status document on the wire\<close>

fun json_ints :: "json \<Rightarrow> int set" where
  "json_ints (JInt i) = {i}"
| "json_ints (JList xs) = (\<Union>x \<in> set xs. json_ints x)"
| "json_ints (JDict d) = (\<Union>v \<in> snd ` set d. json_ints v)"
| "json_ints _ = {}"

text \<open>Every integer can be printed and every float reads back.\<close>

definition numbers_ok :: "(real \<Rightarrow> string) \<Rightarrow> (string \<Rightarrow> pyfloat) \<Rightarrow> json \<Rightarrow> bool" where
  "numbers_ok fr pf j \<longleftrightarrow> (\<forall>i \<in> json_ints j. length (dec_nat (nat \<bar>i\<bar>)) \<le> max_str_digits) \<and>
     (\<forall>x \<in> json_floats j. float_text_ok fr pf x)"

lemma numbers_ok_simps:
  "numbers_ok fr pf (JList xs) \<longleftrightarrow> (\<forall>x \<in> set xs. numbers_ok fr pf x)"
  "numbers_ok fr pf (JDict d) \<longleftrightarrow> (\<forall>v \<in> snd ` set d. numbers_ok fr pf v)"
  "numbers_ok fr pf (JInt i) \<longleftrightarrow> length (dec_nat (nat \<bar>i\<bar>)) \<le> max_str_digits"
  "numbers_ok fr pf (JFloat (Fin x)) \<longleftrightarrow> float_text_ok fr pf x"
  by (auto simp: numbers_ok_def)

lemma printable_ints:
  assumes "distinct (keys d)" "numbers_ok fr pf (ints_json d)"
  shows "printable fr pf (ints_json d)"
  using assms unfolding ints_json_def numbers_ok_simps printable_simps
  by (auto simp: printable_simps numbers_ok_simps fst_comp_map_snd)

lemma printable_strings: "printable fr pf (JStr s)" "printable fr pf (JList (map JStr ss))" "printable fr pf JNull"
  by (auto simp: printable_def)

lemma printable_lease: "numbers_ok fr pf (lease_json e) \<Longrightarrow> printable fr pf (lease_json e)"
  unfolding lease_json_def printable_simps numbers_ok_simps
  by (cases "le_claimed_by e") (auto simp: printable_simps numbers_ok_simps printable_strings)

lemma distinct_fold_update: "distinct (keys d) \<Longrightarrow> distinct (keys (fold (\<lambda>x d. AList.update (f x) (g x d) d) xs d))"
  by (induction xs arbitrary: d) (simp_all add: dict_simps)

lemma status_printable:
  assumes "node_inv n" "collect_status V n now = Inr s" "numbers_ok fr pf (status_json s)"
  shows "printable fr pf (status_json s)"
proof -
  have s: "cs_credits s = fold (\<lambda>p d. AList.update p (get_credits (n_flow n) p) d) (n_peers n) []"
    "cs_by_state s = by_state (map snd (all_tasks n))" "cs_clock s = vc_to_dict (n_clock n)"
    using assms(2) by (auto simp: collect_status_def rbind_Inr_iff Let_def)
  have d: "distinct (keys (cs_credits s))" "distinct (keys (cs_by_state s))" "distinct (keys (cs_clock s))"
    using assms(1) unfolding s by_state_def
    by (auto intro!: distinct_fold_update simp: task_states_def node_inv_def wf_clock_def vc_to_dict_def)
  note ok = assms(3) [unfolded status_json_def numbers_ok_simps, simplified numbers_ok_simps, simplified]
  show ?thesis unfolding status_json_def printable_simps
    using ok d by (auto simp: printable_simps numbers_ok_simps printable_strings intro: printable_ints printable_lease)
qed

lemma StatusServer_Inr:
  "StatusServer V n now1 now2 host port sec tok = Inr srv \<Longrightarrow> hs_handler srv = handle_request V n now1 now2"
  by (auto simp: StatusServer_def HttpServer_def split: if_splits)

lemma status_query_answered:
  assumes "StatusServer V n now1 now2 host port sec tok = Inr srv" "node_inv n" "collect_status V n now1 = Inr s"
    "numbers_ok (env_repr V) pf (status_json s)" "list_all header_ok hdrs"
    "len (render_request ''GET'' ''/status'' hdrs) \<le> max_http_headers (hs_security srv)"
    "map_of (parsed_headers hdrs []) (points ''content-length'') = None"
    "\<forall>t. hs_token srv = Some t \<longrightarrow> list_all (\<lambda>c. code c < 128) t \<and>
       map_of (parsed_headers hdrs []) (points ''authorization'') = Some (points (''Bearer '' @ t))"
    "\<forall>t. dumps_indent (env_repr V) (status_json s) = Inr t \<longrightarrow> len (utf8_encode t) \<le> max_http_body (hs_security srv)"
  shows "\<exists>t. dumps_indent (env_repr V) (status_json s) = Inr t \<and> loads pf t = Some (sort_json (status_json s)) \<and>
    http_handle_client srv en (utf8_encode (render_request ''GET'' ''/status'' hdrs) @ rest) None d2 =
      (write_response (200, ''application/json'', utf8_encode t), None)"
proof -
  obtain t where t: "dumps_indent (env_repr V) (status_json s) = Inr t" "loads pf t = Some (sort_json (status_json s))"
    using loads_dumps_indent status_printable [OF assms(2-4)] by blast
  have "hs_handler srv (points ''GET'') (points ''/status'') = Inr (200, ''application/json'', utf8_encode t)"
    unfolding StatusServer_Inr [OF assms(1)]
    by (simp add: handle_request_def format_cluster_status_def assms(3) t(1)) (simp add: points_def)
  moreover have size: "len (utf8_encode t) \<le> max_http_body (hs_security srv)" using assms(9) t(1) by blast
  then have "0 \<le> max_http_body (hs_security srv)" by simp
  moreover have "word_ok ''GET''" "word_ok ''/status''" by (simp_all add: word_ok_def visible_def)
  ultimately have "http_handle_client srv en (utf8_encode (render_request ''GET'' ''/status'' hdrs) @ rest) None d2 =
      (write_response (200, ''application/json'', utf8_encode t), None)"
    using size by (intro rendered_request_served assms(5-8)) simp_all
  with t show ?thesis by blast
qed

text \<open>
  A status query returns the status. A request for \<^verbatim>\<open>/status\<close> with the token of the server is
  answered with a text from which \<^verbatim>\<open>json.loads\<close> reads the status document of the node, keys
  sorted, provided the text fits into the body limit.
\<close>

theorem status_query_roundtrip:
  assumes "StatusServer V n now1 now2 host port sec tok = Inr srv" "node_inv n" "collect_status V n now1 = Inr s"
    "numbers_ok (env_repr V) pf (status_json s)" "list_all header_ok hdrs"
    "len (render_request ''GET'' ''/status'' hdrs) \<le> max_http_headers (hs_security srv)"
    "map_of (parsed_headers hdrs []) (points ''content-length'') = None"
    "\<forall>t. hs_token srv = Some t \<longrightarrow> list_all (\<lambda>c. code c < 128) t \<and>
       map_of (parsed_headers hdrs []) (points ''authorization'') = Some (points (''Bearer '' @ t))"
    "\<forall>t. dumps_indent (env_repr V) (status_json s) = Inr t \<longrightarrow> len (utf8_encode t) \<le> max_http_body (hs_security srv)"
  shows "\<exists>body t. http_handle_client srv en (utf8_encode (render_request ''GET'' ''/status'' hdrs) @ rest) None d2 =
      (write_response (200, ''application/json'', body), None) \<and>
    utf8_decode body = Some t \<and> loads pf t = Some (sort_json (status_json s))"
  using status_query_answered [OF assms] by fastforce

subsection \<open>Prometheus samples\<close>

lemma split_on_join:
  assumes "ls \<noteq> []" "\<forall>l \<in> set ls. x \<notin> set l"
  shows "split_on x (join [x] ls) = ls"
  using assms
proof (induction "[x]" ls rule: join.induct)
  case (2 l)
  then show ?case by (simp add: split_on_absent)
next
  case (3 l k ls)
  then show ?case by simp
qed simp

text \<open>The name of a sample in a line of the text.\<close>

definition metric_name :: "string \<Rightarrow> string" where
  "metric_name l = takeWhile (\<lambda>c. c \<noteq> CHR 0x7B \<and> c \<noteq> CHR '' '') l"

definition name_ok :: "string \<Rightarrow> bool" where
  "name_ok s \<longleftrightarrow> list_all (\<lambda>c. c \<noteq> CHR 0x7B \<and> c \<noteq> CHR '' '') s"

lemma metric_name_sample:
  assumes "name_ok name"
  shows "metric_name (name @ labels node_id @ '' '' @ v) = name"
    "metric_name (name @ ''_count'' @ labels node_id @ '' '' @ v) = name @ ''_count''"
    "metric_name (name @ ''_sum'' @ labels node_id @ '' '' @ v) = name @ ''_sum''"
    "metric_name (quantile_line name node_id q v) = name"
    "metric_name (''# HELP '' @ w) = ''#''" "metric_name (''# TYPE '' @ w) = ''#''"
  using assms by (auto simp: metric_name_def name_ok_def labels_def quantile_line_def list_all_iff takeWhile_append2)

lemma counter_lines_filter:
  assumes "counter_lines m node_id (key, nm, help) = Inr ls" "name_ok nm" "name \<noteq> ''#''"
  shows "filter (\<lambda>l. metric_name l = name) ls =
    (if nm = name then [nm @ labels node_id @ '' '' @ dec_int (get_counter m key)] else [])"
proof -
  have ls: "ls = [''# HELP '' @ nm @ '' '' @ help, ''# TYPE '' @ nm @ '' counter'',
      nm @ labels node_id @ '' '' @ dec_int (get_counter m key)]"
    using assms(1) by (auto simp: counter_lines_def fmt_int_def rbind_Inr_iff split: if_splits)
  show ?thesis unfolding ls using metric_name_sample [OF assms(2)] assms(3) by auto
qed

lemma histogram_lines_filter:
  assumes "histogram_lines m node_id (key, nm, help) = Inr ls" "name_ok nm"
    "name \<notin> {''#'', nm, nm @ ''_count'', nm @ ''_sum''}"
  shows "filter (\<lambda>l. metric_name l = name) ls = []"
proof -
  have "metric_name l \<in> {''#'', nm, nm @ ''_count'', nm @ ''_sum''}" if "l \<in> set ls" for l
    using that assms(1) metric_name_sample [OF assms(2)]
    unfolding histogram_lines_def prod.case
    by (auto simp: rbind_Inr_iff split: option.splits if_splits)
  with assms(3) show ?thesis by (auto simp: filter_empty_conv)
qed

text \<open>Characters that occur in formatted numbers.\<close>

definition number_char :: "char \<Rightarrow> bool" where
  "number_char c \<longleftrightarrow> is_digit c \<or> c \<in> set ''-.infa''"

lemma number_chars:
  "list_all number_char (dec_nat k)" "list_all number_char (dec_int i)" "list_all number_char (fmt_fixed d x)"
  "list_all number_char (fmt_quotient d y z)" "fmt_int i = Inr t \<Longrightarrow> list_all number_char t"
proof -
  show n: "list_all number_char (dec_nat k)" for k
    using dec_nat_digits by (auto simp: list_all_iff number_char_def)
  show i: "list_all number_char (dec_int i)" for i by (simp add: dec_int_def n) (simp add: number_char_def)
  have z: "list_all number_char (replicate k (CHR ''0''))" for k
    by (auto simp: list_all_iff number_char_def is_digit_def)
  show f: "list_all number_char (fmt_fixed d x)" for d x
    unfolding fmt_fixed_def Let_def pad_to_def by (simp add: n z) (simp add: number_char_def)
  show "list_all number_char (fmt_quotient d y z)" by (cases y) (simp_all add: f, simp_all add: number_char_def)
  show "fmt_int i = Inr t \<Longrightarrow> list_all number_char t" using i by (auto simp: fmt_int_def split: if_splits)
qed

lemma number_char_absent: "list_all number_char s \<Longrightarrow> \<not> number_char c \<Longrightarrow> c \<notin> set s"
  by (auto simp: list_all_iff)

lemma no_newline_number: "list_all number_char s \<Longrightarrow> CHR 0x0A \<notin> set s"
  by (rule number_char_absent) (simp_all add: number_char_def is_digit_def)

lemma no_newline_labels:
  "CHR 0x0A \<notin> set node_id \<Longrightarrow> CHR 0x0A \<notin> set (labels node_id)"
  "CHR 0x0A \<notin> set node_id \<Longrightarrow> CHR 0x0A \<notin> set name \<Longrightarrow> CHR 0x0A \<notin> set q \<Longrightarrow> CHR 0x0A \<notin> set v \<Longrightarrow>
    CHR 0x0A \<notin> set (quantile_line name node_id q v)"
  by (simp_all add: labels_def quantile_line_def label_prefix_def dq_def)

lemma counter_lines_newline:
  assumes "counter_lines m node_id (key, nm, help) = Inr ls" "CHR 0x0A \<notin> set node_id" "CHR 0x0A \<notin> set (nm @ help)"
  shows "\<forall>l \<in> set ls. CHR 0x0A \<notin> set l"
  using assms no_newline_labels(1) [OF assms(2)] no_newline_number [OF number_chars(5)]
  by (auto simp: counter_lines_def rbind_Inr_iff)

lemma histogram_lines_newline:
  assumes "histogram_lines m node_id (key, nm, help) = Inr ls" "CHR 0x0A \<notin> set node_id" "CHR 0x0A \<notin> set (nm @ help)"
  shows "\<forall>l \<in> set ls. CHR 0x0A \<notin> set l"
proof -
  have q: "CHR 0x0A \<notin> set (quantile_line nm node_id p v)" if "CHR 0x0A \<notin> set p" "CHR 0x0A \<notin> set v" for p v
    using that assms(2,3) by (intro no_newline_labels(2)) simp_all
  note num = no_newline_number [OF number_chars(5)] no_newline_number [OF number_chars(3)] no_newline_number [OF number_chars(4)]
  show ?thesis using assms(1,3) no_newline_labels(1) [OF assms(2)] q num
    unfolding histogram_lines_def prod.case
    by (auto simp: rbind_Inr_iff split: option.splits if_splits)
qed

lemma rmap_concat:
  assumes "rmap f es = Inr xss"
  shows "(\<And>e ls. e \<in> set es \<Longrightarrow> f e = Inr ls \<Longrightarrow> filter P ls = g e) \<Longrightarrow> filter P (concat xss) = concat (map g es)"
    "(\<And>e ls. e \<in> set es \<Longrightarrow> f e = Inr ls \<Longrightarrow> \<forall>l \<in> set ls. Q l) \<Longrightarrow> \<forall>l \<in> set (concat xss). Q l"
proof -
  have l: "list_all2 (\<lambda>e ls. f e = Inr ls) es xss" using assms by (simp add: rmap_Inr)
  show "(\<And>e ls. e \<in> set es \<Longrightarrow> f e = Inr ls \<Longrightarrow> filter P ls = g e) \<Longrightarrow> filter P (concat xss) = concat (map g es)"
    using l by (induction rule: list_all2_induct) simp_all
  show "(\<And>e ls. e \<in> set es \<Longrightarrow> f e = Inr ls \<Longrightarrow> \<forall>l \<in> set ls. Q l) \<Longrightarrow> \<forall>l \<in> set (concat xss). Q l"
    using l by (induction rule: list_all2_induct) auto
qed

definition metric_entry_ok :: "string \<times> string \<times> string \<Rightarrow> bool" where
  "metric_entry_ok e \<longleftrightarrow> (case e of (key, nm, help) \<Rightarrow> name_ok nm \<and> CHR 0x0A \<notin> set (nm @ help))"

lemma entries_ok: "\<forall>e \<in> set COUNTER_METRIC_NAMES. metric_entry_ok e" "\<forall>e \<in> set HISTOGRAM_METRIC_NAMES. metric_entry_ok e"
  by (simp_all add: COUNTER_METRIC_NAMES_def HISTOGRAM_METRIC_NAMES_def metric_entry_ok_def name_ok_def)

lemma counter_names_distinct:
  assumes "(key, name, help) \<in> set COUNTER_METRIC_NAMES"
  shows "concat (map (\<lambda>(k, nm, h). if nm = name then [f k nm] else []) COUNTER_METRIC_NAMES) = [f key name]"
    "name \<noteq> ''#''" "(k, nm, h) \<in> set HISTOGRAM_METRIC_NAMES \<Longrightarrow> name \<notin> {''#'', nm, nm @ ''_count'', nm @ ''_sum''}"
  using assms unfolding COUNTER_METRIC_NAMES_def HISTOGRAM_METRIC_NAMES_def by auto

text \<open>
  The Prometheus text carries the counters. For a node identifier without line breaks the text
  has exactly one sample of every counter metric, and its value is the counter.
\<close>

theorem prometheus_counters:
  assumes "format_prometheus_text m node_id = Inr t" "(key, name, help) \<in> set COUNTER_METRIC_NAMES"
    "CHR 0x0A \<notin> set node_id"
  shows "filter (\<lambda>l. metric_name l = name) (split_on (CHR 0x0A) t) =
    [name @ labels node_id @ '' '' @ dec_int (get_counter m key)]"
proof -
  obtain cs hs where cs: "rmap (counter_lines m node_id) COUNTER_METRIC_NAMES = Inr cs"
    and hs: "rmap (histogram_lines m node_id) HISTOGRAM_METRIC_NAMES = Inr hs"
    and t: "t = join [CHR 0x0A] (concat cs @ concat hs @ [[]])"
    using assms(1) by (auto simp: format_prometheus_text_def rbind_Inr_iff)
  have "\<forall>l \<in> set (concat cs). CHR 0x0A \<notin> set l"
    using entries_ok(1) counter_lines_newline [OF _ assms(3)]
    by (intro rmap_concat(2) [OF cs]) (auto simp: metric_entry_ok_def)
  moreover have "\<forall>l \<in> set (concat hs). CHR 0x0A \<notin> set l"
    using entries_ok(2) histogram_lines_newline [OF _ assms(3)]
    by (intro rmap_concat(2) [OF hs]) (auto simp: metric_entry_ok_def)
  ultimately have nl: "\<forall>l \<in> set (concat cs @ concat hs @ [[]]). CHR 0x0A \<notin> set l" by auto
  have "filter (\<lambda>l. metric_name l = name) (concat hs) = concat (map (\<lambda>_. []) HISTOGRAM_METRIC_NAMES)"
  proof (rule rmap_concat(1) [OF hs])
    fix e ls
    assume e: "e \<in> set HISTOGRAM_METRIC_NAMES" "histogram_lines m node_id e = Inr ls"
    obtain k nm h where k: "e = (k, nm, h)" by (cases e)
    with e(1) entries_ok(2) have "name_ok nm" by (auto simp: metric_entry_ok_def)
    with e k counter_names_distinct(3) [OF assms(2)] show "filter (\<lambda>l. metric_name l = name) ls = []"
      by (intro histogram_lines_filter) blast+
  qed
  then have "filter (\<lambda>l. metric_name l = name) (concat hs) = []" by simp
  moreover have "filter (\<lambda>l. metric_name l = name) (concat cs) = concat (map (\<lambda>(k, nm, h).
      if nm = name then [nm @ labels node_id @ '' '' @ dec_int (get_counter m k)] else []) COUNTER_METRIC_NAMES)"
    using entries_ok(1) counter_lines_filter [OF _ _ counter_names_distinct(2) [OF assms(2)]]
    by (intro rmap_concat(1) [OF cs]) (auto simp: metric_entry_ok_def)
  moreover have "metric_name [] \<noteq> name" using assms(2) by (auto simp: metric_name_def COUNTER_METRIC_NAMES_def)
  ultimately show ?thesis using split_on_join [OF _ nl]
      counter_names_distinct(1) [OF assms(2), of "\<lambda>k nm. nm @ labels node_id @ '' '' @ dec_int (get_counter m k)"]
    by (simp add: t)
qed

subsection \<open>Markup of the dashboard\<close>

text \<open>The characters that can open a tag, close it, or quote an attribute.\<close>

definition is_markup :: "char \<Rightarrow> bool" where
  "is_markup c \<longleftrightarrow> c = CHR ''<'' \<or> c = CHR ''>'' \<or> c = CHR 0x22 \<or> c = CHR 0x27"

definition tags :: "string \<Rightarrow> string" where
  "tags s = filter is_markup s"

definition page_tags :: "unicode \<Rightarrow> unicode" where
  "page_tags page = filter (\<lambda>x. x \<in> {0x3C, 0x3E, 0x22, 0x27}) page"

lemma tags_append: "tags (s @ t) = tags s @ tags t"
  by (simp add: tags_def)

lemma tags_concat: "tags (concat ss) = concat (map tags ss)"
  by (induction ss) (simp_all add: tags_append, simp add: tags_def)

lemma tags_lines: "tags (text_lines ls) = concat (map tags ls)"
proof -
  have "tags [CHR 0x0A] = []" by (simp add: tags_def is_markup_def)
  then show ?thesis by (simp add: text_lines_def tags_concat tags_append comp_def)
qed

lemma page_tags_points: "page_tags (points s) = points (tags s)"
proof -
  have "code c \<in> {0x3C, 0x3E, 0x22, 0x27} \<longleftrightarrow> is_markup c" for c
    using code_eq [of c "CHR ''<''"] code_eq [of c "CHR ''>''"] code_eq [of c "CHR 0x22"] code_eq [of c "CHR 0x27"]
    by (simp add: is_markup_def)
  then show ?thesis by (simp add: page_tags_def tags_def points_def filter_map comp_def)
qed

lemma tags_plain: "list_all (\<lambda>c. \<not> is_markup c) s \<Longrightarrow> tags s = []"
  by (auto simp: tags_def list_all_iff filter_empty_conv)

lemma tags_number: "list_all number_char s \<Longrightarrow> tags s = []"
  by (rule tags_plain) (auto simp: list_all_iff is_markup_def number_char_def is_digit_def)

lemma tags_escape: "tags (html_escape s) = []"
proof -
  have "tags (escape_html c) = []" for c by (simp add: escape_html_def tags_def is_markup_def)
  then show ?thesis by (simp add: html_escape_def tags_concat)
qed

lemma tags_formatted:
  "fmt_int i = Inr t \<Longrightarrow> tags t = []" "tags (fmt_fixed k x) = []" "tags (dec_nat a) = []"
  "tags (format_quantile h q) = []"
proof -
  show "tags (format_quantile h q) = []"
    by (simp add: format_quantile_def tags_append tags_number [OF number_chars(4)] split: option.split)
      (simp add: tags_def is_markup_def)
qed (rule tags_number, erule number_chars(5), simp_all add: tags_number number_chars)

text \<open>Escaping is injective, so the badges of the peers are told apart by the peers themselves.\<close>

lemma html_escape_inj: "html_escape s = html_escape t \<longleftrightarrow> s = t"
proof
  have step: "escape_html c @ x = escape_html d @ y \<Longrightarrow> c = d \<and> x = y" for c d x y
    by (auto simp: escape_html_def split: if_splits)
  have ne: "escape_html c \<noteq> []" for c by (simp add: escape_html_def)
  show "html_escape s = html_escape t \<Longrightarrow> s = t"
  proof (induction s arbitrary: t)
    case Nil
    then show ?case using ne by (cases t) (simp_all add: html_escape_def)
  next
    case (Cons c s)
    then obtain d u where t: "t = d # u" using ne by (cases t) (simp_all add: html_escape_def)
    with Cons.prems step [of c "html_escape s" d "html_escape u"] have "c = d" "html_escape s = html_escape u"
      by (simp_all add: html_escape_def)
    with Cons.IH t show ?case by blast
  qed
qed simp

text \<open>The tags of a part of the page depend on the tags of what is inserted.\<close>

lemmas tag_laws = tags_lines tags_append list.map concat.simps

lemma tags_page_banner: "tags a = tags a' \<Longrightarrow> tags (page_banner a) = tags (page_banner a')"
  by (simp only: page_banner_def tag_laws)

lemma tags_stat_cards:
  "tags (stat_cards (dec_nat a) (dec_nat b) (dec_nat c) (dec_nat d) (dec_nat e)) =
   tags (stat_cards (dec_nat a') (dec_nat b') (dec_nat c') (dec_nat d') (dec_nat e'))"
  by (simp only: stat_cards_def tag_laws tags_formatted)

lemma tags_state_panel:
  "(\<And>k. tags (f k) = []) \<Longrightarrow> (\<And>k. tags (g k) = []) \<Longrightarrow> (\<And>k. tags (f' k) = []) \<Longrightarrow> (\<And>k. tags (g' k) = []) \<Longrightarrow>
   tags (state_panel f g) = tags (state_panel f' g')"
  by (simp only: state_panel_def tag_laws)

lemma tags_topology_panel:
  "tags a = tags a' \<Longrightarrow> tags b = tags b' \<Longrightarrow> tags (topology_panel a b) = tags (topology_panel a' b')"
  by (simp only: topology_panel_def tag_laws)

lemma tags_lease_panel: "tags a = tags a' \<Longrightarrow> tags (lease_panel a) = tags (lease_panel a')"
  by (simp only: lease_panel_def tag_laws)

lemma tags_clock_panel:
  "tags a = tags a' \<Longrightarrow> tags (clock_panel a (format_quantile h1 q1) (format_quantile h2 q2) (format_quantile h3 q3) (format_quantile h4 q4)) =
     tags (clock_panel a' (format_quantile None 0) (format_quantile None 0) (format_quantile None 0) (format_quantile None 0))"
  by (simp only: clock_panel_def tag_laws tags_formatted)

lemma tags_page_end: "tags (page_end (fmt_fixed k x)) = tags (page_end (fmt_fixed k y))"
  by (simp only: page_end_def tag_laws tags_formatted)

lemma tags_fmt_keys: "fmt_keys f ks = Inr d \<Longrightarrow> tags (get_default d k []) = []"
proof (induction ks arbitrary: d)
  case Nil
  then show ?case by (simp add: fmt_keys_def get_default_def tags_def)
next
  case (Cons k' ks)
  then show ?case by (auto simp: fmt_keys_def rbind_Inr_iff get_default_def tags_formatted)
qed

lemma tags_join: "tags (join '' '' bs) = concat (map tags bs)"
proof -
  have "tags '' '' = []" "tags [] = []" by (simp_all add: tags_def is_markup_def)
  then show ?thesis
    by (induction "'' ''" bs rule: join.induct)
      (simp_all only: join.simps tags_append list.map concat.simps append_Nil append_Nil2)
qed

lemma tags_rmap:
  assumes "rmap f xs = Inr ys" "\<And>x y. f x = Inr y \<Longrightarrow> tags y = v"
  shows "map tags ys = replicate (length xs) v"
proof -
  have "list_all2 (\<lambda>x y. f x = Inr y) xs ys" using assms(1) by (simp add: rmap_Inr)
  then show ?thesis by (induction rule: list_all2_induct) (simp_all add: assms(2))
qed

lemma tags_int_badges:
  assumes "int_badges u e d = Inr a" "int_badges u e d' = Inr a'" "length d = length d'" "tags u = []"
  shows "tags a = tags a'"
proof (cases "d = []")
  case False
  then have ne: "d' \<noteq> []" using assms(3) by auto
  let ?v = "tags ''<span class=\"badge badge-neutral\"><code>'' @ tags ''</code>: '' @ tags ''</span>''"
  have "tags a = concat (replicate (length d) ?v)" if b: "int_badges u e d = Inr a" "d \<noteq> []" for d a
  proof -
    obtain bs where bs: "rmap (\<lambda>(k, v). rbind (fmt_int v) (\<lambda>t.
        Inr (''<span class=\"badge badge-neutral\"><code>'' @ html_escape k @ ''</code>: '' @ t @ u @ ''</span>'')))
        (sort_key fst d) = Inr bs" "a = join '' '' bs"
      using b unfolding int_badges_def by (auto simp only: if_False rbind_Inr_iff sum.inject)
    have "map tags bs = replicate (length (sort_key fst d)) ?v"
      by (rule tags_rmap [OF bs(1)])
        (auto simp only: split_paired_all prod.case rbind_Inr_iff sum.inject tags_append tags_escape tags_formatted assms(4) append_Nil)
    then show ?thesis by (simp only: bs(2) tags_join length_sort)
  qed
  from this [OF assms(1) False] this [OF assms(2) ne] assms(3) show ?thesis by simp
qed (use assms in \<open>simp add: int_badges_def\<close>)

lemma tags_leases_table:
  assumes "leases_table now s = Inr a" "leases_table now' s' = Inr a'" "length (cs_leases s) = length (cs_leases s')"
  shows "tags a = tags a'"
proof -
  let ?v = "tags ''<tr><td><code>'' @ tags ''</code></td><td><code>'' @ tags ''</code></td>'' @ tags ''<td>'' @
    tags ''</td><td>'' @ tags ''s</td><td>'' @ tags ''s</td></tr>''"
  have row: "tags y = ?v" if "lease_row now e = Inr y" for now e y
    using that by (auto simp only: lease_row_def rbind_Inr_iff sum.inject tags_append tags_escape tags_formatted append_Nil)
  show ?thesis
  proof (cases "cs_leases s = []")
    case False
    with assms(3) have ne: "cs_leases s' \<noteq> []" by auto
    have "tags a = tags (''<table><thead><tr><th>Task ID</th><th>Claimed By</th><th>Fence Epoch</th>'' @
        ''<th>Lease Expiry</th><th>Remaining</th></tr></thead><tbody>'') @
        concat (replicate (length (cs_leases s)) ?v) @ tags ''</tbody></table>''"
      if t: "leases_table now s = Inr a" "cs_leases s \<noteq> []" for now s a
    proof -
      obtain rows where rows: "rmap (lease_row now) (cs_leases s) = Inr rows"
        "a = ''<table><thead><tr><th>Task ID</th><th>Claimed By</th><th>Fence Epoch</th>'' @
          ''<th>Lease Expiry</th><th>Remaining</th></tr></thead><tbody>'' @ concat rows @ ''</tbody></table>''"
        using t unfolding leases_table_def by (auto simp only: if_False rbind_Inr_iff sum.inject)
      show ?thesis unfolding rows(2) by (simp only: tags_append tags_concat tags_rmap [OF rows(1) row] append_assoc)
    qed
    from this [OF assms(1) False] this [OF assms(2) ne] assms(3) show ?thesis by (simp only:)
  qed (use assms in \<open>simp add: leases_table_def\<close>)
qed

lemma tags_peers_html:
  assumes "map (\<lambda>p. (p \<in> set (cs_live s), p \<in> set (cs_suspected s))) (cs_known s) =
    map (\<lambda>p. (p \<in> set (cs_live s'), p \<in> set (cs_suspected s'))) (cs_known s')"
  shows "tags (peers_html s) = tags (peers_html s')"
proof (cases "cs_known s = []")
  case True
  with assms have "cs_known s' = []" by (metis map_is_Nil_conv)
  with True show ?thesis by (simp add: peers_html_def)
next
  case False
  with assms have ne: "cs_known s' \<noteq> []" by (metis map_is_Nil_conv)
  let ?badge = "\<lambda>b. if fst b then tags (peer_badge [[]] [] []) else if snd b then tags (peer_badge [] [[]] []) else tags (peer_badge [] [] [])"
  have mem: "html_escape p \<in> html_escape ` A \<longleftrightarrow> p \<in> A" for p A by (auto simp: html_escape_inj)
  have nil: "tags [] = []" by (simp add: tags_def)
  have "tags (peers_html s) = concat (map ?badge (map (\<lambda>p. (p \<in> set (cs_live s), p \<in> set (cs_suspected s))) (cs_known s)))"
    if "cs_known s \<noteq> []" for s
  proof -
    have "tags (peer_badge (map html_escape (cs_live s)) (map html_escape (cs_suspected s)) (html_escape p)) =
        ?badge (p \<in> set (cs_live s), p \<in> set (cs_suspected s))" for p
      by (simp only: peer_badge_def set_map mem fst_conv snd_conv tags_append tags_escape append_Nil nil if_distrib [of tags]
          list.set insert_iff empty_iff simp_thms if_True if_False cong: if_cong)
    then show ?thesis using that by (simp add: peers_html_def Let_def tags_join comp_def)
  qed
  from this [OF False] this [OF ne] assms show ?thesis by simp
qed

text \<open>The tags of the page, from those of the parts that grow with the status.\<close>

definition page_skeleton :: "string \<Rightarrow> string \<Rightarrow> string \<Rightarrow> string \<Rightarrow> string" where
  "page_skeleton peers creds table vclock =
     tags page_open @ tags ''  <title>PeerQ '' @ tags '' Node '' @ tags ''</title>'' @ tags page_style @
     tags page_style_end @ tags (page_banner []) @
     tags (stat_cards (dec_nat 0) (dec_nat 0) (dec_nat 0) (dec_nat 0) (dec_nat 0)) @
     tags (state_panel (\<lambda>_. []) (\<lambda>_. [])) @ tags (topology_panel peers creds) @ tags (lease_panel table) @
     tags (clock_panel vclock (format_quantile None 0) (format_quantile None 0) (format_quantile None 0)
       (format_quantile None 0)) @ tags (page_end (fmt_fixed 3 0))"

lemma dashboard_skeleton:
  assumes "get_dashboard_html V n now1 now2 = Inr page" "collect_status V n now1 = Inr s"
  obtains table vclock creds where "leases_table now2 s = Inr table"
    "int_badges [] ''Empty'' (cs_clock s) = Inr vclock"
    "int_badges '' credits'' ''No peer connections'' (cs_credits s) = Inr creds"
    "page_tags page = points (page_skeleton (peers_html s) creds table vclock)"
proof -
  obtain counts states table vclock creds
    where f: "fmt_keys (get_counter (n_metrics n)) COUNTER_NAMES = Inr counts"
      "fmt_keys (\<lambda>k. get_default (cs_by_state s) k 0) dashboard_states = Inr states"
    and p: "leases_table now2 s = Inr table" "int_badges [] ''Empty'' (cs_clock s) = Inr vclock"
      "int_badges '' credits'' ''No peer connections'' (cs_credits s) = Inr creds"
    using assms(1) unfolding get_dashboard_html_def assms(2) by (auto simp only: rbind.simps rbind_Inr_iff)
  have nil: "tags [] = []" "tags [CHR 0x0A] = []" by (simp_all add: tags_def is_markup_def)
  have page: "page_tags (xs @ ys) = page_tags xs @ page_tags ys" "page_tags [0x2014] = []" for xs ys
    by (simp_all add: page_tags_def)
  have points: "points (s @ t) = points s @ points t" "points [] = []" for s t by (simp_all add: points_def)
  have node: "tags (page_banner (html_escape (n_id n))) = tags (page_banner [])"
    by (rule tags_page_banner) (simp only: tags_escape nil)
  have panel: "tags (state_panel (\<lambda>k. get_default states k []) (\<lambda>k. get_default counts k [])) =
      tags (state_panel (\<lambda>_. []) (\<lambda>_. []))"
    by (rule tags_state_panel) (simp_all only: tags_fmt_keys [OF f(1)] tags_fmt_keys [OF f(2)] nil)
  note clock = tags_clock_panel [OF refl, of vclock "get_histogram (n_metrics n) ''task_latency''" "50 / 100"
    "get_histogram (n_metrics n) ''task_latency''" "99 / 100" "get_histogram (n_metrics n) ''gossip_latency''" "50 / 100"
    "get_histogram (n_metrics n) ''gossip_latency''" "99 / 100"]
  have "page_tags page = points (page_skeleton (peers_html s) creds table vclock)"
    using assms(1) unfolding get_dashboard_html_def assms(2) page_skeleton_def rbind.simps f p Let_def sum.inject
    by (elim subst) (simp only: page page_tags_points tags_append points tags_escape nil node panel append_Nil append_assoc
      tags_stat_cards [of "cs_total s" _ _ _ _ 0 0 0 0 0] tags_page_end [of 3 now2 0] clock)
  with p that show ?thesis by blast
qed

text \<open>What of a status decides the shape of the page: the badge of each known peer and the numbers of rows.\<close>

definition page_shape :: "cluster_status \<Rightarrow> (bool \<times> bool) list \<times> nat \<times> nat \<times> nat" where
  "page_shape s =
     (map (\<lambda>p. (p \<in> set (cs_live s), p \<in> set (cs_suspected s))) (cs_known s), length (cs_leases s),
      length (cs_clock s), length (cs_credits s))"

text \<open>
  C22: nothing shown on the dashboard is taken for markup. The pages of two nodes whose statuses
  have the same shape (the same badges for their known peers and the same numbers of leases, clock
  entries and credits) have the same tags and quotes, whatever the identifiers of nodes, peers and
  tasks and the contents of the records are.
\<close>

theorem dashboard_no_injection:
  assumes "get_dashboard_html V n now1 now2 = Inr page" "get_dashboard_html V' n' now1' now2' = Inr page'"
    "collect_status V n now1 = Inr s" "collect_status V' n' now1' = Inr s'" "page_shape s = page_shape s'"
  shows "page_tags page = page_tags page'"
proof (rule dashboard_skeleton [OF assms(1,3)], rule dashboard_skeleton [OF assms(2,4)])
  fix table vclock creds table' vclock' creds'
  assume p: "leases_table now2 s = Inr table" "int_badges [] ''Empty'' (cs_clock s) = Inr vclock"
      "int_badges '' credits'' ''No peer connections'' (cs_credits s) = Inr creds"
    and q: "leases_table now2' s' = Inr table'" "int_badges [] ''Empty'' (cs_clock s') = Inr vclock'"
      "int_badges '' credits'' ''No peer connections'' (cs_credits s') = Inr creds'"
    and page: "page_tags page = points (page_skeleton (peers_html s) creds table vclock)"
      "page_tags page' = points (page_skeleton (peers_html s') creds' table' vclock')"
  have plain: "tags [] = []" "tags '' credits'' = []" by (simp_all add: tags_def is_markup_def)
  note shape = assms(5) [unfolded page_shape_def prod.inject]
  have "tags creds = tags creds'" using tags_int_badges [OF p(3) q(3)] plain shape by blast
  with tags_peers_html shape have topology: "tags (topology_panel (peers_html s) creds) = tags (topology_panel (peers_html s') creds')"
    by (intro tags_topology_panel) blast
  have lease: "tags (lease_panel table) = tags (lease_panel table')"
    by (intro tags_lease_panel tags_leases_table [OF p(1) q(1)]) (use shape in blast)
  have "tags vclock = tags vclock'" using tags_int_badges [OF p(2) q(2)] plain shape by blast
  note clock = tags_clock_panel [OF this, of None 0 None 0 None 0 None 0]
  show ?thesis unfolding page page_skeleton_def topology lease clock by (rule refl)
qed

subsection \<open>What the pages get wrong\<close>

text \<open>
  The boxes for submitted, completed and timed out tasks always show zero, because no task state
  has these values.
\<close>

lemma dashboard_boxes_zero:
  assumes "collect_status V n now = Inr s" "k \<in> {''submitted'', ''completed'', ''timed_out''}"
  shows "get_default (cs_by_state s) k 0 = 0"
proof -
  have "state_value st \<noteq> k" for st using assms(2) by (cases st) auto
  then have "k \<notin> state_value ` UNIV" by auto
  then show ?thesis using assms(1) by_state_facts(3) by (auto simp: collect_status_def rbind_Inr_iff Let_def)
qed

text \<open>
  The identifier of the node is not escaped in the labels: one with a quote and a line break adds a
  sample of its own to the text.
\<close>

definition forged_id :: string where
  "forged_id = ''n'' @ dq @ ''} 0'' @ [CHR 0x0A] @ ''peerq_tasks_failed_total{node='' @ dq @ ''n''"

lemma prometheus_label_injection:
  "counter_lines m forged_id (''enqueued'', ''peerq_tasks_enqueued_total'', h) = Inr ls \<Longrightarrow>
   \<exists>a v. ls = a @ [''peerq_tasks_enqueued_total{node='' @ dq @ ''n'' @ dq @ ''} 0'' @ [CHR 0x0A] @
     ''peerq_tasks_failed_total{node='' @ dq @ ''n'' @ dq @ ''} '' @ v]"
  by (auto simp: counter_lines_def rbind_Inr_iff labels_def forged_id_def dq_def)

subsection \<open>Concrete instances\<close>

lemma sample_new_facts:
  assumes "sample_new nid = Inr n" "nid = ''a'' \<or> nid = ''b''"
  shows "n_id n = nid" "n_peers n = [if nid = ''a'' then ''b'' else ''a'']" "n_tasks n = []"
    "get_credits (n_flow n) p = 20" "\<not> is_known (n_detector n) p" "qsize (n_queue n) = 0"
    "vc_to_dict (n_clock n) = []" "get_counter (n_metrics n) k = 0" "n_security n = default_security_config"
    "get_histogram (n_metrics n) k = Some h \<Longrightarrow> hist_count h = 0" "node_inv n"
  subgoal using assms by (auto simp: sample_new_def PeerNode_def rbind_Inr_iff Let_def)
  subgoal using assms by (auto simp: sample_new_def PeerNode_def rbind_Inr_iff Let_def dict_fromkeys_def)
  subgoal using assms by (auto simp: sample_new_def PeerNode_def rbind_Inr_iff Let_def)
  subgoal using assms by (auto simp: sample_new_def PeerNode_def rbind_Inr_iff Let_def dict_fromkeys_def get_credits_def
      init_peer_def init_flow_def get_default_def)
  subgoal using assms by (auto simp: sample_new_def PeerNode_def rbind_Inr_iff Let_def PhiAccrualDetector_def is_known_def has_key_def)
  subgoal using assms by (auto simp: sample_new_def PeerNode_def rbind_Inr_iff Let_def qsize_def init_queue_def)
  subgoal using assms by (auto simp: sample_new_def PeerNode_def rbind_Inr_iff Let_def vc_to_dict_def VectorClock_def)
  subgoal using assms by (auto simp: sample_new_def PeerNode_def rbind_Inr_iff Let_def MetricsCollector_def get_counter_def
      COUNTER_NAMES_def get_default_def)
  subgoal using assms by (auto simp: sample_new_def PeerNode_def rbind_Inr_iff Let_def)
  subgoal using assms by (auto simp: sample_new_def PeerNode_def rbind_Inr_iff Let_def MetricsCollector_def get_histogram_def
      LogLinearHistogram_def hist_count_def split: if_splits)
  subgoal using assms unfolding sample_new_def by (blast intro: PeerNode_Inr(1))
  done

definition sample_status :: "string \<Rightarrow> cluster_status" where
  "sample_status nid =
     \<lparr>cs_node = nid, cs_known = [if nid = ''a'' then ''b'' else ''a''], cs_live = [],
      cs_suspected = [if nid = ''a'' then ''b'' else ''a''], cs_depth = 0,
      cs_credits = [(if nid = ''a'' then ''b'' else ''a'', 20)], cs_total = 0,
      cs_by_state = [(''pending'', 0), (''claimed'', 0), (''running'', 0), (''done'', 0), (''failed'', 0)],
      cs_leases = [], cs_clock = []\<rparr>"

lemma fmt_small: "fmt_int 0 = Inr ''0''" "fmt_int 20 = Inr ''20''"
  by (simp_all add: fmt_int_def dec_int_def dec_nat.simps max_str_digits_def digit_char_def char_of_def bit_0)

lemma sample_collected:
  assumes "sample_new nid = Inr n" "nid = ''a'' \<or> nid = ''b''"
  shows "collect_status sample_env n now = Inr (sample_status nid)"
proof -
  note f = sample_new_facts [OF assms]
  have "suspected sample_env n p now = Inr True" for p
    using f(5) [of p] by (simp add: suspected_def is_suspected_def phi_def is_known_def has_key_def)
  then show ?thesis
    by (simp add: collect_status_def sample_status_def f(1-4,6,7) all_tasks_def by_state_def task_states_def)
qed

lemma sample_dashboard:
  assumes "sample_new nid = Inr n" "nid = ''a'' \<or> nid = ''b''"
  shows "\<exists>page. get_dashboard_html sample_env n now1 now2 = Inr page"
proof -
  have "fmt_keys (\<lambda>k. 0) ks = Inr (map (\<lambda>k. (k, ''0'')) ks)" for ks
    by (induction ks) (simp_all add: fmt_keys_def fmt_small)
  moreover have "get_default (cs_by_state (sample_status nid)) k 0 = 0" for k
    by (simp add: sample_status_def get_default_def)
  moreover have "get_counter (n_metrics n) = (\<lambda>k. 0)" using sample_new_facts(8) [OF assms] by blast
  ultimately show ?thesis
    by (simp only: get_dashboard_html_def sample_collected [OF assms] rbind.simps
        leases_table_def int_badges_def)
      (auto simp only: sample_status_def cluster_status.simps fmt_small rbind.simps rmap.simps sort_key_simps Let_def
        insort_key.simps foldr.simps o_def id_apply prod.case simp_thms if_True if_False list.distinct sum.inject split: if_split)
qed

lemma rmap_total: "(\<And>x. \<exists>y. g x = Inr y) \<Longrightarrow> \<exists>ys. rmap g xs = Inr ys"
proof (induction xs)
  case (Cons x xs)
  from Cons.prems obtain y where "g x = Inr y" by blast
  with Cons show ?case by auto
qed simp


theorem prometheus_counters_witness:
  "\<exists>n t. sample_new ''a'' = Inr n \<and> format_prometheus_text (n_metrics n) ''a'' = Inr t \<and>
    filter (\<lambda>l. metric_name l = ''peerq_tasks_failed_total'') (split_on (CHR 0x0A) t) =
      [''peerq_tasks_failed_total'' @ labels ''a'' @ '' '' @ dec_int (get_counter (n_metrics n) ''failed'')]"
proof -
  obtain n where n: "sample_new ''a'' = Inr n" using sample_node_new [of "''a''"] by blast
  note f = sample_new_facts [OF n]
  have "\<exists>ls. counter_lines (n_metrics n) ''a'' e = Inr ls" for e
    by (cases e) (simp add: counter_lines_def f(8) fmt_small)
  moreover have "\<exists>ls. histogram_lines (n_metrics n) ''a'' e = Inr ls" for e
    using f(10) by (cases e) (auto simp: histogram_lines_def split: option.split)
  ultimately obtain cs hs where "rmap (counter_lines (n_metrics n) ''a'') COUNTER_METRIC_NAMES = Inr cs"
    "rmap (histogram_lines (n_metrics n) ''a'') HISTOGRAM_METRIC_NAMES = Inr hs" using rmap_total by meson
  then obtain t where t: "format_prometheus_text (n_metrics n) ''a'' = Inr t" by (simp add: format_prometheus_text_def)
  have "(''failed'', ''peerq_tasks_failed_total'', ''Total tasks that encountered errors'') \<in> set COUNTER_METRIC_NAMES"
    by (simp add: COUNTER_METRIC_NAMES_def)
  from prometheus_counters [OF t this] n t show ?thesis by auto
qed

theorem dashboard_no_injection_witness:
  "\<exists>n n' page page'. sample_new ''a'' = Inr n \<and> sample_new ''b'' = Inr n' \<and>
    get_dashboard_html sample_env n 3 4 = Inr page \<and> get_dashboard_html sample_env n' 5 6 = Inr page' \<and>
    page_tags page = page_tags page'"
proof -
  obtain n n' where n: "sample_new ''a'' = Inr n" "sample_new ''b'' = Inr n'"
    using sample_node_new [of "''a''"] sample_node_new [of "''b''"] by metis
  with sample_dashboard obtain page page' where p: "get_dashboard_html sample_env n 3 4 = Inr page"
    "get_dashboard_html sample_env n' 5 6 = Inr page'" by metis
  have s: "collect_status sample_env n 3 = Inr (sample_status ''a'')" "collect_status sample_env n' 5 = Inr (sample_status ''b'')"
    using sample_collected n by blast+
  have "page_shape (sample_status ''a'') = page_shape (sample_status ''b'')"
    by (simp add: page_shape_def sample_status_def)
  from dashboard_no_injection [OF p s this] n p show ?thesis by blast
qed

lemma sample_numbers: "nid = ''a'' \<or> nid = ''b'' \<Longrightarrow> numbers_ok sample_repr sample_parse (status_json (sample_status nid))"
  by (auto simp: status_json_def sample_status_def numbers_ok_simps ints_json_def max_str_digits_def dec_nat.simps)
    (simp_all add: numbers_ok_def)

lemma sample_status_text:
  "dumps_indent sample_repr (status_json (sample_status ''a'')) = Inr t \<Longrightarrow> len (utf8_encode t) \<le> 65536"
proof -
  have "case dumps_indent sample_repr (status_json (sample_status ''a'')) of Inl e \<Rightarrow> True | Inr t \<Rightarrow> length (utf8_encode t) \<le> 65536"
    by code_simp
  then show "dumps_indent sample_repr (status_json (sample_status ''a'')) = Inr t \<Longrightarrow> len (utf8_encode t) \<le> 65536" by simp
qed

theorem status_query_roundtrip_witness:
  "\<exists>n srv body t. sample_new ''a'' = Inr n \<and>
    StatusServer sample_env n 3 4 ''127.0.0.1'' 9102 None (Some sample_token) = Inr srv \<and>
    http_handle_client srv Stalled (utf8_encode (render_request ''GET'' ''/status''
      [(''Authorization'', ''Bearer '' @ sample_token)]) @ []) None None =
      (write_response (200, ''application/json'', body), None) \<and>
    utf8_decode body = Some t \<and> loads sample_parse t = Some (sort_json (status_json (sample_status ''a'')))"
proof -
  obtain n where n: "sample_new ''a'' = Inr n" using sample_node_new [of "''a''"] by blast
  note f = sample_new_facts [OF n]
  have s: "collect_status sample_env n 3 = Inr (sample_status ''a'')" using sample_collected n by blast
  obtain srv where srv: "StatusServer sample_env n 3 4 ''127.0.0.1'' 9102 None (Some sample_token) = Inr srv"
    "hs_token srv = Some sample_token" "hs_security srv = default_security_config"
    by (simp add: StatusServer_def HttpServer_def sample_token_def f(9))
  have "\<exists>body t. http_handle_client srv Stalled (utf8_encode (render_request ''GET'' ''/status''
      [(''Authorization'', ''Bearer '' @ sample_token)]) @ []) None None =
      (write_response (200, ''application/json'', body), None) \<and>
    utf8_decode body = Some t \<and> loads sample_parse t = Some (sort_json (status_json (sample_status ''a'')))"
    using f(11) sample_numbers [of "''a''"] sample_status_text
    by (intro status_query_roundtrip [OF srv(1) _ s])
     (simp_all add: word_ok_def visible_def header_ok_def sample_token_def srv default_security_config_def
       render_request_def render_headers_def parsed_headers_def lower_def lower_point_def points_def list_all_iff)
  with n srv(1) show ?thesis by blast
qed

end
