(* ===== verification/Tcp_Transport.thy ===== *)
theory Tcp_Transport
  imports Message_Guard
begin

section \<open>The TCP transport (transport.py)\<close>

text \<open>
  \<^verbatim>\<open>TcpTransport\<close>: framing, the authenticated handshake on both sides, admission of messages, the
  connection table and the inbox. A stream is the bytes its peer delivers before the
  connection ends or stalls; a read that wants more raises. The handler of an incoming
  connection is a coroutine that suspends at every frame: its state between two frames is a
  value of type \<open>conn\<close>, and handlers, sends and \<^verbatim>\<open>close\<close> interleave. The primitives of Ed25519 and
  \<^verbatim>\<open>repr\<close> and \<^verbatim>\<open>float\<close> on floats are the arguments \<open>E\<close>, \<open>fr\<close> and \<open>pf\<close>; readings of the wall clock and
  nonces are arguments, as are the answers of the operating system.
\<close>

subsection \<open>State\<close>

datatype conn = AwaitHello | Serving "string option"

record tcp_transport =
  tcp_id :: string
  tcp_identity :: key_pair
  tcp_ring :: key_ring
  tcp_security :: security_config
  tcp_addresses :: "(string, string \<times> int) dict"
  tcp_replay :: replay_cache
  tcp_inbox :: "(string \<times> message) list"
  tcp_connections :: "(string, nat) dict"
  tcp_writers :: "nat list"
  tcp_handlers :: "(nat, conn) dict"
  tcp_closed :: bool

definition TcpTransport ::
  "ed25519 \<Rightarrow> string \<Rightarrow> (string, string \<times> int) dict \<Rightarrow> key_pair \<Rightarrow> key_ring \<Rightarrow> security_config \<Rightarrow> tcp_transport result" where
  "TcpTransport E node_id peer_addresses key ring security =
     rbind (own_key E ring node_id key) (\<lambda>ring'.
     rbind (ReplayCache (replay_cache_size security)) (\<lambda>cache.
     Inr \<lparr>tcp_id = node_id, tcp_identity = key, tcp_ring = ring', tcp_security = security,
          tcp_addresses = peer_addresses, tcp_replay = cache, tcp_inbox = [], tcp_connections = [],
          tcp_writers = [], tcp_handlers = [], tcp_closed = False\<rparr>))"

subsection \<open>Messages\<close>

definition tcp_signed_message ::
  "ed25519 \<Rightarrow> (real \<Rightarrow> string) \<Rightarrow> tcp_transport \<Rightarrow> string \<Rightarrow> (string, json) dict \<Rightarrow> real \<Rightarrow> string \<Rightarrow> message result" where
  "tcp_signed_message E fr t ty pl wall token =
     signed E fr (tcp_identity t) (Fin wall) token None
       (Message ty (tcp_id t) pl (protocol_version (tcp_security t)))"

definition tcp_window :: "tcp_transport \<Rightarrow> real" where
  "tcp_window t = seconds (replay_window_seconds (tcp_security t))"

definition verify_message ::
  "ed25519 \<Rightarrow> (real \<Rightarrow> string) \<Rightarrow> tcp_transport \<Rightarrow> string option \<Rightarrow> message \<Rightarrow> real \<Rightarrow> (bool \<times> tcp_transport) result" where
  "verify_message E fr t expected_sender m wall =
     (if \<not> enabled (tcp_security t) then Inr (True, t)
      else if msg_version m \<noteq> protocol_version (tcp_security t) then Inr (False, t)
      else if expected_sender \<noteq> None \<and> expected_sender \<noteq> Some (msg_sender m) then Inr (False, t)
      else if \<not> has_peer (tcp_ring t) (msg_sender m) then Inr (False, t)
      else
        rbind (verify_signature E fr m (tcp_ring t)) (\<lambda>ok.
          if \<not> ok then Inr (False, t)
          else
            (case (msg_timestamp m, msg_nonce m) of
               (Some ts, Some nonce) \<Rightarrow>
                 if outside_window (tcp_window t) wall ts then Inr (False, t)
                 else
                   (let (b, c) = check_and_remember (tcp_replay t) (msg_sender m) nonce wall (tcp_window t)
                    in Inr (b, t\<lparr>tcp_replay := c\<rparr>))
             | _ \<Rightarrow> Inr (False, t))))"

fun inside_window :: "real \<Rightarrow> real \<Rightarrow> pyfloat \<Rightarrow> bool" where
  "inside_window w now (Fin t) = (\<bar>now - t\<bar> \<le> w)"
| "inside_window w now _ = False"

definition verify_local_message :: "ed25519 \<Rightarrow> (real \<Rightarrow> string) \<Rightarrow> tcp_transport \<Rightarrow> message \<Rightarrow> real \<Rightarrow> bool result" where
  "verify_local_message E fr t m wall =
     (if msg_sender m \<noteq> tcp_id t \<or> msg_version m \<noteq> protocol_version (tcp_security t) then Inr False
      else case (msg_timestamp m, msg_nonce m) of
             (Some ts, Some _) \<Rightarrow>
               if \<not> inside_window (tcp_window t) wall ts then Inr False
               else verify_signature E fr m (tcp_ring t)
           | _ \<Rightarrow> Inr False)"

subsection \<open>Frames\<close>

text \<open>The next frame of a stream and the rest; a stream that ends or stalls inside a frame raises.\<close>

definition tcp_read_frame :: "(string \<Rightarrow> pyfloat) \<Rightarrow> security_config \<Rightarrow> bytes \<Rightarrow> (message \<times> bytes) result" where
  "tcp_read_frame pf security stream =
     (if length stream < 4 then Inl MessageDecodeError
      else
        (let msg_len = un_be32 (take 4 stream)
         in if msg_len \<le> 0 \<or> int msg_len > max_frame_size security then Inl MessageDecodeError
            else if length (drop 4 stream) < msg_len then Inl MessageDecodeError
            else rbind (from_bytes pf (take msg_len (drop 4 stream)) security) (\<lambda>m.
                   Inr (m, drop (4 + msg_len) stream))))"

text \<open>The bytes written; \<open>drained\<close> says whether the peer took them before the time-out.\<close>

definition tcp_write_frame :: "(real \<Rightarrow> string) \<Rightarrow> security_config \<Rightarrow> bool \<Rightarrow> message \<Rightarrow> bytes result" where
  "tcp_write_frame fr security drained m =
     rbind (to_bytes fr (max_frame_size security) m) (\<lambda>b.
       if drained then Inr b else Inl MessageDecodeError)"

text \<open>\<^verbatim>\<open>payload.get("protocol_version") == version\<close>: Python compares numbers by value.\<close>

fun json_eq_int :: "json \<Rightarrow> int \<Rightarrow> bool" where
  "json_eq_int (JInt i) v = (i = v)"
| "json_eq_int (JFloat x) v = (x = Fin (of_int v))"
| "json_eq_int (JBool b) v = ((if b then 1 else 0) = v)"
| "json_eq_int _ v = False"

definition announces :: "message \<Rightarrow> string \<Rightarrow> int \<Rightarrow> bool" where
  "announces m ty v \<longleftrightarrow> msg_type m = ty \<and> json_eq_int (get_default (msg_payload m) ''protocol_version'' JNull) v"

subsection \<open>Incoming connections\<close>

text \<open>The \<^verbatim>\<open>finally\<close> block of \<^verbatim>\<open>_handle_client\<close>.\<close>

definition finish_client :: "nat \<Rightarrow> tcp_transport \<Rightarrow> tcp_transport" where
  "finish_client i t =
     t\<lparr>tcp_writers := filter (\<lambda>w. w \<noteq> i) (tcp_writers t), tcp_handlers := AList.delete i (tcp_handlers t)\<rparr>"

text \<open>\<^verbatim>\<open>while not self._closed\<close>: the handler waits for the next message, or ends.\<close>

definition await_next :: "nat \<Rightarrow> string option \<Rightarrow> tcp_transport \<Rightarrow> tcp_transport" where
  "await_next i sender t =
     (if tcp_closed t then finish_client i t
      else t\<lparr>tcp_handlers := AList.update i (Serving sender) (tcp_handlers t)\<rparr>)"

text \<open>A connection arrives; \<open>i\<close> is its new writer object.\<close>

definition accept_client :: "nat \<Rightarrow> tcp_transport \<Rightarrow> tcp_transport" where
  "accept_client i t =
     (if len (tcp_writers t) \<ge> max_connections (tcp_security t) then t
      else
        (let t1 = t\<lparr>tcp_writers := tcp_writers t @ [i]\<rparr>
         in if enabled (tcp_security t) then t1\<lparr>tcp_handlers := AList.update i AwaitHello (tcp_handlers t1)\<rparr>
            else await_next i None t1))"

definition inbox_put :: "string \<Rightarrow> message \<Rightarrow> tcp_transport \<Rightarrow> tcp_transport" where
  "inbox_put sender m t =
     (if 0 < max_inbox_size (tcp_security t) \<and> max_inbox_size (tcp_security t) \<le> len (tcp_inbox t) then t
      else t\<lparr>tcp_inbox := tcp_inbox t @ [(sender, m)]\<rparr>)"

text \<open>The handshake of the accepting side with the frame read; the acknowledgement it writes.\<close>

definition greet ::
  "ed25519 \<Rightarrow> (real \<Rightarrow> string) \<Rightarrow> nat \<Rightarrow> message \<Rightarrow> real \<Rightarrow> real \<Rightarrow> string \<Rightarrow> bool \<Rightarrow> tcp_transport \<Rightarrow>
   bytes option \<times> tcp_transport" where
  "greet E fr i hello wall wall' token drained t =
     (if \<not> announces hello ''hello'' (protocol_version (tcp_security t)) then (None, finish_client i t)
      else case verify_message E fr t None hello wall of
             Inl e \<Rightarrow> (None, finish_client i t)
           | Inr (False, t1) \<Rightarrow> (None, finish_client i t1)
           | Inr (True, t1) \<Rightarrow>
               (case rbind (tcp_signed_message E fr t1 ''hello_ack''
                        [(''protocol_version'', JInt (protocol_version (tcp_security t1)))] wall' token)
                       (tcp_write_frame fr (tcp_security t1) drained) of
                  Inl e \<Rightarrow> (None, finish_client i t1)
                | Inr b \<Rightarrow> (Some b, await_next i (Some (msg_sender hello)) t1)))"

text \<open>A message on an established connection.\<close>

definition take_message ::
  "ed25519 \<Rightarrow> (real \<Rightarrow> string) \<Rightarrow> nat \<Rightarrow> string option \<Rightarrow> message \<Rightarrow> real \<Rightarrow> tcp_transport \<Rightarrow> tcp_transport" where
  "take_message E fr i sender m wall t =
     (if \<not> enabled (tcp_security t) then await_next i sender (inbox_put (msg_sender m) m t)
      else if msg_type m \<in> {''hello'', ''hello_ack''} then finish_client i t
      else case verify_message E fr t sender m wall of
             Inl e \<Rightarrow> finish_client i t
           | Inr (False, t1) \<Rightarrow> finish_client i t1
           | Inr (True, t1) \<Rightarrow> await_next i sender (inbox_put (msg_sender m) m t1))"

text \<open>
  One turn of \<^verbatim>\<open>_handle_client\<close>: the handler of connection \<open>i\<close> reads a frame from its stream. An
  exception, caught or not, ends the handler after its \<^verbatim>\<open>finally\<close> block.
\<close>

definition handle_client ::
  "ed25519 \<Rightarrow> (real \<Rightarrow> string) \<Rightarrow> (string \<Rightarrow> pyfloat) \<Rightarrow> nat \<Rightarrow> bytes \<Rightarrow> real \<Rightarrow> real \<Rightarrow> string \<Rightarrow> bool \<Rightarrow> tcp_transport \<Rightarrow>
   tcp_transport" where
  "handle_client E fr pf i stream wall wall' token drained t =
     (case map_of (tcp_handlers t) i of
        None \<Rightarrow> t
      | Some h \<Rightarrow>
          (case tcp_read_frame pf (tcp_security t) stream of
             Inl e \<Rightarrow> finish_client i t
           | Inr (m, rest) \<Rightarrow>
               (case h of
                  AwaitHello \<Rightarrow> snd (greet E fr i m wall wall' token drained t)
                | Serving sender \<Rightarrow> take_message E fr i sender m wall t)))"

subsection \<open>Outgoing connections\<close>

text \<open>What the operating system answers: the new writer object, or a time-out; the stream to read.\<close>

record dialed =
  dial_writer :: "nat option"
  dial_stream :: bytes

definition connect_peer ::
  "ed25519 \<Rightarrow> (real \<Rightarrow> string) \<Rightarrow> (string \<Rightarrow> pyfloat) \<Rightarrow> string \<Rightarrow> dialed \<Rightarrow> real \<Rightarrow> real \<Rightarrow> string \<Rightarrow> bool \<Rightarrow>
   tcp_transport \<Rightarrow> (nat \<times> bytes) result \<times> tcp_transport" where
  "connect_peer E fr pf peer_id d wall wall' token drained t =
     (if \<not> has_key (tcp_addresses t) peer_id then (Inl ValueError, t)
      else if len (tcp_connections t) \<ge> max_connections (tcp_security t) then (Inl ConnectionError, t)
      else case dial_writer d of
             None \<Rightarrow> (Inl ConnectionError, t)
           | Some w \<Rightarrow>
               if \<not> enabled (tcp_security t)
               then (Inr (w, []), t\<lparr>tcp_connections := AList.update peer_id w (tcp_connections t)\<rparr>)
               else
                 (case rbind (tcp_signed_message E fr t ''hello''
                          [(''protocol_version'', JInt (protocol_version (tcp_security t)))] wall token)
                         (tcp_write_frame fr (tcp_security t) drained) of
                    Inl e \<Rightarrow> (Inl e, t)
                  | Inr b \<Rightarrow>
                      (case tcp_read_frame pf (tcp_security t) (dial_stream d) of
                         Inl e \<Rightarrow> (Inl e, t)
                       | Inr (ack, rest) \<Rightarrow>
                           if \<not> announces ack ''hello_ack'' (protocol_version (tcp_security t)) then (Inl PermissionError, t)
                           else
                             (case verify_message E fr t (Some peer_id) ack wall' of
                                Inl e \<Rightarrow> (Inl e, t)
                              | Inr (False, t1) \<Rightarrow> (Inl PermissionError, t1)
                              | Inr (True, t1) \<Rightarrow>
                                  (Inr (w, b), t1\<lparr>tcp_connections := AList.update peer_id w (tcp_connections t1)\<rparr>)))))"

text \<open>The writer to use and what the handshake wrote to it; \<open>closing\<close> is \<^verbatim>\<open>writer.is_closing()\<close>.\<close>

definition get_or_connect ::
  "ed25519 \<Rightarrow> (real \<Rightarrow> string) \<Rightarrow> (string \<Rightarrow> pyfloat) \<Rightarrow> (nat \<Rightarrow> bool) \<Rightarrow> string \<Rightarrow> dialed \<Rightarrow> real \<Rightarrow> real \<Rightarrow> string \<Rightarrow> bool \<Rightarrow>
   tcp_transport \<Rightarrow> (nat \<times> bytes) result \<times> tcp_transport" where
  "get_or_connect E fr pf closing peer_id d wall wall' token drained t =
     (case map_of (tcp_connections t) peer_id of
        Some w \<Rightarrow>
          if \<not> closing w then (Inr (w, []), t)
          else connect_peer E fr pf peer_id d wall wall' token drained t
      | None \<Rightarrow> connect_peer E fr pf peer_id d wall wall' token drained t)"

text \<open>\<^verbatim>\<open>send\<close>: the writer and the bytes written to it.\<close>

definition tcp_send ::
  "ed25519 \<Rightarrow> (real \<Rightarrow> string) \<Rightarrow> (string \<Rightarrow> pyfloat) \<Rightarrow> (nat \<Rightarrow> bool) \<Rightarrow> string \<Rightarrow> message \<Rightarrow> dialed \<Rightarrow> real \<Rightarrow> real \<Rightarrow> string \<Rightarrow>
   bool \<Rightarrow> bool \<Rightarrow> tcp_transport \<Rightarrow> (nat \<times> bytes) result \<times> tcp_transport" where
  "tcp_send E fr pf closing peer_id m d wall wall' token drained drained' t =
     (if tcp_closed t then (Inl RuntimeError, t)
      else case (if enabled (tcp_security t) then verify_local_message E fr t m wall else Inr True) of
             Inl e \<Rightarrow> (Inl e, t)
           | Inr False \<Rightarrow> (Inl PermissionError, t)
           | Inr True \<Rightarrow>
               (case get_or_connect E fr pf closing peer_id d wall wall' token drained t of
                  (Inl e, t1) \<Rightarrow> (Inl e, t1)
                | (Inr (w, hello), t1) \<Rightarrow>
                    (case tcp_write_frame fr (tcp_security t1) drained' m of
                       Inl e \<Rightarrow> (Inl e, t1\<lparr>tcp_connections := AList.delete peer_id (tcp_connections t1)\<rparr>)
                     | Inr b \<Rightarrow> (Inr (w, hello @ b), t1))))"

text \<open>\<^verbatim>\<open>recv\<close>: a message, or \<open>None\<close> when the coroutine waits for one.\<close>

definition tcp_recv :: "tcp_transport \<Rightarrow> ((string \<times> message) option \<times> tcp_transport) result" where
  "tcp_recv t =
     (case tcp_inbox t of
        [] \<Rightarrow> if tcp_closed t then Inl RuntimeError else Inr (None, t)
      | x # xs \<Rightarrow> Inr (Some x, t\<lparr>tcp_inbox := xs\<rparr>))"

definition tcp_close :: "tcp_transport \<Rightarrow> tcp_transport" where
  "tcp_close t = t\<lparr>tcp_closed := True, tcp_connections := [], tcp_writers := []\<rparr>"

subsection \<open>Streams of frames\<close>

text \<open>What a peer writes for a sequence of messages, and what a handler reads from it.\<close>

fun write_all :: "(real \<Rightarrow> string) \<Rightarrow> int \<Rightarrow> message list \<Rightarrow> bytes result" where
  "write_all fr mx [] = Inr []"
| "write_all fr mx (m # ms) = rbind (to_bytes fr mx m) (\<lambda>b. rbind (write_all fr mx ms) (\<lambda>bs. Inr (b @ bs)))"

lemma tcp_read_frame_progress: "tcp_read_frame pf security stream = Inr (m, rest) \<Longrightarrow> length rest < length stream"
  by (auto simp: tcp_read_frame_def Let_def rbind_Inr_iff split: if_splits)

text \<open>The frames of a stream up to its end; the exception that ends the reading, if it is not the end.\<close>

function read_all :: "(string \<Rightarrow> pyfloat) \<Rightarrow> security_config \<Rightarrow> bytes \<Rightarrow> message list \<times> py_error option" where
  "read_all pf security stream =
     (if stream = [] then ([], None)
      else case tcp_read_frame pf security stream of
             Inl e \<Rightarrow> ([], Some e)
           | Inr (m, rest) \<Rightarrow> (let (ms, err) = read_all pf security rest in (m # ms, err)))"
  by pat_completeness auto

termination
  by (relation "measure (\<lambda>(pf, security, stream). length stream)") (auto dest: tcp_read_frame_progress)

declare read_all.simps [simp del]

definition wire_image :: "message \<Rightarrow> message" where
  "wire_image m = m\<lparr>msg_payload := sort_dict (msg_payload m)\<rparr>"

text \<open>What a message needs to pass the decoder of a receiver with configuration \<open>c\<close>.\<close>

definition wire_ok :: "(real \<Rightarrow> string) \<Rightarrow> (string \<Rightarrow> pyfloat) \<Rightarrow> security_config \<Rightarrow> message \<Rightarrow> bool" where
  "wire_ok fr pf c m \<longleftrightarrow> printable fr pf (wire_document m) \<and>
     validate_json_tree (config_limits c) (wire_document m) = Inr () \<and>
     (\<forall>n \<in> set_option (msg_nonce m). n \<noteq> [] \<and> len n \<le> 128) \<and> (\<forall>s \<in> set_option (msg_signature m). length s = 64)"

lemma frame_decodes:
  assumes "to_bytes fr mx m = Inr b" "mx \<le> max_frame_size c" "0 \<le> max_json_items c" "wire_ok fr pf c m"
  shows "from_bytes pf (drop 4 b) c = Inr (wire_image m)" "4 < length b" "un_be32 (take 4 b) = length b - 4"
    "int (length b - 4) \<le> max_frame_size c"
proof -
  obtain data where b: "b = be32 (length data) @ data" "length data < 2 ^ 32" using assms(1) by (auto simp: to_bytes_Inr)
  from wire_roundtrip [OF assms(1-3), of pf] assms(4)
  have w: "un_be32 (take 4 b) = length (drop 4 b)" "from_bytes pf (drop 4 b) c = Inr (wire_image m)"
    by (auto simp: wire_ok_def wire_image_def)
  then show "from_bytes pf (drop 4 b) c = Inr (wire_image m)" "un_be32 (take 4 b) = length b - 4" by simp_all
  have "drop 4 b \<noteq> []"
  proof
    assume "drop 4 b = []"
    with w(2) show False by (simp add: from_bytes_def rbind_Inr_iff loads_def skip_ws_def parse_value.simps)
  qed
  then show "4 < length b" by simp
  show "int (length b - 4) \<le> max_frame_size c" using w(2) by (auto simp: from_bytes_def rbind_Inr_iff)
qed

lemma read_frame_append:
  assumes "to_bytes fr mx m = Inr b" "mx \<le> max_frame_size c" "0 \<le> max_json_items c" "wire_ok fr pf c m"
  shows "tcp_read_frame pf c (b @ rest) = Inr (wire_image m, rest)"
  using frame_decodes [OF assms] by (simp add: tcp_read_frame_def Let_def)

lemma tcp_read_frame_cut:
  assumes "to_bytes fr mx m = Inr b" "mx \<le> max_frame_size c" "0 \<le> max_json_items c" "wire_ok fr pf c m" "k < length b"
  shows "tcp_read_frame pf c (take k b) = Inl MessageDecodeError"
proof (cases "k < 4")
  case False
  then have "take 4 (take k b) = take 4 b" by (simp add: min_def)
  moreover have "k - 4 < length b - 4" using False assms(5) by simp
  ultimately show ?thesis using False frame_decodes [OF assms(1-4)] assms(5) by (simp add: tcp_read_frame_def Let_def)
qed (simp add: tcp_read_frame_def min_def)


subsection \<open>Admission\<close>

lemma verify_message_True:
  assumes "enabled (tcp_security t)" "verify_message E fr t expected m wall = Inr (True, t')"
  obtains nonce ts where "expected = None \<or> expected = Some (msg_sender m)"
    "genuine_for E fr (tcp_ring t) (protocol_version (tcp_security t)) m"
    "msg_timestamp m = Some (Fin ts)" "\<bar>wall - ts\<bar> \<le> tcp_window t" "msg_nonce m = Some nonce"
    "check_and_remember (tcp_replay t) (msg_sender m) nonce wall (tcp_window t) = (True, tcp_replay t')"
    "t' = t\<lparr>tcp_replay := tcp_replay t'\<rparr>"
proof -
  obtain x nonce c where a: "expected = None \<or> expected = Some (msg_sender m)"
    "msg_version m = protocol_version (tcp_security t)" "verify_signature E fr m (tcp_ring t) = Inr True"
    "msg_timestamp m = Some x" "msg_nonce m = Some nonce" "\<not> outside_window (tcp_window t) wall x"
    "check_and_remember (tcp_replay t) (msg_sender m) nonce wall (tcp_window t) = (True, c)" "t' = t\<lparr>tcp_replay := c\<rparr>"
    using assms by (auto simp: verify_message_def rbind_Inr_iff Let_def split: if_splits option.splits prod.splits)
  moreover obtain ts where "x = Fin ts" "\<bar>wall - ts\<bar> \<le> tcp_window t"
    using outside_window_False [OF a(6)] verify_signature_not_nan [OF a(3)] a(4) by auto
  ultimately show ?thesis using that by (simp add: genuine_for_def)
qed

lemma verify_message_keeps: "verify_message E fr t expected m wall = Inr (b, t') \<Longrightarrow> \<exists>c. t' = t\<lparr>tcp_replay := c\<rparr>"
  by (auto simp: verify_message_def rbind_Inr_iff Let_def split: if_splits option.splits prod.splits
      intro: exI [of _ "tcp_replay t"])

lemma verify_message_valid:
  assumes "enabled (tcp_security t)" "msg_version m = protocol_version (tcp_security t)"
    "expected = None \<or> expected = Some (msg_sender m)" "verify_signature E fr m (tcp_ring t) = Inr True"
    "msg_timestamp m = Some (Fin ts)" "\<bar>wall - ts\<bar> \<le> tcp_window t" "msg_nonce m = Some nonce"
    "check_and_remember (tcp_replay t) (msg_sender m) nonce wall (tcp_window t) = (b, c)"
  shows "verify_message E fr t expected m wall = Inr (b, t\<lparr>tcp_replay := c\<rparr>)"
proof -
  have "has_peer (tcp_ring t) (msg_sender m)"
    using assms(4) by (auto simp: verify_signature_True has_peer_def has_key_def)
  with assms show ?thesis by (auto simp: verify_message_def)
qed

interpretation tg: message_guard "verify_message E fr" "\<lambda>t. enabled (tcp_security t)" tcp_replay tcp_window
  "\<lambda>t. genuine_for E fr (tcp_ring t) (protocol_version (tcp_security t))" for E fr
proof
  fix t t' expected m now
  assume "enabled (tcp_security t)" "verify_message E fr t expected m now = Inr (True, t')"
  then show "genuine_for E fr (tcp_ring t) (protocol_version (tcp_security t)) m \<and> fresh_at (tcp_window t) now m \<and>
      (\<exists>n. msg_nonce m = Some n \<and>
        check_and_remember (tcp_replay t) (msg_sender m) n now (tcp_window t) = (True, tcp_replay t'))"
    by (elim verify_message_True) (auto simp: fresh_at_def)
next
  fix t t' expected m now
  assume "enabled (tcp_security t)" "verify_message E fr t expected m now = Inr (False, t')"
  then show "tcp_replay t' = tcp_replay t \<or>
      (\<exists>n. check_and_remember (tcp_replay t) (msg_sender m) n now (tcp_window t) = (False, tcp_replay t'))"
    by (auto simp: verify_message_def rbind_Inr_iff Let_def split: if_splits option.splits prod.splits)
next
  fix t t' expected m now b
  assume "enabled (tcp_security t)" "verify_message E fr t expected m now = Inr (b, t')"
  then show "enabled (tcp_security t') \<and> tcp_window t' = tcp_window t \<and>
      genuine_for E fr (tcp_ring t') (protocol_version (tcp_security t')) =
      genuine_for E fr (tcp_ring t) (protocol_version (tcp_security t))"
    by (auto dest!: verify_message_keeps simp: tcp_window_def)
qed

subsection \<open>What reaches the inbox\<close>

datatype tcp_event =
    Accept nat
  | Frame nat bytes real real string bool
  | Dial string message dialed "nat \<Rightarrow> bool" real real string bool bool
  | Fetch
  | Shutdown

definition tcp_step :: "ed25519 \<Rightarrow> (real \<Rightarrow> string) \<Rightarrow> (string \<Rightarrow> pyfloat) \<Rightarrow> tcp_event \<Rightarrow> tcp_transport \<Rightarrow> tcp_transport" where
  "tcp_step E fr pf e t =
     (case e of
        Accept i \<Rightarrow> accept_client i t
      | Frame i stream wall wall' token drained \<Rightarrow> handle_client E fr pf i stream wall wall' token drained t
      | Dial peer_id m d closing wall wall' token drained drained' \<Rightarrow>
          snd (tcp_send E fr pf closing peer_id m d wall wall' token drained drained' t)
      | Fetch \<Rightarrow> (case tcp_recv t of Inl _ \<Rightarrow> t | Inr (_, t') \<Rightarrow> t')
      | Shutdown \<Rightarrow> tcp_close t)"

definition tcp_run :: "ed25519 \<Rightarrow> (real \<Rightarrow> string) \<Rightarrow> (string \<Rightarrow> pyfloat) \<Rightarrow> tcp_event list \<Rightarrow> tcp_transport \<Rightarrow> tcp_transport" where
  "tcp_run E fr pf evs t = fold (tcp_step E fr pf) evs t"

definition tcp_config :: "tcp_transport \<Rightarrow> tcp_transport \<Rightarrow> bool" where
  "tcp_config t t' \<longleftrightarrow> tcp_id t' = tcp_id t \<and> tcp_identity t' = tcp_identity t \<and> tcp_ring t' = tcp_ring t \<and>
     tcp_security t' = tcp_security t \<and> tcp_addresses t' = tcp_addresses t"

lemma tcp_config_refl [simp]: "tcp_config t t"
  by (simp add: tcp_config_def)

lemma tcp_config_trans: "tcp_config t t1 \<Longrightarrow> tcp_config t1 t2 \<Longrightarrow> tcp_config t t2"
  by (simp add: tcp_config_def)

definition trusted :: "ed25519 \<Rightarrow> (real \<Rightarrow> string) \<Rightarrow> tcp_transport \<Rightarrow> string \<times> message \<Rightarrow> bool" where
  "trusted E fr t x \<longleftrightarrow> fst x = msg_sender (snd x) \<and> msg_type (snd x) \<notin> {''hello'', ''hello_ack''} \<and>
     genuine_for E fr (tcp_ring t) (protocol_version (tcp_security t)) (snd x)"

text \<open>The invariant: bounds on inbox and connections, and under security only trusted messages and named handlers.\<close>

definition tcp_inv :: "ed25519 \<Rightarrow> (real \<Rightarrow> string) \<Rightarrow> tcp_transport \<Rightarrow> bool" where
  "tcp_inv E fr t \<longleftrightarrow>
     (0 < max_inbox_size (tcp_security t) \<longrightarrow> len (tcp_inbox t) \<le> max_inbox_size (tcp_security t)) \<and>
     len (tcp_writers t) \<le> max_connections (tcp_security t) \<and>
     len (tcp_connections t) \<le> max_connections (tcp_security t) \<and>
     (enabled (tcp_security t) \<longrightarrow> (\<forall>x \<in> set (tcp_inbox t). trusted E fr t x))"

definition leads_tcp :: "ed25519 \<Rightarrow> (real \<Rightarrow> string) \<Rightarrow> tcp_transport \<Rightarrow> tcp_transport \<Rightarrow> bool" where
  "leads_tcp E fr t t' \<longleftrightarrow> tcp_config t t' \<and> (tcp_inv E fr t \<longrightarrow> tcp_inv E fr t')"

lemma leads_tcp_trans: "leads_tcp E fr t t1 \<Longrightarrow> leads_tcp E fr t1 t2 \<Longrightarrow> leads_tcp E fr t t2"
  by (auto simp: leads_tcp_def intro: tcp_config_trans)

lemma leads_tcp_refl [simp]: "leads_tcp E fr t t"
  by (simp add: leads_tcp_def)

lemma trusted_config: "tcp_config t t' \<Longrightarrow> trusted E fr t' x = trusted E fr t x"
  by (simp add: trusted_def tcp_config_def)

lemma leads_tcp_other:
  assumes "tcp_config t t'" "tcp_inbox t' = tcp_inbox t" "len (tcp_writers t') \<le> len (tcp_writers t)"
    and "len (tcp_connections t') \<le> len (tcp_connections t)"
  shows "leads_tcp E fr t t'"
proof -
  have "tcp_security t' = tcp_security t" using assms(1) by (simp add: tcp_config_def)
  then show ?thesis using assms(2-4) trusted_config [OF assms(1), of E fr] by (auto simp: leads_tcp_def assms(1) tcp_inv_def)
qed

lemma leads_finish [simp]: "leads_tcp E fr t (finish_client i t)"
  by (rule leads_tcp_other) (simp_all add: finish_client_def tcp_config_def)

lemma leads_await [simp]: "leads_tcp E fr t (await_next i s t)"
  by (cases "tcp_closed t") (simp_all add: await_next_def leads_tcp_other tcp_config_def)

lemma leads_verify: "verify_message E fr t expected m wall = Inr (b, t') \<Longrightarrow> leads_tcp E fr t t'"
  by (auto dest!: verify_message_keeps intro!: leads_tcp_other simp: tcp_config_def)

lemma leads_put:
  assumes "enabled (tcp_security t) \<Longrightarrow> trusted E fr t (s, m)"
  shows "leads_tcp E fr t (inbox_put s m t)"
  using assms by (auto simp: leads_tcp_def inbox_put_def tcp_inv_def tcp_config_def trusted_def)

lemma leads_accept: "leads_tcp E fr t (accept_client i t)"
proof (cases "len (tcp_writers t) \<ge> max_connections (tcp_security t)")
  case False
  let ?t1 = "t\<lparr>tcp_writers := tcp_writers t @ [i]\<rparr>"
  have "leads_tcp E fr t ?t1" using False by (auto simp: leads_tcp_def tcp_config_def tcp_inv_def trusted_def)
  moreover have "leads_tcp E fr ?t1 (?t1\<lparr>tcp_handlers := h\<rparr>)" for h by (rule leads_tcp_other) (simp_all add: tcp_config_def)
  ultimately show ?thesis
    using False by (auto simp: accept_client_def Let_def intro: leads_tcp_trans)
qed (simp add: accept_client_def)

lemma leads_greet: "leads_tcp E fr t (snd (greet E fr i hello wall wall' token drained t))"
  by (auto simp: greet_def dest!: leads_verify intro: leads_tcp_trans split: sum.split bool.split)

lemma leads_take_message: "leads_tcp E fr t (take_message E fr i sender m wall t)"
proof (cases "enabled (tcp_security t)")
  case False
  have "leads_tcp E fr t (inbox_put (msg_sender m) m t)" using False by (intro leads_put) simp
  then show ?thesis using False by (auto simp: take_message_def intro: leads_tcp_trans)
next
  case True
  have put: "leads_tcp E fr t (await_next i sender (inbox_put (msg_sender m) m t1))"
    if v: "verify_message E fr t sender m wall = Inr (True, t1)" "msg_type m \<notin> {''hello'', ''hello_ack''}" for t1
  proof -
    have "genuine_for E fr (tcp_ring t) (protocol_version (tcp_security t)) m" using tg.accepted [OF True v(1)] by simp
    then have "trusted E fr t (msg_sender m, m)" using v(2) by (simp add: trusted_def)
    moreover have l: "leads_tcp E fr t t1" using leads_verify [OF v(1)] .
    ultimately have "leads_tcp E fr t1 (inbox_put (msg_sender m) m t1)"
      using trusted_config [of t t1 E fr] by (intro leads_put) (simp add: leads_tcp_def)
    with l show ?thesis by (meson leads_await leads_tcp_trans)
  qed
  show ?thesis
  proof (cases "verify_message E fr t sender m wall")
    case (Inr x)
    obtain b t1 where x: "x = (b, t1)" by (cases x)
    with Inr have v: "verify_message E fr t sender m wall = Inr (b, t1)" by simp
    show ?thesis using True v put [of t1] leads_tcp_trans [OF leads_verify [OF v] leads_finish, of i]
      by (cases b) (simp_all add: take_message_def)
  qed (use True in \<open>simp add: take_message_def\<close>)
qed


lemma leads_handle: "leads_tcp E fr t (handle_client E fr pf i stream wall wall' token drained t)"
  by (auto simp: handle_client_def leads_greet leads_take_message split: option.split sum.split conn.split)

lemma leads_update:
  assumes "leads_tcp E fr t t1" "tcp_connections t1 = tcp_connections t" "len (tcp_connections t) < max_connections (tcp_security t)"
  shows "leads_tcp E fr t (t1\<lparr>tcp_connections := AList.update peer_id w (tcp_connections t1)\<rparr>)"
proof -
  let ?cs = "AList.update peer_id w (tcp_connections t1)"
  have c: "tcp_config t t1" "tcp_inv E fr t \<longrightarrow> tcp_inv E fr t1" using assms(1) by (simp_all add: leads_tcp_def)
  then have l: "len ?cs \<le> max_connections (tcp_security t1)"
    using assms(2,3) by (simp add: length_update tcp_config_def)
  have "tcp_inv E fr t1 \<longrightarrow> tcp_inv E fr (t1\<lparr>tcp_connections := ?cs\<rparr>)"
    using l trusted_config [of t1 "t1\<lparr>tcp_connections := ?cs\<rparr>" E fr] unfolding tcp_inv_def by (simp add: tcp_config_def)
  moreover have "tcp_config t (t1\<lparr>tcp_connections := ?cs\<rparr>)" using c(1) by (simp add: tcp_config_def)
  ultimately show ?thesis using c(2) by (simp add: leads_tcp_def)
qed

lemma leads_connect: "leads_tcp E fr t (snd (connect_peer E fr pf peer_id d wall wall' token drained t))"
proof -
  have v: "leads_tcp E fr t (t1\<lparr>tcp_connections := AList.update peer_id w (tcp_connections t1)\<rparr>)" "leads_tcp E fr t t1"
    if "verify_message E fr t (Some peer_id) ack wall' = Inr (b, t1)" "len (tcp_connections t) < max_connections (tcp_security t)"
    for b t1 ack w
    using that leads_verify [OF that(1)] verify_message_keeps [OF that(1)] by (auto intro: leads_update)
  have u: "leads_tcp E fr t (t\<lparr>tcp_connections := AList.update peer_id w (tcp_connections t)\<rparr>)"
    if "len (tcp_connections t) < max_connections (tcp_security t)" for w
    using leads_update [OF leads_tcp_refl refl that] by simp
  show ?thesis
    by (auto simp: connect_peer_def u v not_le split: option.split sum.split bool.split dest: v)
qed

lemma leads_send: "leads_tcp E fr t (snd (tcp_send E fr pf closing peer_id m d wall wall' token drained drained' t))"
proof -
  obtain r t1 where g: "get_or_connect E fr pf closing peer_id d wall wall' token drained t = (r, t1)" by fastforce
  have l: "leads_tcp E fr t t1"
    using leads_connect [of E fr t pf peer_id d wall wall' token drained] g
    by (auto simp: get_or_connect_def split: option.splits if_splits)
  moreover have "leads_tcp E fr t1 (t1\<lparr>tcp_connections := AList.delete peer_id (tcp_connections t1)\<rparr>)"
    by (rule leads_tcp_other) (simp_all add: tcp_config_def AList.delete_eq)
  ultimately show ?thesis
    using g by (auto simp: tcp_send_def intro: leads_tcp_trans split: sum.split bool.split)
qed

lemma leads_step: "leads_tcp E fr t (tcp_step E fr pf e t)"
proof (cases e)
  case Fetch
  then show ?thesis
    by (auto simp: tcp_step_def tcp_recv_def leads_tcp_def tcp_config_def tcp_inv_def trusted_def split: list.split)
next
  case Shutdown
  then show ?thesis by (auto simp: tcp_step_def tcp_close_def intro!: leads_tcp_other simp: tcp_config_def)
qed (simp_all add: tcp_step_def leads_accept leads_handle leads_send)

lemma tcp_leads_run: "leads_tcp E fr t (tcp_run E fr pf evs t)"
  by (induction evs arbitrary: t) (auto simp: tcp_run_def intro: leads_tcp_trans [OF leads_step])

lemma TcpTransport_inv:
  assumes "TcpTransport E node_id addrs key ring sec = Inr t" "0 < max_connections sec"
  shows "tcp_inv E fr t" "tcp_security t = sec"
  using assms by (auto simp: TcpTransport_def rbind_Inr_iff tcp_inv_def)


text \<open>
  C20: the handshake authenticates the peer. A secure transport records a connection under a
  peer's name only after reading from it an acknowledgement of the configured version that
  verifies under that peer's registered key, is dated within the replay window and carries a
  nonce not seen before; every other answer raises and leaves the connection table as it was.
\<close>

theorem handshake_authenticates:
  assumes "enabled (tcp_security t)" "connect_peer E fr pf peer_id d wall wall' token drained t = (r, t')"
  shows "(case r of
      Inl e \<Rightarrow> tcp_connections t' = tcp_connections t
    | Inr (w, b) \<Rightarrow> \<exists>ack rest nonce. tcp_connections t' = AList.update peer_id w (tcp_connections t) \<and>
        tcp_read_frame pf (tcp_security t) (dial_stream d) = Inr (ack, rest) \<and> msg_type ack = ''hello_ack'' \<and>
        msg_sender ack = peer_id \<and> verify_signature E fr ack (tcp_ring t) = Inr True \<and>
        msg_version ack = protocol_version (tcp_security t) \<and> fresh_at (tcp_window t) wall' ack \<and> msg_nonce ack = Some nonce \<and>
        fst (check_and_remember (tcp_replay t) peer_id nonce wall' (tcp_window t)))"
proof (cases r)
  case (Inl e)
  then show ?thesis
    using assms by (auto simp: connect_peer_def dest!: verify_message_keeps split: if_splits option.splits sum.splits bool.splits)
next
  case (Inr wb)
  obtain w b where wb: "wb = (w, b)" by (cases wb)
  obtain ack rest t1 where a: "tcp_read_frame pf (tcp_security t) (dial_stream d) = Inr (ack, rest)"
    "announces ack ''hello_ack'' (protocol_version (tcp_security t))" "verify_message E fr t (Some peer_id) ack wall' = Inr (True, t1)"
    "t' = t1\<lparr>tcp_connections := AList.update peer_id w (tcp_connections t1)\<rparr>"
    using assms Inr wb by (auto simp: connect_peer_def split: if_splits option.splits sum.splits bool.splits)
  note v = tg.accepted [OF assms(1) a(3)]
  have "msg_sender ack = peer_id" using assms(1) a(3) by (elim verify_message_True) auto
  then show ?thesis
    using Inr wb a v verify_message_keeps [OF a(3)] by (auto simp: announces_def genuine_for_def)
qed

subsection \<open>Concrete connections\<close>

text \<open>Primitives that accept every signature, a server, and messages of a client.\<close>

definition lenient_ed25519 :: ed25519 where
  "lenient_ed25519 = sample_ed25519\<lparr>verify_raw := (\<lambda>k s d. True)\<rparr>"

definition sample_tcp :: tcp_transport where
  "sample_tcp = \<lparr>tcp_id = ''b'', tcp_identity = KeyPair [9], tcp_ring = [(''a'', PublicKey [7]), (''b'', PublicKey [9])],
     tcp_security = default_security_config, tcp_addresses = [(''a'', ''h'', 1)],
     tcp_replay = \<lparr>max_entries = 4096, entries = []\<rparr>, tcp_inbox = [], tcp_connections = [], tcp_writers = [],
     tcp_handlers = [], tcp_closed = False\<rparr>"

lemma sample_tcp_new:
  "TcpTransport lenient_ed25519 ''b'' [(''a'', ''h'', 1)] (KeyPair [9]) [(''a'', PublicKey [7]), (''b'', PublicKey [9])]
     default_security_config = Inr sample_tcp"
  by (simp add: TcpTransport_def own_key_def get_peer_key_def public_to_bytes_def public_key_of_def lenient_ed25519_def
      sample_ed25519_def ReplayCache_def sample_tcp_def default_security_config_def)

definition sample_greeting :: "string \<Rightarrow> message" where
  "sample_greeting ty = (Message ty ''a'' [(''protocol_version'', JInt 2)] 2)
     \<lparr>msg_timestamp := Some (Fin (1 / 2)), msg_nonce := Some ty, msg_signature := Some (replicate 64 0)\<rparr>"

lemma sample_greeting_fields [simp]:
  "msg_type (sample_greeting ty) = ty" "msg_sender (sample_greeting ty) = ''a''"
  "msg_payload (sample_greeting ty) = [(''protocol_version'', JInt 2)]" "msg_version (sample_greeting ty) = 2"
  "msg_timestamp (sample_greeting ty) = Some (Fin (1 / 2))" "msg_nonce (sample_greeting ty) = Some ty"
  "msg_signature (sample_greeting ty) = Some (replicate 64 0)" "wire_image (sample_greeting ty) = sample_greeting ty"
  by (simp_all add: sample_greeting_def Message_def wire_image_def sort_dict_def)

lemma sample_greeting_ok:
  assumes "ty \<in> {''hello'', ''hello_ack'', ''credit''}"
  shows "wire_ok sample_repr sample_parse default_security_config (sample_greeting ty)"
proof -
  have "length (utf8_encode (hex_of (replicate 64 0))) \<le> 2 * 128"
    using length_utf8_encode_le [of "hex_of (replicate 64 0)"] by simp
  then have "validate_json_tree (config_limits default_security_config) (wire_document (sample_greeting ty)) = Inr ()"
    using assms by (auto simp: validate_Inr config_limits_def default_security_config_def
        wire_document_def unsigned_document_def hex_json_def utf8_encode_def utf8_char_def)
  moreover have "printable sample_repr sample_parse (wire_document (sample_greeting ty))"
    by (simp add: wire_document_def unsigned_document_def printable_def hex_json_def sample_float_text_ok
      max_str_digits_def dec_nat.simps)
  ultimately show ?thesis using assms by (auto simp: wire_ok_def)
qed

lemma sample_greeting_bytes:
  assumes "ty \<in> {''hello'', ''hello_ack'', ''credit''}"
  shows "\<exists>b. to_bytes sample_repr (max_frame_size default_security_config) (sample_greeting ty) = Inr b"
proof -
  let ?m = "sample_greeting ty"
  let ?t = "dump sample_repr False (sort_json (wire_document ?m))"
  have "length ?t \<le> 2000"
    using assms length_quote [of False "hex_of (replicate 64 0)"] length_quote [of False ty]
    by (auto simp: wire_document_def unsigned_document_def sort_key_simps hex_json_def sample_repr_def quote_def
        escape_char_def dec_int_def dec_nat.simps)
  then have "length (utf8_encode ?t) \<le> 4000" using length_utf8_encode_le [of ?t] by linarith
  moreover have "validate_json_tree envelope_limits (JDict (msg_payload ?m)) = Inr ()"
    by (simp add: validate_Inr envelope_limits_def utf8_encode_def utf8_char_def)
  moreover have "dumpable (wire_document ?m)"
    using sample_greeting_ok [OF assms] by (simp add: printable_def wire_ok_def)
  ultimately show ?thesis
    using assms
    by (auto simp: to_bytes_Inr canonical_json_bytes_Inr MAX_MESSAGE_TYPE_LENGTH_def MAX_PEER_ID_LENGTH_def
        default_security_config_def MAX_FRAME_SIZE_def)
qed

lemma sample_frame:
  assumes "ty \<in> {''hello'', ''hello_ack'', ''credit''}"
  shows "\<exists>b. to_bytes sample_repr (max_frame_size default_security_config) (sample_greeting ty) = Inr b \<and>
    (\<forall>rest. tcp_read_frame sample_parse default_security_config (b @ rest) = Inr (sample_greeting ty, rest))"
proof -
  obtain b where b: "to_bytes sample_repr (max_frame_size default_security_config) (sample_greeting ty) = Inr b"
    using sample_greeting_bytes [OF assms] by blast
  from read_frame_append [OF b _ _ sample_greeting_ok [OF assms]] b show ?thesis
    by (auto simp: default_security_config_def)
qed

lemma sample_verified:
  assumes "tcp_ring t = tcp_ring sample_tcp" "tcp_security t = default_security_config" "expected = None \<or> expected = Some ''a''"
    and "\<not> has_key (entries (tcp_replay t)) (''a'', ty)" "\<forall>e \<in> set (entries (tcp_replay t)). snd e = 1"
  shows "\<exists>c. verify_message lenient_ed25519 sample_repr t expected (sample_greeting ty) 1 = Inr (True, t\<lparr>tcp_replay := c\<rparr>) \<and>
    c = snd (check_and_remember (tcp_replay t) ''a'' ty 1 30)"
proof -
  let ?m = "sample_greeting ty"
  have "dumpable (JDict (unsigned_document ?m))"
    by (simp add: unsigned_document_def max_str_digits_def dec_nat.simps)
  then have "verify_signature lenient_ed25519 sample_repr ?m (tcp_ring t) = Inr True"
    using assms(1) by (auto simp: verify_signature_True canonical_bytes_def canonical_json_bytes_Inr sample_tcp_def lenient_ed25519_def)
  moreover have "drop_stale (1 - 30) (entries (tcp_replay t)) = entries (tcp_replay t)"
    using assms(5) by (cases "entries (tcp_replay t)") auto
  ultimately show ?thesis
    using assms
    by (auto simp: verify_message_def tcp_window_def default_security_config_def has_peer_def has_key_def sample_tcp_def
       PROTOCOL_VERSION_def check_and_remember_def Let_def)
qed


text \<open>The server's own greetings can be signed and framed.\<close>

lemma own_greeting:
  assumes "ty \<in> {''hello'', ''hello_ack''}" "tcp_identity t = KeyPair [9]" "tcp_id t = ''b''" "tcp_security t = default_security_config"
  shows "\<exists>b. rbind (tcp_signed_message lenient_ed25519 sample_repr t ty [(''protocol_version'', JInt 2)] (1 / 2) ''n'')
    (tcp_write_frame sample_repr default_security_config True) = Inr b"
proof -
  let ?m = "(Message ty ''b'' [(''protocol_version'', JInt 2)] 2)\<lparr>msg_timestamp := Some (Fin (1 / 2)), msg_nonce := Some ''n''\<rparr>"
  have "dumpable (JDict (unsigned_document ?m))"
    by (simp add: unsigned_document_def Message_def max_str_digits_def dec_nat.simps)
  then obtain data where data: "canonical_bytes sample_repr ?m = Inr data"
    by (auto simp: canonical_bytes_def canonical_json_bytes_def dumps_def)
  define sg where "sg = key_sign lenient_ed25519 (KeyPair [9]) data"
  let ?s = "?m\<lparr>msg_signature := Some sg\<rparr>"
  have "length sg = 64" by (simp add: sg_def key_sign_def lenient_ed25519_def sample_ed25519_def sample_tag_def)
  then have h: "length (hex_of sg) = 128" by simp
  have signed: "tcp_signed_message lenient_ed25519 sample_repr t ty [(''protocol_version'', JInt 2)] (1 / 2) ''n'' = Inr ?s"
    using data assms(2-4) by (simp add: tcp_signed_message_def signed_def Let_def Message_def sg_def default_security_config_def PROTOCOL_VERSION_def)
  let ?t = "dump sample_repr False (sort_json (wire_document ?s))"
  have "length ?t \<le> 2000"
    using assms(1) length_quote [of False "hex_of sg"] h
    by (auto simp: wire_document_def unsigned_document_def Message_def sort_key_simps hex_json_def sample_repr_def quote_def
        escape_char_def dec_int_def dec_nat.simps)
  then have "length (utf8_encode ?t) \<le> 4000" using length_utf8_encode_le [of ?t] by linarith
  moreover have "validate_json_tree envelope_limits (JDict (msg_payload ?s)) = Inr ()"
    by (simp add: validate_Inr envelope_limits_def utf8_encode_def utf8_char_def Message_def)
  moreover have "dumpable (wire_document ?s)"
    by (simp add: wire_document_def unsigned_document_def Message_def hex_json_def max_str_digits_def dec_nat.simps)
  ultimately have "\<exists>b. to_bytes sample_repr (max_frame_size default_security_config) ?s = Inr b"
    using assms(1)
    by (auto simp: to_bytes_Inr canonical_json_bytes_Inr MAX_MESSAGE_TYPE_LENGTH_def MAX_PEER_ID_LENGTH_def
        default_security_config_def MAX_FRAME_SIZE_def Message_def)
  then show ?thesis using signed by (auto simp: tcp_write_frame_def)
qed

theorem handshake_authenticates_witness:
  "\<exists>d w b t' ack rest. connect_peer lenient_ed25519 sample_repr sample_parse ''a'' d (1 / 2) 1 ''n'' True sample_tcp = (Inr (w, b), t') \<and>
     tcp_connections t' = [(''a'', w)] \<and> tcp_read_frame sample_parse default_security_config (dial_stream d) = Inr (ack, rest) \<and>
     verify_signature lenient_ed25519 sample_repr ack (tcp_ring sample_tcp) = Inr True"
proof -
  obtain f where f: "\<forall>rest. tcp_read_frame sample_parse default_security_config (f @ rest) = Inr (sample_greeting ''hello_ack'', rest)"
    using sample_frame [of "''hello_ack''"] by blast
  have f0: "tcp_read_frame sample_parse default_security_config f = Inr (sample_greeting ''hello_ack'', [])"
    using f [rule_format, of "[]"] by simp
  let ?d = "\<lparr>dial_writer = Some 0, dial_stream = f\<rparr>"
  have sec: "tcp_security sample_tcp = default_security_config" "enabled default_security_config"
    "protocol_version default_security_config = 2" "max_connections default_security_config = 64"
    by (simp_all add: sample_tcp_def default_security_config_def PROTOCOL_VERSION_def)
  obtain b where b: "rbind (tcp_signed_message lenient_ed25519 sample_repr sample_tcp ''hello'' [(''protocol_version'', JInt 2)] (1 / 2) ''n'')
    (tcp_write_frame sample_repr default_security_config True) = Inr b"
    using own_greeting [of "''hello''" sample_tcp] by (auto simp: sample_tcp_def)
  obtain c where v: "verify_message lenient_ed25519 sample_repr sample_tcp (Some ''a'') (sample_greeting ''hello_ack'') 1 =
      Inr (True, sample_tcp\<lparr>tcp_replay := c\<rparr>)"
    using sample_verified [of sample_tcp "Some ''a''" "''hello_ack''"] sec(1) by (auto simp: sample_tcp_def has_key_def)
  obtain t' where r: "connect_peer lenient_ed25519 sample_repr sample_parse ''a'' ?d (1 / 2) 1 ''n'' True sample_tcp = (Inr (0, b), t')"
  proof -
    have p: "has_key (tcp_addresses sample_tcp) ''a''" "tcp_connections sample_tcp = []" by (simp_all add: sample_tcp_def has_key_def)
    have "announces (sample_greeting ''hello_ack'') ''hello_ack'' 2" by (simp add: announces_def get_default_def)
    then show ?thesis using that v b f0 sec p by (simp add: connect_peer_def)
  qed
  from handshake_authenticates [OF _ r] sec f0 r show ?thesis
    by (intro exI [of _ ?d]) (auto simp: sample_tcp_def)
qed

lemma handle_frame:
  assumes "map_of (tcp_handlers t) i = Some h" "tcp_security t = default_security_config"
    and "tcp_read_frame sample_parse default_security_config f = Inr (m, [])"
  shows "handle_client E fr sample_parse i f wall wall' token drained t =
    (case h of AwaitHello \<Rightarrow> snd (greet E fr i m wall wall' token drained t) | Serving s \<Rightarrow> take_message E fr i s m wall t)"
  using assms by (simp add: handle_client_def)


end
