(* ===== verification/Discovery.thy ===== *)
theory Discovery
  imports Peer_Node Tcp_Transport
begin

section \<open>Peer discovery (discovery.py)\<close>

text \<open>
  \<^verbatim>\<open>PeerDiscovery\<close>: beacons, the directory of discovered peers with its time to live, and the
  binding to a node. The receive path of the UDP transport that feeds it is here as well. Every
  exception of the parsing code is caught by the listen loop, which then ignores the datagram.
  \<^verbatim>\<open>json.loads\<close> of an unsigned beacon is a parameter, as in the theory of the node.
\<close>

subsection \<open>Datagrams\<close>

record udp_receiver =
  udp_inbox :: "(string \<times> bytes) list"
  udp_capacity :: int
  udp_max_datagram :: int
  udp_limiter :: rate_limiter

definition datagram_received :: "bytes \<Rightarrow> string \<Rightarrow> real \<Rightarrow> udp_receiver \<Rightarrow> udp_receiver" where
  "datagram_received data addr now u =
     (if len data > udp_max_datagram u then u
      else
        (let (ok, l) = allow (udp_limiter u) addr now; u1 = u\<lparr>udp_limiter := l\<rparr>
         in if \<not> ok then u1
            else if 0 < udp_capacity u \<and> udp_capacity u \<le> len (udp_inbox u1) then u1
            else u1\<lparr>udp_inbox := udp_inbox u1 @ [(addr, data)]\<rparr>))"

definition udp_send_broadcast :: "security_config \<Rightarrow> bool \<Rightarrow> bytes \<Rightarrow> bytes option result" where
  "udp_send_broadcast security started data =
     (if len data > max_udp_payload security then Inl MessageDecodeError
      else Inr (if started then Some data else None))"

subsection \<open>State\<close>

record discovered_peer =
  dp_id :: string
  dp_host :: string
  dp_port :: int
  dp_cluster :: string
  dp_last_seen :: real

record discovery =
  dc_id :: string
  dc_host :: string
  dc_port :: int
  dc_cluster :: string
  dc_ttl :: real
  dc_identity :: key_pair
  dc_ring :: key_ring
  dc_security :: security_config
  dc_replay :: replay_cache
  dc_peers :: "(string, discovered_peer) dict"

definition PeerDiscovery ::
  "ed25519 \<Rightarrow> string \<Rightarrow> string \<Rightarrow> int \<Rightarrow> string \<Rightarrow> real \<Rightarrow> key_pair \<Rightarrow> key_ring \<Rightarrow> security_config \<Rightarrow> discovery result" where
  "PeerDiscovery E nid host port cluster ttl key ring security =
     rbind (require (nid \<noteq> [] \<and> len nid \<le> MAX_PEER_ID_LENGTH) ValueError) (\<lambda>_.
     rbind (own_key E ring nid key) (\<lambda>ring'.
     rbind (ReplayCache (replay_cache_size security)) (\<lambda>cache.
     Inr \<lparr>dc_id = nid, dc_host = host, dc_port = port, dc_cluster = cluster, dc_ttl = ttl, dc_identity = key,
          dc_ring = ring', dc_security = security, dc_replay = cache, dc_peers = []\<rparr>)))"

definition get_active_peers :: "discovery \<Rightarrow> real \<Rightarrow> (string, string \<times> int) dict" where
  "get_active_peers d now =
     map (\<lambda>(pid, p). (pid, (dp_host p, dp_port p))) (filter (\<lambda>(pid, p). now - dp_last_seen p \<le> dc_ttl d) (dc_peers d))"

subsection \<open>Beacons\<close>

definition beacon_message ::
  "ed25519 \<Rightarrow> (real \<Rightarrow> string) \<Rightarrow> discovery \<Rightarrow> real \<Rightarrow> string \<Rightarrow> message result" where
  "beacon_message E fr d wall token =
     signed E fr (dc_identity d) (Fin wall) token None
       (Message ''discovery'' (dc_id d)
          [(''cluster_id'', JStr (dc_cluster d)), (''host'', JStr (dc_host d)), (''node_id'', JStr (dc_id d)),
           (''port'', JInt (dc_port d)), (''public_key'', JStr (public_to_hex (public_key_of E (dc_identity d))))]
          (protocol_version (dc_security d)))"

definition encode_beacon ::
  "ed25519 \<Rightarrow> (real \<Rightarrow> string) \<Rightarrow> discovery \<Rightarrow> real \<Rightarrow> real \<Rightarrow> string \<Rightarrow> bytes result" where
  "encode_beacon E fr d now wall token =
     (if enabled (dc_security d)
      then rbind (beacon_message E fr d wall token) (\<lambda>m.
           rbind (to_bytes fr (max_udp_payload (dc_security d)) m) (\<lambda>b. Inr (drop 4 b)))
      else
        (case dumps fr True (JDict [(''node_id'', JStr (dc_id d)), (''host'', JStr (dc_host d)), (''port'', JInt (dc_port d)),
                (''cluster_id'', JStr (dc_cluster d)), (''ts'', JFloat (Fin now))]) of
           None \<Rightarrow> Inl ValueError
         | Some t \<Rightarrow> Inr (utf8_encode t)))"

definition dc_window :: "discovery \<Rightarrow> real" where
  "dc_window d = seconds (replay_window_seconds (dc_security d))"

text \<open>The checks on a signed beacon up to the replay cache.\<close>

definition admit_beacon ::
  "ed25519 \<Rightarrow> (real \<Rightarrow> string) \<Rightarrow> discovery \<Rightarrow> unit \<Rightarrow> message \<Rightarrow> real \<Rightarrow> (bool \<times> discovery) result" where
  "admit_beacon E fr d _ m wall =
     (if msg_type m \<noteq> ''discovery'' \<or> msg_version m \<noteq> protocol_version (dc_security d) then Inr (False, d)
      else
        rbind (verify_signature E fr m (dc_ring d)) (\<lambda>ok.
          if \<not> ok then Inr (False, d)
          else
            (case (msg_timestamp m, msg_nonce m) of
               (Some ts, Some nonce) \<Rightarrow>
                 if outside_window (dc_window d) wall ts then Inr (False, d)
                 else
                   (let (b, c) = check_and_remember (dc_replay d) (msg_sender m) nonce wall (dc_window d)
                    in Inr (b, d\<lparr>dc_replay := c\<rparr>))
             | _ \<Rightarrow> Inr (False, d))))"

text \<open>Fields and claimed identity of a datagram, if it is acceptable.\<close>

definition open_beacon ::
  "ed25519 \<Rightarrow> (real \<Rightarrow> string) \<Rightarrow> (string \<Rightarrow> pyfloat) \<Rightarrow> (bytes \<Rightarrow> json option) \<Rightarrow> bytes \<Rightarrow> real \<Rightarrow> discovery \<Rightarrow>
   ((string, json) dict \<times> string) option \<times> discovery" where
  "open_beacon E fr pf plain_loads raw wall d =
     (if enabled (dc_security d)
      then
        (case from_bytes pf raw (dc_security d) of
           Inl e \<Rightarrow> (None, d)
         | Inr m \<Rightarrow>
             (case admit_beacon E fr d () m wall of
                Inl e \<Rightarrow> (None, d)
              | Inr (False, d1) \<Rightarrow> (None, d1)
              | Inr (True, d1) \<Rightarrow>
                  if get_default (msg_payload m) ''node_id'' JNull \<noteq> JStr (msg_sender m) then (None, d1)
                  else (Some (msg_payload m, msg_sender m), d1)))
      else
        (case plain_loads raw of
           Some (JDict data) \<Rightarrow>
             (case map_of data ''node_id'' of Some (JStr rid) \<Rightarrow> (Some (data, rid), d) | _ \<Rightarrow> (None, d))
         | _ \<Rightarrow> (None, d)))"

text \<open>\<^verbatim>\<open>str.isspace\<close> on the characters up to U+00FF.\<close>

definition py_isspace :: "char \<Rightarrow> bool" where
  "py_isspace c \<longleftrightarrow> of_char c \<in> {9 :: nat, 10, 11, 12, 13, 28, 29, 30, 31, 32, 133, 160}"

definition bad_host_char :: "char \<Rightarrow> bool" where
  "bad_host_char c \<longleftrightarrow> py_isspace c \<or> c \<in> {CHR 0x00, CHR 0x2F, CHR 0x5C}"

definition beacon_host :: "(string, json) dict \<Rightarrow> string \<Rightarrow> string option" where
  "beacon_host data addr =
     (case map_of data ''host'' of
        Some (JStr h) \<Rightarrow>
          if h = [] \<or> len h > 253 then None
          else
            (let h' = (if h \<in> {''0.0.0.0'', '''', ''::''} \<and> addr \<noteq> [] then addr else h)
             in if h' = [] \<or> list_ex bad_host_char h' then None else Some h')
      | _ \<Rightarrow> None)"

definition beacon_port :: "(string, json) dict \<Rightarrow> int option" where
  "beacon_port data =
     (case map_of data ''port'' of
        Some (JInt p) \<Rightarrow> if 1 \<le> p \<and> p \<le> 65535 then Some p else None
      | _ \<Rightarrow> None)"

definition beacon_cluster :: "(string, json) dict \<Rightarrow> string option" where
  "beacon_cluster data =
     (case get_default data ''cluster_id'' (JStr []) of
        JStr c \<Rightarrow> if len c > 128 then None else Some c
      | _ \<Rightarrow> None)"

text \<open>
  One turn of \<^verbatim>\<open>_listen_loop\<close> with a received datagram; the first result is the peer that
  \<^verbatim>\<open>on_peer_discovered\<close> is called with, if it is called.
\<close>

definition listen ::
  "ed25519 \<Rightarrow> (real \<Rightarrow> string) \<Rightarrow> (string \<Rightarrow> pyfloat) \<Rightarrow> (bytes \<Rightarrow> json option) \<Rightarrow> string \<Rightarrow> bytes \<Rightarrow> real \<Rightarrow> real \<Rightarrow> discovery \<Rightarrow>
   discovered_peer option \<times> discovery" where
  "listen E fr pf plain_loads addr raw now wall d =
     (if len raw > max_udp_payload (dc_security d) then (None, d)
      else case open_beacon E fr pf plain_loads raw wall d of
             (None, d1) \<Rightarrow> (None, d1)
           | (Some (data, rid), d1) \<Rightarrow>
               if rid = [] \<or> len rid > MAX_PEER_ID_LENGTH then (None, d1)
               else
                 (case (beacon_host data addr, beacon_port data, beacon_cluster data) of
                    (Some host, Some port, Some cluster) \<Rightarrow>
                      if rid = dc_id d1 \<or> cluster \<noteq> dc_cluster d1 then (None, d1)
                      else if enabled (dc_security d1) \<and> \<not> has_peer (dc_ring d1) rid then (None, d1)
                      else if \<not> has_key (dc_peers d1) rid \<and> len (dc_peers d1) \<ge> max_peers (dc_security d1) then (None, d1)
                      else
                        (let p = \<lparr>dp_id = rid, dp_host = host, dp_port = port, dp_cluster = cluster, dp_last_seen = now\<rparr>
                         in (if has_key (dc_peers d1) rid then None else Some p,
                             d1\<lparr>dc_peers := AList.update rid p (dc_peers d1)\<rparr>))
                  | _ \<Rightarrow> (None, d1)))"

text \<open>One round of \<^verbatim>\<open>_ttl_loop\<close>: the peers that \<^verbatim>\<open>on_peer_lost\<close> is called with, in order.\<close>

definition ttl_round :: "real \<Rightarrow> discovery \<Rightarrow> string list \<times> discovery" where
  "ttl_round now d =
     (let expired = map fst (filter (\<lambda>(pid, p). now - dp_last_seen p > dc_ttl d) (dc_peers d))
      in (expired, fold (\<lambda>pid d. d\<lparr>dc_peers := AList.delete pid (dc_peers d)\<rparr>) expired d))"

subsection \<open>Binding to a node\<close>

text \<open>The callback that \<^verbatim>\<open>bind_node\<close> installs, on the bound node and its TCP transport, if it has one.\<close>

definition on_discovered ::
  "discovery \<Rightarrow> discovered_peer \<Rightarrow> node \<times> tcp_transport option \<Rightarrow> node \<times> tcp_transport option" where
  "on_discovered d p nt =
     (case nt of (n, tcp) \<Rightarrow>
        if dp_id p = dc_id d then (n, tcp)
        else if enabled (dc_security d) \<and> \<not> has_peer (n_ring n) (dp_id p) then (n, tcp)
        else if dp_id p \<notin> set (n_peers n) \<and> len (n_peers n) \<ge> max_peers (dc_security d) then (n, tcp)
        else
          ((if dp_id p \<notin> set (n_peers n)
            then n\<lparr>n_peers := n_peers n @ [dp_id p], n_flow := init_peer (n_flow n) (dp_id p) (Some 20)\<rparr> else n),
           map_option (\<lambda>t. t\<lparr>tcp_addresses := AList.update (dp_id p) (dp_host p, dp_port p) (tcp_addresses t)\<rparr>) tcp))"

subsection \<open>Admission of beacons\<close>

lemma admit_beacon_True:
  assumes "admit_beacon E fr d u m wall = Inr (True, d')"
  obtains nonce ts where "msg_type m = ''discovery''" "genuine_for E fr (dc_ring d) (protocol_version (dc_security d)) m"
    "msg_timestamp m = Some (Fin ts)" "\<bar>wall - ts\<bar> \<le> dc_window d" "msg_nonce m = Some nonce"
    "check_and_remember (dc_replay d) (msg_sender m) nonce wall (dc_window d) = (True, dc_replay d')"
    "d' = d\<lparr>dc_replay := dc_replay d'\<rparr>"
proof -
  obtain x nonce c where a: "msg_type m = ''discovery''" "msg_version m = protocol_version (dc_security d)"
    "verify_signature E fr m (dc_ring d) = Inr True" "msg_timestamp m = Some x" "msg_nonce m = Some nonce"
    "\<not> outside_window (dc_window d) wall x"
    "check_and_remember (dc_replay d) (msg_sender m) nonce wall (dc_window d) = (True, c)" "d' = d\<lparr>dc_replay := c\<rparr>"
    using assms by (auto simp: admit_beacon_def rbind_Inr_iff Let_def split: if_splits option.splits prod.splits)
  moreover obtain ts where "x = Fin ts" "\<bar>wall - ts\<bar> \<le> dc_window d"
    using outside_window_False [OF a(6)] verify_signature_not_nan [OF a(3)] a(4) by auto
  ultimately show ?thesis using that by (simp add: genuine_for_def)
qed

lemma admit_beacon_keeps: "admit_beacon E fr d u m wall = Inr (b, d') \<Longrightarrow> \<exists>c. d' = d\<lparr>dc_replay := c\<rparr>"
  by (auto simp: admit_beacon_def rbind_Inr_iff Let_def split: if_splits option.splits prod.splits
      intro: exI [of _ "dc_replay d"])

interpretation dg: message_guard "admit_beacon E fr" "\<lambda>d. True" dc_replay dc_window
  "\<lambda>d. genuine_for E fr (dc_ring d) (protocol_version (dc_security d))" for E fr
proof
  fix d d' u m now
  assume "admit_beacon E fr d u m now = Inr (True, d')"
  then show "genuine_for E fr (dc_ring d) (protocol_version (dc_security d)) m \<and> fresh_at (dc_window d) now m \<and>
      (\<exists>n. msg_nonce m = Some n \<and>
        check_and_remember (dc_replay d) (msg_sender m) n now (dc_window d) = (True, dc_replay d'))"
    by (elim admit_beacon_True) (auto simp: fresh_at_def)
next
  fix d d' u m now
  assume "admit_beacon E fr d u m now = Inr (False, d')"
  then show "dc_replay d' = dc_replay d \<or>
      (\<exists>n. check_and_remember (dc_replay d) (msg_sender m) n now (dc_window d) = (False, dc_replay d'))"
    by (auto simp: admit_beacon_def rbind_Inr_iff Let_def split: if_splits option.splits prod.splits)
next
  fix d d' u m now b
  assume "admit_beacon E fr d u m now = Inr (b, d')"
  then show "True \<and> dc_window d' = dc_window d \<and>
      genuine_for E fr (dc_ring d') (protocol_version (dc_security d')) =
      genuine_for E fr (dc_ring d) (protocol_version (dc_security d))"
    by (auto dest!: admit_beacon_keeps simp: dc_window_def)
qed

lemma open_beacon_keeps: "open_beacon E fr pf pl raw wall d = (r, d') \<Longrightarrow> \<exists>c. d' = d\<lparr>dc_replay := c\<rparr>"
  by (auto simp: open_beacon_def dest!: admit_beacon_keeps split: if_splits sum.splits bool.splits option.splits json.splits
      intro: exI [of _ "dc_replay d"])

text \<open>What a datagram can do to the directory: nothing, or one entry.\<close>

definition entry_ok :: "discovery \<Rightarrow> string \<Rightarrow> discovered_peer \<Rightarrow> bool" where
  "entry_ok d k p \<longleftrightarrow> dp_id p = k \<and> k \<noteq> [] \<and> len k \<le> MAX_PEER_ID_LENGTH \<and> k \<noteq> dc_id d \<and> dp_cluster p = dc_cluster d \<and>
     1 \<le> dp_port p \<and> dp_port p \<le> 65535 \<and> dp_host p \<noteq> [] \<and> \<not> list_ex bad_host_char (dp_host p) \<and>
     (enabled (dc_security d) \<longrightarrow> has_peer (dc_ring d) k)"

lemma beacon_host_Some: "beacon_host data addr = Some h \<Longrightarrow> h \<noteq> [] \<and> \<not> list_ex bad_host_char h"
  by (auto simp: beacon_host_def Let_def split: option.splits json.splits if_splits)

lemma beacon_port_Some: "beacon_port data = Some p \<Longrightarrow> 1 \<le> p \<and> p \<le> 65535"
  by (auto simp: beacon_port_def split: option.splits json.splits if_splits)

lemma listen_cases:
  assumes "listen E fr pf pl addr raw now wall d = (r, d')"
  obtains c where "d' = d\<lparr>dc_replay := c\<rparr>" "r = None"
  | c data rid p where "open_beacon E fr pf pl raw wall d = (Some (data, rid), d\<lparr>dc_replay := c\<rparr>)" "entry_ok d rid p"
      "dp_last_seen p = now" "d' = d\<lparr>dc_replay := c, dc_peers := AList.update rid p (dc_peers d)\<rparr>"
      "r = (if has_key (dc_peers d) rid then None else Some p)"
      "has_key (dc_peers d) rid \<or> len (dc_peers d) < max_peers (dc_security d)"
proof -
  obtain ob d1 where ob: "open_beacon E fr pf pl raw wall d = (ob, d1)" by fastforce
  obtain c where d1: "d1 = d\<lparr>dc_replay := c\<rparr>" using open_beacon_keeps [OF ob] by blast
  show ?thesis
  proof (cases "d' = d1 \<and> r = None \<or> d' = d \<and> r = None")
    case True
    then show ?thesis using that(1) [of c] that(1) [of "dc_replay d"] d1 by auto
  next
    case False
    then obtain data rid where s: "ob = Some (data, rid)" "len raw \<le> max_udp_payload (dc_security d)"
      using assms ob by (auto simp: listen_def split: if_splits option.splits)
    then obtain host port cluster where h: "beacon_host data addr = Some host" "beacon_port data = Some port"
      "beacon_cluster data = Some cluster"
      using assms False ob by (auto simp: listen_def split: if_splits option.splits)
    let ?p = "\<lparr>dp_id = rid, dp_host = host, dp_port = port, dp_cluster = cluster, dp_last_seen = now\<rparr>"
    have g: "rid \<noteq> []" "len rid \<le> MAX_PEER_ID_LENGTH" "rid \<noteq> dc_id d" "cluster = dc_cluster d"
      "enabled (dc_security d) \<longrightarrow> has_peer (dc_ring d) rid" "has_key (dc_peers d) rid \<or> len (dc_peers d) < max_peers (dc_security d)"
      "d' = d\<lparr>dc_replay := c, dc_peers := AList.update rid ?p (dc_peers d)\<rparr>" "r = (if has_key (dc_peers d) rid then None else Some ?p)"
      using assms False ob s h d1 by (auto simp: listen_def Let_def split: if_splits)
    then have "entry_ok d rid ?p" using beacon_host_Some [OF h(1)] beacon_port_Some [OF h(2)] by (simp add: entry_ok_def)
    then show ?thesis using that(2) [of data rid c ?p] ob s(1) d1 g by simp
  qed
qed

text \<open>
  C25: discovery is authenticated. Under security a datagram changes the directory only if it
  decodes to a beacon of the configured protocol version that verifies under the registered key
  of the peer it announces, is dated within the replay window and carries a nonce not seen
  before; it then changes the entry of that peer and no other.
\<close>

theorem beacon_authenticated:
  assumes "enabled (dc_security d)" "listen E fr pf pl addr raw now wall d = (r, d')" "dc_peers d' \<noteq> dc_peers d"
  shows "\<exists>m p nonce. from_bytes pf raw (dc_security d) = Inr m \<and> msg_type m = ''discovery'' \<and>
    msg_version m = protocol_version (dc_security d) \<and> verify_signature E fr m (dc_ring d) = Inr True \<and>
    fresh_at (dc_window d) wall m \<and> msg_nonce m = Some nonce \<and>
    fst (check_and_remember (dc_replay d) (msg_sender m) nonce wall (dc_window d)) \<and>
    dc_peers d' = AList.update (msg_sender m) p (dc_peers d) \<and> dp_id p = msg_sender m \<and> dp_last_seen p = now"
  using assms(2)
proof (cases rule: listen_cases)
  case (1 c)
  then show ?thesis using assms(3) by simp
next
  case (2 c data rid p)
  obtain m d1 where m: "from_bytes pf raw (dc_security d) = Inr m" "admit_beacon E fr d () m wall = Inr (True, d1)" "rid = msg_sender m"
    using 2(1) assms(1) by (auto simp: open_beacon_def split: sum.splits bool.splits if_splits)
  have "msg_type m = ''discovery''" using m(2) by (elim admit_beacon_True)
  with dg.accepted [OF _ m(2)] 2 m show ?thesis by (auto simp: genuine_for_def entry_ok_def)
qed

subsection \<open>The directory\<close>

datatype dc_event = Beacon string bytes real real | Expire real

definition dc_step ::
  "ed25519 \<Rightarrow> (real \<Rightarrow> string) \<Rightarrow> (string \<Rightarrow> pyfloat) \<Rightarrow> (bytes \<Rightarrow> json option) \<Rightarrow> dc_event \<Rightarrow> discovery \<Rightarrow> discovery" where
  "dc_step E fr pf plain_loads e d =
     (case e of
        Beacon addr raw now wall \<Rightarrow> snd (listen E fr pf plain_loads addr raw now wall d)
      | Expire now \<Rightarrow> snd (ttl_round now d))"

definition same_service :: "discovery \<Rightarrow> discovery \<Rightarrow> bool" where
  "same_service d0 d \<longleftrightarrow> dc_id d = dc_id d0 \<and> dc_cluster d = dc_cluster d0 \<and> dc_ttl d = dc_ttl d0 \<and>
     dc_ring d = dc_ring d0 \<and> dc_security d = dc_security d0"

definition dc_inv :: "discovery \<Rightarrow> discovery \<Rightarrow> bool" where
  "dc_inv d0 d \<longleftrightarrow> same_service d0 d \<and> distinct (keys (dc_peers d)) \<and>
     len (dc_peers d) \<le> max_peers (dc_security d0) \<and> (\<forall>(k, p) \<in> set (dc_peers d). entry_ok d0 k p)"

lemma delete_all: "fold (\<lambda>pid d. d\<lparr>dc_peers := AList.delete pid (dc_peers d)\<rparr>) ps d =
    d\<lparr>dc_peers := filter (\<lambda>(k, p). k \<notin> set ps) (dc_peers d)\<rparr>"
proof (induction ps arbitrary: d)
  case (Cons a ps)
  have "filter (\<lambda>(k, p). k \<notin> set ps) (AList.delete a (dc_peers d)) = filter (\<lambda>(k, p). k \<notin> set (a # ps)) (dc_peers d)"
    by (induction "dc_peers d") (auto simp: AList.delete_eq intro!: filter_cong)
  then show ?case by (simp add: Cons.IH)
qed (simp add: case_prod_beta)

lemma ttl_round_peers:
  assumes "distinct (keys (dc_peers d))"
  shows "snd (ttl_round now d) = d\<lparr>dc_peers := filter (\<lambda>(k, p). now - dp_last_seen p \<le> dc_ttl d) (dc_peers d)\<rparr>"
proof -
  have "(k \<notin> set (map fst (filter (\<lambda>(pid, p). now - dp_last_seen p > dc_ttl d) (dc_peers d)))) \<longleftrightarrow> now - dp_last_seen p \<le> dc_ttl d"
    if "(k, p) \<in> set (dc_peers d)" for k p
    using that assms by (force dest: eq_key_imp_eq_value)
  then have "filter (\<lambda>(k, p). k \<notin> set (map fst (filter (\<lambda>(pid, p). now - dp_last_seen p > dc_ttl d) (dc_peers d)))) (dc_peers d) =
      filter (\<lambda>(k, p). now - dp_last_seen p \<le> dc_ttl d) (dc_peers d)"
    by (intro filter_cong) auto
  then show ?thesis by (simp add: ttl_round_def Let_def delete_all)
qed

lemma entry_ok_cong: "same_service d0 d \<Longrightarrow> entry_ok d k p = entry_ok d0 k p"
  by (simp add: entry_ok_def same_service_def)

lemma dc_inv_step:
  assumes "dc_inv d0 d"
  shows "dc_inv d0 (dc_step E fr pf pl e d)"
proof (cases e)
  case (Beacon addr raw now wall)
  obtain r d' where l: "listen E fr pf pl addr raw now wall d = (r, d')" by fastforce
  have d: "same_service d0 d" using assms by (simp add: dc_inv_def)
  from l show ?thesis
  proof (cases rule: listen_cases)
    case (1 c)
    then show ?thesis using assms Beacon l by (simp add: dc_step_def dc_inv_def same_service_def)
  next
    case (2 c data rid p)
    have e: "entry_ok d0 rid p" using 2(2) entry_ok_cong [OF d] by simp
    have "distinct (keys (AList.update rid p (dc_peers d)))" using assms by (simp add: dc_inv_def distinct_keys_update)
    moreover have "len (AList.update rid p (dc_peers d)) \<le> max_peers (dc_security d0)"
      using assms 2(6) d by (auto simp: dc_inv_def same_service_def length_update has_key_iff)
    moreover have "set (AList.update rid p (dc_peers d)) \<subseteq> insert (rid, p) (set (dc_peers d))"
      by (rule set_update_pairs)
    then have "\<forall>(k, p) \<in> set (AList.update rid p (dc_peers d)). entry_ok d0 k p"
      using assms e unfolding dc_inv_def by blast
    ultimately show ?thesis using Beacon l 2(4) d by (simp add: dc_step_def dc_inv_def same_service_def)
  qed
next
  case (Expire now)
  have dk: "distinct (keys (dc_peers d))" using assms by (simp add: dc_inv_def)
  let ?ps = "filter (\<lambda>(k, p). now - dp_last_seen p \<le> dc_ttl d) (dc_peers d)"
  have e: "dc_step E fr pf pl e d = d\<lparr>dc_peers := ?ps\<rparr>"
    using Expire ttl_round_peers [OF dk] by (simp add: dc_step_def)
  have "len ?ps \<le> len (dc_peers d)" by simp
  moreover have "distinct (keys ?ps)" using distinct_keys_filter [OF dk] .
  moreover have "\<forall>(k, p) \<in> set ?ps. entry_ok d0 k p" using assms unfolding dc_inv_def by simp
  ultimately show ?thesis
    using assms unfolding e dc_inv_def same_service_def by (simp del: length_filter_le)
qed

text \<open>
  The directory stays sound. Whatever datagrams arrive, it holds at most the configured
  number of peers, each once and under its own name, never the node itself nor a peer of
  another cluster, and under security only peers of the key ring; hosts and ports are valid
  addresses. Each expiry round removes exactly the peers not seen for longer than their time
  to live.
\<close>

theorem directory_invariant:
  assumes "PeerDiscovery E nid host port cluster ttl key ring sec = Inr d0" "0 < max_peers sec"
    and "d = fold (dc_step E fr pf plain_loads) evs d0"
  shows "distinct (keys (dc_peers d)) \<and> len (dc_peers d) \<le> max_peers sec \<and>
    (\<forall>(k, p) \<in> set (dc_peers d). dp_id p = k \<and> k \<noteq> nid \<and> dp_cluster p = cluster \<and>
       1 \<le> dp_port p \<and> dp_port p \<le> 65535 \<and> dp_host p \<noteq> [] \<and> (enabled sec \<longrightarrow> has_peer (dc_ring d0) k)) \<and>
    dc_peers (snd (ttl_round now d)) = filter (\<lambda>(k, p). now - dp_last_seen p \<le> ttl) (dc_peers d)"
proof -
  have i: "dc_id d0 = nid" "dc_cluster d0 = cluster" "dc_security d0 = sec" "dc_ttl d0 = ttl" "dc_peers d0 = []"
    using assms(1) by (auto simp: PeerDiscovery_def rbind_Inr_iff)
  have "dc_inv d0 d0" using i assms(2) by (simp add: dc_inv_def same_service_def)
  then have inv: "dc_inv d0 d" unfolding assms(3)
    by (induction evs rule: rev_induct) (simp_all add: dc_inv_step)
  then have t: "dc_ttl d = ttl" using i by (simp add: dc_inv_def same_service_def)
  from inv have dk: "distinct (keys (dc_peers d))" by (simp add: dc_inv_def)
  have "dc_peers (snd (ttl_round now d)) = filter (\<lambda>(k, p). now - dp_last_seen p \<le> ttl) (dc_peers d)"
    unfolding ttl_round_peers [OF dk] t by simp
  moreover have "\<forall>(k, p) \<in> set (dc_peers d). dp_id p = k \<and> k \<noteq> nid \<and> dp_cluster p = cluster \<and>
       1 \<le> dp_port p \<and> dp_port p \<le> 65535 \<and> dp_host p \<noteq> [] \<and> (enabled sec \<longrightarrow> has_peer (dc_ring d0) k)"
    using inv i unfolding dc_inv_def entry_ok_def by fast
  ultimately show ?thesis using inv i(3) by (simp add: dc_inv_def)
qed

subsection \<open>Honest peers find each other\<close>

lemma message_bytes_decode:
  assumes "to_bytes fr mx m = Inr b" "mx \<le> max_frame_size c" "0 \<le> max_json_items c" "wire_ok fr pf c m"
  shows "from_bytes pf (drop 4 b) c = Inr (wire_image m)" "len (drop 4 b) \<le> mx"
proof -
  show "from_bytes pf (drop 4 b) c = Inr (wire_image m)" by (rule frame_decodes [OF assms])
  show "len (drop 4 b) \<le> mx" using assms(1) by (auto simp: to_bytes_Inr)
qed

text \<open>The part of a beacon the receiver reads.\<close>

lemma beacon_fields:
  assumes "beacon_message E fr a wall token = Inr m"
  shows "beacon_host (msg_payload (wire_image m)) addr = beacon_host [(''host'', JStr (dc_host a))] addr"
    "beacon_port (msg_payload (wire_image m)) = beacon_port [(''port'', JInt (dc_port a))]"
    "beacon_cluster (msg_payload (wire_image m)) = beacon_cluster [(''cluster_id'', JStr (dc_cluster a))]"
    "get_default (msg_payload (wire_image m)) ''node_id'' JNull = JStr (dc_id a)"
    "msg_type m = ''discovery''" "msg_sender m = dc_id a" "msg_version m = protocol_version (dc_security a)"
    "msg_timestamp m = Some (Fin wall)" "msg_nonce m = Some token"
  using assms
  by (auto simp: beacon_message_def signed_Inr Let_def Message_def wire_image_def sort_dict_def sort_key_simps
      beacon_host_def beacon_port_def beacon_cluster_def get_default_def)

lemma beacon_heard:
  assumes "ed25519_correct E" "enabled (dc_security a)" "enabled (dc_security d)"
    and "beacon_message E fr a wall token = Inr m" "encode_beacon E fr a now wall token = Inr raw"
    and "protocol_version (dc_security a) = protocol_version (dc_security d)" "dc_cluster a = dc_cluster d" "len (dc_cluster d) \<le> 128"
    and "max_udp_payload (dc_security a) \<le> max_udp_payload (dc_security d)" "max_udp_payload (dc_security a) \<le> max_frame_size (dc_security d)"
    and "0 \<le> max_json_items (dc_security d)" "wire_ok fr pf (dc_security d) m"
    and "map_of (dc_ring d) (dc_id a) = Some (public_key_of E (dc_identity a))" "dc_id a \<noteq> dc_id d"
    and "dc_id a \<noteq> []" "len (dc_id a) \<le> MAX_PEER_ID_LENGTH"
    and "beacon_host [(''host'', JStr (dc_host a))] addr = Some host" "1 \<le> dc_port a" "dc_port a \<le> 65535"
    and "\<bar>wall' - wall\<bar> \<le> dc_window d" "fst (check_and_remember (dc_replay d) (dc_id a) token wall' (dc_window d))"
    and "has_key (dc_peers d) (dc_id a) \<or> len (dc_peers d) < max_peers (dc_security d)"
  shows "\<exists>p r d'. listen E fr pf plain_loads addr raw now' wall' d = (r, d') \<and> map_of (dc_peers d') (dc_id a) = Some p \<and>
    dp_host p = host \<and> dp_port p = dc_port a \<and> dp_last_seen p = now' \<and> (\<not> has_key (dc_peers d) (dc_id a) \<longrightarrow> r = Some p)"
proof -
  obtain b where b: "to_bytes fr (max_udp_payload (dc_security a)) m = Inr b" "raw = drop 4 b"
    using assms(2,4,5) by (auto simp: encode_beacon_def rbind_Inr_iff)
  note dec = message_bytes_decode [OF b(1) assms(10-12)]
  note f = beacon_fields [OF assms(4)]
  have "verify_signature E fr m (dc_ring d) = Inr True"
    using assms(13) by (intro signed_verifies [OF assms(1) assms(4) [unfolded beacon_message_def]]) (simp add: Message_def)
  then have v: "verify_signature E fr (wire_image m) (dc_ring d) = Inr True"
    by (auto simp: verify_signature_def wire_image_def split: option.splits)
  obtain c where c: "check_and_remember (dc_replay d) (dc_id a) token wall' (dc_window d) = (True, c)"
    using assms(21) by (cases "check_and_remember (dc_replay d) (dc_id a) token wall' (dc_window d)") simp
  have adm: "admit_beacon E fr d () (wire_image m) wall' = Inr (True, d\<lparr>dc_replay := c\<rparr>)"
    using v c f assms(6,20) by (simp add: admit_beacon_def wire_image_def)
  have op: "open_beacon E fr pf plain_loads raw wall' d = (Some (msg_payload (wire_image m), dc_id a), d\<lparr>dc_replay := c\<rparr>)"
    using dec(1) adm assms(3) f(4,6) b(2) by (simp add: open_beacon_def wire_image_def)
  have port: "beacon_port [(''port'', JInt (dc_port a))] = Some (dc_port a)"
    "beacon_cluster [(''cluster_id'', JStr (dc_cluster a))] = Some (dc_cluster d)"
    using assms(7,8,18,19) by (simp_all add: beacon_port_def beacon_cluster_def get_default_def)
  have "has_peer (dc_ring d) (dc_id a)" using assms(13) by (simp add: has_peer_def has_key_def)
  then show ?thesis
    using dec(2) b(2) op f(1-3) port assms(9,14-17,22) by (auto simp: listen_def Let_def map_of_update)
qed


text \<open>
  A moved peer is not announced. When a peer that is still in the directory announces a
  new address, the directory takes it over but \<^verbatim>\<open>on_peer_discovered\<close>, the only place where the
  address book of the transport is written, is not called.
\<close>

theorem moved_peer_not_announced:
  assumes "listen E fr pf plain_loads addr raw now wall d = (r, d')" "map_of (dc_peers d) k = Some p"
    and "map_of (dc_peers d') k = Some p'" "p' \<noteq> p"
  shows "r = None"
  using assms(1)
proof (cases rule: listen_cases)
  case (2 c data rid q)
  then have "rid = k" using assms(2-4) by (auto simp: map_of_update split: if_splits)
  then show ?thesis using 2(5) assms(2) by (simp add: has_key_def)
qed

subsection \<open>The bound node\<close>

text \<open>Discovery never grows the peer list of the bound node beyond the limit or, under security, beyond its key ring.\<close>

lemma on_discovered_peers:
  assumes "on_discovered d p (n, tcp) = (n', tcp')" "distinct (n_peers n)"
  shows "distinct (n_peers n')" "set (n_peers n) \<subseteq> set (n_peers n')"
    "len (n_peers n') \<le> max (len (n_peers n)) (max_peers (dc_security d))"
    "enabled (dc_security d) \<Longrightarrow> set (n_peers n') - set (n_peers n) \<subseteq> {q. has_peer (n_ring n) q}"
  using assms by (auto simp: on_discovered_def split: if_splits)

subsection \<open>Concrete services\<close>

definition sample_service :: "string \<Rightarrow> discovery" where
  "sample_service nid = \<lparr>dc_id = nid, dc_host = ''h'', dc_port = 1, dc_cluster = ''c'', dc_ttl = 3,
     dc_identity = KeyPair (if nid = ''a'' then [7] else [9]), dc_ring = [(''a'', PublicKey [7]), (''b'', PublicKey [9])],
     dc_security = default_security_config, dc_replay = \<lparr>max_entries = 4096, entries = []\<rparr>, dc_peers = []\<rparr>"

lemma sample_service_new:
  "PeerDiscovery sample_ed25519 ''b'' ''h'' 1 ''c'' 3 (KeyPair [9]) [(''a'', PublicKey [7]), (''b'', PublicKey [9])]
     default_security_config = Inr (sample_service ''b'')"
  by (simp add: PeerDiscovery_def own_key_def get_peer_key_def public_to_bytes_def public_key_of_def
      sample_ed25519_def ReplayCache_def sample_service_def default_security_config_def MAX_PEER_ID_LENGTH_def)

lemma sample_beacon:
  "\<exists>m b. beacon_message sample_ed25519 sample_repr (sample_service ''a'') (1 / 2) ''n'' = Inr m \<and>
     to_bytes sample_repr (max_udp_payload default_security_config) m = Inr b \<and>
     wire_ok sample_repr sample_parse default_security_config m"
proof -
  let ?pl = "[(''cluster_id'', JStr ''c''), (''host'', JStr ''h''), (''node_id'', JStr ''a''), (''port'', JInt 1),
    (''public_key'', JStr (hex_of [7]))]"
  let ?m = "(Message ''discovery'' ''a'' ?pl 2)\<lparr>msg_timestamp := Some (Fin (1 / 2)), msg_nonce := Some ''n''\<rparr>"
  have "dumpable (JDict (unsigned_document ?m))"
    by (simp add: unsigned_document_def Message_def max_str_digits_def dec_nat.simps)
  then obtain data where data: "canonical_bytes sample_repr ?m = Inr data"
    by (auto simp: canonical_bytes_def canonical_json_bytes_def dumps_def)
  define sg where "sg = key_sign sample_ed25519 (KeyPair [7]) data"
  let ?s = "?m\<lparr>msg_signature := Some sg\<rparr>"
  have sg: "length sg = 64" by (simp add: sg_def key_sign_def sample_ed25519_def sample_tag_def)
  have s: "beacon_message sample_ed25519 sample_repr (sample_service ''a'') (1 / 2) ''n'' = Inr ?s"
    using data by (simp add: beacon_message_def sample_service_def signed_def Let_def Message_def sg_def default_security_config_def
        PROTOCOL_VERSION_def public_to_hex_def public_to_bytes_def public_key_of_def sample_ed25519_def)
  have h: "length (utf8_encode (hex_of sg)) \<le> 256" "length (utf8_encode (hex_of [7])) \<le> 4" "length (hex_of sg) = 128" "length (hex_of [7]) = 2"
    using length_utf8_encode_le [of "hex_of sg"] length_utf8_encode_le [of "hex_of [7]"] sg by simp_all
  have v: "validate_json_tree envelope_limits (JDict ?pl) = Inr ()"
    using h(2) by (simp add: validate_Inr envelope_limits_def) (simp add: utf8_encode_def utf8_char_def)
  let ?t = "dump sample_repr False (sort_json (wire_document ?s))"
  have "length ?t \<le> 1900"
    using length_quote [of False "hex_of sg"] length_quote [of False "hex_of [7]"] h(3,4)
    by (simp add: wire_document_def unsigned_document_def Message_def sort_key_simps hex_json_def sample_repr_def quote_def
        escape_char_def dec_int_def dec_nat.simps)
  then have "length (utf8_encode ?t) \<le> 3800" using length_utf8_encode_le [of ?t] by linarith
  moreover have p: "printable sample_repr sample_parse (wire_document ?s)"
    by (simp add: wire_document_def unsigned_document_def Message_def printable_def hex_json_def sample_float_text_ok
      max_str_digits_def dec_nat.simps)
  ultimately have "\<exists>b. to_bytes sample_repr (max_udp_payload default_security_config) ?s = Inr b"
    using v by (simp add: to_bytes_Inr canonical_json_bytes_Inr MAX_MESSAGE_TYPE_LENGTH_def MAX_PEER_ID_LENGTH_def
        default_security_config_def MAX_DISCOVERY_DATAGRAM_def Message_def printable_def)
  moreover have "validate_json_tree (config_limits default_security_config) (wire_document ?s) = Inr ()"
    using h(1,2) by (simp add: validate_Inr config_limits_def default_security_config_def
        wire_document_def unsigned_document_def Message_def hex_json_def) (simp add: utf8_encode_def utf8_char_def)
  ultimately show ?thesis using s p sg by (auto simp: wire_ok_def Message_def)
qed

definition sample_known :: discovered_peer where
  "sample_known = \<lparr>dp_id = ''a'', dp_host = ''g'', dp_port = 2, dp_cluster = ''c'', dp_last_seen = 0\<rparr>"

lemma sample_facts:
  "enabled (dc_security (sample_service n))" "dc_cluster (sample_service n) = ''c''" "dc_id (sample_service n) = n"
  "dc_security (sample_service n) = default_security_config" "dc_port (sample_service n) = 1" "dc_host (sample_service n) = ''h''"
  "map_of (dc_ring (sample_service n)) ''a'' = Some (public_key_of sample_ed25519 (dc_identity (sample_service ''a'')))"
  "dc_window (sample_service n) = 30" "dc_replay (sample_service n) = \<lparr>max_entries = 4096, entries = []\<rparr>" "dc_peers (sample_service n) = []"
  "beacon_host [(''host'', JStr ''h'')] ''x'' = Some ''h''"
  by (simp_all add: sample_service_def default_security_config_def dc_window_def public_key_of_def sample_ed25519_def
      beacon_host_def bad_host_char_def py_isspace_def of_char_def)

lemma sample_encoded:
  "\<exists>raw m. encode_beacon sample_ed25519 sample_repr (sample_service ''a'') 0 (1 / 2) ''n'' = Inr raw \<and>
     beacon_message sample_ed25519 sample_repr (sample_service ''a'') (1 / 2) ''n'' = Inr m \<and>
     wire_ok sample_repr sample_parse default_security_config m"
proof -
  obtain m b where m: "beacon_message sample_ed25519 sample_repr (sample_service ''a'') (1 / 2) ''n'' = Inr m"
     "to_bytes sample_repr (max_udp_payload default_security_config) m = Inr b"
     "wire_ok sample_repr sample_parse default_security_config m" using sample_beacon by blast
  then have "encode_beacon sample_ed25519 sample_repr (sample_service ''a'') 0 (1 / 2) ''n'' = Inr (drop 4 b)"
    unfolding encode_beacon_def using sample_facts(1) [of "''a''"] by (simp add: sample_facts(4))
  with m show ?thesis by blast
qed

lemma sample_maxima: "max_udp_payload default_security_config = 4096" "max_frame_size default_security_config = 262144"
  "max_json_items default_security_config = 10000" "max_peers default_security_config = 128"
  by (simp_all add: default_security_config_def MAX_DISCOVERY_DATAGRAM_def MAX_FRAME_SIZE_def)


lemma sample_heard:
  assumes "len ps < 128"
  shows "\<exists>raw p r d'. listen sample_ed25519 sample_repr sample_parse (\<lambda>_. None) ''x'' raw 5 1 ((sample_service ''b'')\<lparr>dc_peers := ps\<rparr>) = (r, d') \<and>
    map_of (dc_peers d') ''a'' = Some p \<and> dp_host p = ''h''"
proof -
  obtain raw m where raw: "encode_beacon sample_ed25519 sample_repr (sample_service ''a'') 0 (1 / 2) ''n'' = Inr raw"
    and m: "beacon_message sample_ed25519 sample_repr (sample_service ''a'') (1 / 2) ''n'' = Inr m"
    and w: "wire_ok sample_repr sample_parse default_security_config m" using sample_encoded by blast
  have c: "fst (check_and_remember \<lparr>max_entries = 4096, entries = []\<rparr> ''a'' ''n'' 1 30)"
    by (simp add: check_and_remember_def Let_def has_key_def)
  let ?d = "(sample_service ''b'')\<lparr>dc_peers := ps\<rparr>"
  have win: "dc_window ?d = 30" using sample_facts(8) [of "''b''"] by (simp add: dc_window_def)
  have e: "enabled (dc_security ?d)" using sample_facts(1) by simp
  from beacon_heard [OF sample_ed25519_correct sample_facts(1) e m raw, of sample_parse "''x''" "''h''" 1 "\<lambda>_. None" 5]
  show ?thesis using w c win assms by (simp add: sample_facts sample_maxima MAX_PEER_ID_LENGTH_def) blast
qed

theorem beacon_authenticated_witness:
  "\<exists>raw r d' m. listen sample_ed25519 sample_repr sample_parse (\<lambda>_. None) ''x'' raw 5 1 (sample_service ''b'') = (r, d') \<and>
     from_bytes sample_parse raw default_security_config = Inr m \<and>
     verify_signature sample_ed25519 sample_repr m (dc_ring (sample_service ''b'')) = Inr True \<and> has_key (dc_peers d') (msg_sender m)"
proof -
  have "(sample_service ''b'')\<lparr>dc_peers := []\<rparr> = sample_service ''b''" by (simp add: sample_service_def)
  with sample_heard [of "[]"] obtain raw p r d' where l: "listen sample_ed25519 sample_repr sample_parse (\<lambda>_. None) ''x'' raw 5 1 (sample_service ''b'') = (r, d')"
    "map_of (dc_peers d') ''a'' = Some p" by auto
  then have "dc_peers d' \<noteq> dc_peers (sample_service ''b'')" using sample_facts(10) by auto
  from beacon_authenticated [OF sample_facts(1) l(1) this] obtain m q where
    "from_bytes sample_parse raw default_security_config = Inr m"
    "verify_signature sample_ed25519 sample_repr m (dc_ring (sample_service ''b'')) = Inr True"
    "dc_peers d' = AList.update (msg_sender m) q (dc_peers (sample_service ''b''))"
    unfolding sample_facts(4) by blast
  moreover from this(3) have "has_key (dc_peers d') (msg_sender m)" by (simp add: has_key_def map_of_update)
  ultimately show ?thesis using l(1) by blast
qed

theorem directory_invariant_witness:
  "\<exists>raw d. d = fold (dc_step sample_ed25519 sample_repr sample_parse (\<lambda>_. None)) [Beacon ''x'' raw 5 1] (sample_service ''b'') \<and>
     has_key (dc_peers d) ''a'' \<and> len (dc_peers d) \<le> 128 \<and> distinct (keys (dc_peers d))"
proof -
  have "(sample_service ''b'')\<lparr>dc_peers := []\<rparr> = sample_service ''b''" by (simp add: sample_service_def)
  with sample_heard [of "[]"] obtain raw p r d' where l: "listen sample_ed25519 sample_repr sample_parse (\<lambda>_. None) ''x'' raw 5 1 (sample_service ''b'') = (r, d')"
    "map_of (dc_peers d') ''a'' = Some p" by auto
  then have "d' = fold (dc_step sample_ed25519 sample_repr sample_parse (\<lambda>_. None)) [Beacon ''x'' raw 5 1] (sample_service ''b'')"
    by (simp add: dc_step_def)
  from directory_invariant [OF sample_service_new _ this, of 0] this l(2) sample_maxima(4) show ?thesis
    by (intro exI [of _ raw] exI [of _ d']) (simp add: has_key_def)
qed

theorem moved_peer_not_announced_witness:
  "\<exists>raw p d'. listen sample_ed25519 sample_repr sample_parse (\<lambda>_. None) ''x'' raw 5 1
       ((sample_service ''b'')\<lparr>dc_peers := [(''a'', sample_known)]\<rparr>) = (None, d') \<and>
     map_of (dc_peers d') ''a'' = Some p \<and> dp_host p = ''h'' \<and> dp_host sample_known = ''g''"
proof -
  let ?d = "(sample_service ''b'')\<lparr>dc_peers := [(''a'', sample_known)]\<rparr>"
  obtain raw p r d' where l: "listen sample_ed25519 sample_repr sample_parse (\<lambda>_. None) ''x'' raw 5 1 ?d = (r, d')"
    "map_of (dc_peers d') ''a'' = Some p" "dp_host p = ''h''" using sample_heard [of "[(''a'', sample_known)]"] by auto
  have k: "map_of (dc_peers ?d) ''a'' = Some sample_known" "dp_host sample_known = ''g''" by (simp_all add: sample_known_def)
  then have "p \<noteq> sample_known" using l(3) by auto
  from moved_peer_not_announced [OF l(1) k(1) l(2) this] l k(2) show ?thesis by blast
qed

end
