(* ===== verification/Udp_Transport.thy ===== *)
theory Udp_Transport
  imports Discovery Http_Server
begin

section \<open>The UDP broadcast transport (transport.py)\<close>

text \<open>
  \<^verbatim>\<open>UdpBroadcastTransport\<close>: its sockets, the datagrams it takes from the network, and what it sends.
  The receive path and the size check of \<^verbatim>\<open>send_broadcast\<close> are in the theory of discovery. What the
  operating system answers to a call on the socket is a parameter; the calls are listed in the
  order of the code, each with whether its exceptions are suppressed.
\<close>

subsection \<open>State\<close>

record udp_transport =
  ut_port :: int
  ut_addr :: string
  ut_security :: security_config
  ut_receiver :: udp_receiver
  ut_sock :: bool
  ut_transport :: bool

definition UdpBroadcastTransport :: "int \<Rightarrow> string \<Rightarrow> security_config \<Rightarrow> udp_transport result" where
  "UdpBroadcastTransport port broadcast_addr security =
     rbind (RateLimiter (udp_rate_limit security) (seconds (udp_rate_window_seconds security)) 1024) (\<lambda>l.
       Inr \<lparr>ut_port = port, ut_addr = broadcast_addr, ut_security = security,
            ut_receiver = \<lparr>udp_inbox = [], udp_capacity = max_inbox_size security,
              udp_max_datagram = max_udp_payload security, udp_limiter = l\<rparr>,
            ut_sock = False, ut_transport = False\<rparr>)"

subsection \<open>Sockets\<close>

definition is_multicast :: "string \<Rightarrow> bool" where
  "is_multicast ip =
     (case int_of_text (points (hd (split_on (CHR ''.'') ip))) of
        Inl _ \<Rightarrow> False
      | Inr first_octet \<Rightarrow> 224 \<le> first_octet \<and> first_octet \<le> 239)"

datatype sock_op =
  ReuseAddr | ReusePort | MulticastLoop | MulticastIf string | Bind int | Join string string | Broadcast | Endpoint

text \<open>The calls of \<^verbatim>\<open>start\<close> with the flag of \<^verbatim>\<open>contextlib.suppress(Exception)\<close>.\<close>

definition start_ops :: "bool \<Rightarrow> string \<Rightarrow> int \<Rightarrow> (sock_op \<times> bool) list" where
  "start_ops has_reuseport addr port =
     [(ReuseAddr, False)] @ (if has_reuseport then [(ReusePort, True)] else []) @
     (if is_multicast addr
      then [(MulticastLoop, True), (MulticastIf ''127.0.0.1'', True), (Bind port, False),
            (Join addr ''127.0.0.1'', True), (Join addr ''0.0.0.0'', True)]
      else [(Broadcast, False), (Bind port, False)])"

fun run_ops :: "(sock_op \<Rightarrow> py_error option) \<Rightarrow> (sock_op \<times> bool) list \<Rightarrow> py_error option" where
  "run_ops reply [] = None"
| "run_ops reply ((c, suppressed) # ops) =
     (if suppressed then run_ops reply ops
      else case reply c of Some e \<Rightarrow> Some e | None \<Rightarrow> run_ops reply ops)"

text \<open>\<open>bound\<close> is the port of the socket's name.\<close>

definition udp_start ::
  "(sock_op \<Rightarrow> py_error option) \<Rightarrow> bool \<Rightarrow> int \<Rightarrow> udp_transport \<Rightarrow> udp_transport \<times> py_error option" where
  "udp_start reply has_reuseport bound t =
     (case run_ops reply (start_ops has_reuseport (ut_addr t) (ut_port t)) of
        Some e \<Rightarrow> (t, Some e)
      | None \<Rightarrow>
          (let t1 = t\<lparr>ut_sock := True\<rparr>
           in case reply Endpoint of
                Some e \<Rightarrow> (t1, Some e)
              | None \<Rightarrow> (t1\<lparr>ut_transport := True, ut_port := (if ut_port t = 0 then bound else ut_port t)\<rparr>, None)))"

definition udp_close :: "udp_transport \<Rightarrow> udp_transport" where
  "udp_close t = t\<lparr>ut_transport := False, ut_sock := False\<rparr>"

subsection \<open>Datagrams\<close>

text \<open>The datagram that leaves the transport and where it goes, if it is started.\<close>

definition udp_send :: "bytes \<Rightarrow> udp_transport \<Rightarrow> (bytes \<times> string \<times> int) option result" where
  "udp_send data t =
     rbind (udp_send_broadcast (ut_security t) (ut_transport t) data) (\<lambda>d.
       Inr (map_option (\<lambda>d. (d, ut_addr t, ut_port t)) d))"

text \<open>\<^verbatim>\<open>recv_broadcast\<close>: a datagram, or \<open>None\<close> when the coroutine waits for one.\<close>

definition udp_recv :: "udp_transport \<Rightarrow> (string \<times> bytes) option \<times> udp_transport" where
  "udp_recv t =
     (case udp_inbox (ut_receiver t) of
        [] \<Rightarrow> (None, t)
      | x # xs \<Rightarrow> (Some x, t\<lparr>ut_receiver := (ut_receiver t)\<lparr>udp_inbox := xs\<rparr>\<rparr>))"

text \<open>A datagram reaches the protocol only while the endpoint exists.\<close>

definition udp_datagram :: "bytes \<Rightarrow> string \<Rightarrow> real \<Rightarrow> udp_transport \<Rightarrow> udp_transport" where
  "udp_datagram data addr now t =
     (if ut_transport t then t\<lparr>ut_receiver := datagram_received data addr now (ut_receiver t)\<rparr> else t)"

datatype udp_event =
  Started "sock_op \<Rightarrow> py_error option" bool int | Arrived bytes string real | Taken | Stopped

fun udp_step :: "udp_event \<Rightarrow> udp_transport \<Rightarrow> udp_transport" where
  "udp_step (Started reply reuse bound) t = fst (udp_start reply reuse bound t)"
| "udp_step (Arrived data addr now) t = udp_datagram data addr now t"
| "udp_step Taken t = snd (udp_recv t)"
| "udp_step Stopped t = udp_close t"

subsection \<open>Facts\<close>

text \<open>Multicast addresses are those whose first octet is between 224 and 239.\<close>

lemma is_multicast_dotted:
  assumes "length (dec_nat a) \<le> max_str_digits"
  shows "is_multicast (dotted a b c d) \<longleftrightarrow> 224 \<le> a \<and> a \<le> 239"
proof -
  have "CHR ''.'' \<notin> set (dec_nat a)" using dec_nat_digits [of "CHR ''.''"] by (auto simp: is_digit_def)
  then have "hd (split_on (CHR ''.'') (dotted a b c d)) = dec_nat a" by (simp add: dotted_def)
  then show ?thesis using assms by (simp add: is_multicast_def int_of_text_dec_nat)
qed

text \<open>A failure of a multicast option never keeps the transport from starting, one of \<^verbatim>\<open>bind\<close> always does.\<close>

lemma udp_start_result:
  "snd (udp_start reply reuse bound t) = None \<longleftrightarrow>
     reply ReuseAddr = None \<and> reply (Bind (ut_port t)) = None \<and> reply Endpoint = None \<and>
     (is_multicast (ut_addr t) \<or> reply Broadcast = None)"
  by (auto simp: udp_start_def start_ops_def Let_def split: option.split)

lemma udp_start_sends:
  assumes "udp_start reply reuse bound t = (t', None)"
  shows "udp_send data t' =
      (if len data > max_udp_payload (ut_security t) then Inl MessageDecodeError
       else Inr (Some (data, ut_addr t, if ut_port t = 0 then bound else ut_port t)))"
    "udp_send data (udp_close t') =
      (if len data > max_udp_payload (ut_security t) then Inl MessageDecodeError else Inr None)"
  using assms by (auto simp: udp_start_def Let_def udp_send_def udp_send_broadcast_def udp_close_def split: option.splits)

definition udp_inv :: "security_config \<Rightarrow> udp_transport \<Rightarrow> bool" where
  "udp_inv c t \<longleftrightarrow> ut_security t = c \<and> udp_capacity (ut_receiver t) = max_inbox_size c \<and>
     udp_max_datagram (ut_receiver t) = max_udp_payload c \<and>
     (0 < max_inbox_size c \<longrightarrow> len (udp_inbox (ut_receiver t)) \<le> max_inbox_size c) \<and>
     (\<forall>(a, d) \<in> set (udp_inbox (ut_receiver t)). len d \<le> max_udp_payload c)"

lemma udp_inv_step: "udp_inv c t \<Longrightarrow> udp_inv c (udp_step e t)"
  by (cases e) (auto simp: udp_inv_def udp_start_def Let_def udp_datagram_def udp_recv_def udp_close_def
      datagram_received_def split: option.split list.split prod.split)

text \<open>
  The transport never holds more than it may. Whatever arrives from the network and however
  starts, reads and shutdowns interleave, the inbox holds at most the configured number of
  datagrams, none of them larger than a beacon may be, and after \<^verbatim>\<open>close\<close> nothing is sent or taken any more.
\<close>

theorem udp_bounded:
  assumes "UdpBroadcastTransport port addr c = Inr t0" "t = fold udp_step evs t0"
  shows "(0 < max_inbox_size c \<longrightarrow> len (udp_inbox (ut_receiver t)) \<le> max_inbox_size c) \<and>
    (\<forall>(a, d) \<in> set (udp_inbox (ut_receiver t)). len d \<le> max_udp_payload c) \<and>
    udp_datagram data a now (udp_close t) = udp_close t \<and> udp_send data (udp_close t) \<noteq> Inr (Some x)"
proof -
  have "udp_inv c t0" using assms(1) by (auto simp: UdpBroadcastTransport_def udp_inv_def rbind_Inr_iff)
  then have "udp_inv c t" unfolding assms(2) by (induction evs arbitrary: t0) (simp_all add: udp_inv_step)
  moreover have "udp_send data (udp_close t) \<noteq> Inr (Some x)"
    by (simp add: udp_send_def udp_send_broadcast_def udp_close_def)
  moreover have "udp_datagram data a now (udp_close t) = udp_close t" by (simp add: udp_datagram_def udp_close_def)
  ultimately show ?thesis by (simp add: udp_inv_def)
qed

theorem udp_bounded_witness:
  "\<exists>t. UdpBroadcastTransport 0 ''239.255.42.99'' default_security_config = Inr t \<and>
    len (udp_inbox (ut_receiver (fold udp_step [Started (\<lambda>_. None) True 7, Arrived [1] ''h'' 0] t))) \<le> 1024"
proof -
  obtain t where t: "UdpBroadcastTransport 0 ''239.255.42.99'' default_security_config = Inr t"
    by (simp add: UdpBroadcastTransport_def default_security_config_def RateLimiter_def)
  from udp_bounded [OF t refl, of "[Started (\<lambda>_. None) True 7, Arrived [1] ''h'' 0]" "[]" "[]" 0 "([], [], 0)"] t
  show ?thesis by (simp add: default_security_config_def)
qed

end
