(* ===== verification/Cli.thy ===== *)
theory Cli
  imports Exporter Udp_Transport Node_Gossip
begin

section \<open>Command line (cli.py)\<close>

text \<open>
  What the commands do with their parsed arguments: the parsing of peers and keys, the start of a
  node with its services, the submission of a task, and the status query. Argument texts are
  \<open>string\<close>s as in the other theories. The parsing of the command line by \<^verbatim>\<open>argparse\<close>, printing, and the
  answers of the operating system (a generated key, bound ports, files, the HTTP client) are not
  part of the program: the latter are the record \<open>world\<close> and arguments.
\<close>

subsection \<open>Arguments\<close>

text \<open>The command line checks the binding as the server does, in the other order.\<close>

definition validate_status_binding :: "string \<Rightarrow> string option \<Rightarrow> unit result" where
  "validate_status_binding status_host status_token =
     (if status_token \<noteq> None \<and> len (the status_token) < 32 then Inl ValueError
      else if \<not> is_loopback_host status_host \<and> (status_token = None \<or> status_token = Some []) then Inl ValueError
      else Inr ())"

abbreviation strip_text :: "string \<Rightarrow> string" where
  "strip_text \<equiv> strip py_isspace"

definition parse_address :: "string \<Rightarrow> (string \<times> string \<times> int) result" where
  "parse_address entry =
     (if CHR ''='' \<notin> set entry \<or> CHR '':'' \<notin> set entry then Inl ValueError
      else case split_once (CHR ''='') entry of
             None \<Rightarrow> Inl ValueError
           | Some (nid, addr) \<Rightarrow>
               (case split_once (CHR '':'') addr of
                  None \<Rightarrow> Inl ValueError
                | Some (host, port_str) \<Rightarrow>
                    rbind (int_of_text (points (strip_text port_str))) (\<lambda>port.
                      Inr (strip_text nid, strip_text host, port))))"

fun parse_address_entries :: "string list \<Rightarrow> (string, string \<times> int) dict \<Rightarrow> (string, string \<times> int) dict result" where
  "parse_address_entries [] d = Inr d"
| "parse_address_entries (e # es) d =
     (if strip_text e = [] then parse_address_entries es d
      else rbind (parse_address (strip_text e)) (\<lambda>(nid, addr).
             parse_address_entries es (AList.update nid addr d)))"

definition parse_peer_addresses :: "string \<Rightarrow> (string, string \<times> int) dict result" where
  "parse_peer_addresses peers_str =
     (if strip_text peers_str = [] then Inr [] else parse_address_entries (split_on (CHR '','') peers_str) [])"

fun parse_key_entries :: "ed25519 \<Rightarrow> string list \<Rightarrow> key_ring \<Rightarrow> key_ring result" where
  "parse_key_entries E [] ring = Inr ring"
| "parse_key_entries E (e # es) ring =
     (case split_once (CHR ''='') (strip_text e) of
        None \<Rightarrow> Inl ValueError
      | Some (peer_id, public_key) \<Rightarrow>
          rbind (add_peer E ring (strip_text peer_id) (KeyHex (strip_text public_key))) (parse_key_entries E es))"

definition parse_peer_keys :: "ed25519 \<Rightarrow> string \<Rightarrow> key_ring result" where
  "parse_peer_keys E keys_str =
     (if strip_text keys_str = [] then Inr [] else parse_key_entries E (split_on (CHR '','') keys_str) [])"

subsection \<open>Starting a node\<close>

record node_args =
  a_id :: string
  a_host :: string
  a_port :: int
  a_peers :: string
  a_wal :: "string option"
  a_discovery :: bool
  a_discovery_port :: int
  a_cluster :: string
  a_status_port :: "int option"
  a_lease :: "real option"
  a_private :: "string option"
  a_peer_keys :: string
  a_status_host :: string
  a_status_token :: "string option"
  a_insecure :: bool

record world =
  wd_generated :: key_pair
  wd_tcp :: "int result"
  wd_lease :: "real option"
  wd_disk :: "string \<Rightarrow> bytes option"
  wd_udp :: "sock_op \<Rightarrow> py_error option"
  wd_reuseport :: bool
  wd_udp_port :: int
  wd_http :: "int option result"
  wd_now1 :: real
  wd_now2 :: real

record services =
  sv_tcp :: tcp_transport
  sv_tcp_port :: int
  sv_node :: node
  sv_discovery :: "(udp_transport \<times> discovery) option"
  sv_status :: "http_server option"

definition default_handler :: "bytes \<Rightarrow> bytes" where
  "default_handler pl = map (\<lambda>b. if 97 \<le> b \<and> b \<le> 122 then b - 32 else b) pl"

text \<open>\<^verbatim>\<open>Ed25519KeyPair.from_hex(...) if private_key_hex else Ed25519KeyPair.generate()\<close>\<close>

definition identity_of :: "ed25519 \<Rightarrow> string option \<Rightarrow> key_pair \<Rightarrow> key_pair result" where
  "identity_of E private_key_hex generated =
     (case private_key_hex of
        None \<Rightarrow> Inr generated
      | Some h \<Rightarrow> if h = [] then Inr generated else private_from_hex E h)"

definition missing_keys :: "key_ring \<Rightarrow> (string, string \<times> int) dict \<Rightarrow> string list" where
  "missing_keys ring addrs = sort (filter (\<lambda>p. \<not> has_peer ring p) (keys addrs))"

definition open_wal :: "world \<Rightarrow> string option \<Rightarrow> wal option result" where
  "open_wal w wal_path =
     (case wal_path of
        None \<Rightarrow> Inr None
      | Some p \<Rightarrow>
          if p = [] then Inr None
          else rbind (WriteAheadLog (wd_disk w p) False MAX_FRAME_SIZE) (\<lambda>l. Inr (Some l)))"

text \<open>The state an operation leaves, if it does not raise.\<close>

fun completed :: "'a \<times> py_error option \<Rightarrow> 'a result" where
  "completed (x, None) = Inr x"
| "completed (x, Some e) = Inl e"

definition start_discovery ::
  "ed25519 \<Rightarrow> world \<Rightarrow> node_args \<Rightarrow> int \<Rightarrow> key_pair \<Rightarrow> key_ring \<Rightarrow> security_config \<Rightarrow> (udp_transport \<times> discovery) option result" where
  "start_discovery E w a tcp_port key ring security =
     (if \<not> a_discovery a then Inr None
      else
        rbind (UdpBroadcastTransport (a_discovery_port a) ''239.255.42.99'' security) (\<lambda>u.
        rbind (completed (udp_start (wd_udp w) (wd_reuseport w) (wd_udp_port w) u)) (\<lambda>u1.
        rbind (PeerDiscovery E (a_id a) (a_host a) tcp_port (a_cluster a) (35 / 10) key ring security) (\<lambda>d.
          Inr (Some (u1, d))))))"

definition start_status :: "py_env \<Rightarrow> world \<Rightarrow> node_args \<Rightarrow> node \<Rightarrow> security_config \<Rightarrow> http_server option result" where
  "start_status V w a n security =
     (case a_status_port a of
        None \<Rightarrow> Inr None
      | Some port \<Rightarrow>
          rbind (StatusServer V n (wd_now1 w) (wd_now2 w) (a_status_host a) port (Some security) (a_status_token a)) (\<lambda>s.
          rbind (http_start (wd_http w) s) (\<lambda>s1. Inr (Some s1))))"

text \<open>
  \<^verbatim>\<open>run_node_command\<close> up to the loop that waits for the end. The key ring is one object that
  the transport, the node and the discovery share; their constructors add the own key to it if it is
  missing.
\<close>

definition run_node_command :: "py_env \<Rightarrow> world \<Rightarrow> node_args \<Rightarrow> services result" where
  "run_node_command V w a =
     (let E = env_ed V; security = default_security_config\<lparr>enabled := \<not> a_insecure a\<rparr>
      in
      rbind (if a_status_port a \<noteq> None then validate_status_binding (a_status_host a) (a_status_token a) else Inr ()) (\<lambda>_.
      rbind (parse_peer_addresses (a_peers a)) (\<lambda>addrs.
      rbind (identity_of E (a_private a) (wd_generated w)) (\<lambda>key.
      rbind (parse_peer_keys E (a_peer_keys a)) (\<lambda>given.
      rbind (add_peer E given (a_id a) (KeyObject (public_key_of E key))) (\<lambda>ring.
      rbind (require (enabled security \<longrightarrow> missing_keys ring addrs = []) ValueError) (\<lambda>_.
      rbind (TcpTransport E (a_id a) addrs key ring security) (\<lambda>tcp.
      rbind (wd_tcp w) (\<lambda>tcp_port.
      rbind (open_wal w (a_wal a)) (\<lambda>wlog.
      rbind (PeerNode E (a_id a) (keys addrs) True (a_lease a) (wd_lease w) 1000 20 wlog key (tcp_ring tcp) security 10000) (\<lambda>n0.
      rbind (completed (start V n0)) (\<lambda>n.
      rbind (start_discovery E w a tcp_port key (n_ring n) security) (\<lambda>disc.
      rbind (start_status V w a n security) (\<lambda>status.
        Inr \<lparr>sv_tcp = tcp, sv_tcp_port = tcp_port, sv_node = n, sv_discovery = disc, sv_status = status\<rparr>))))))))))))))"

text \<open>The \<^verbatim>\<open>finally\<close> block; \<^verbatim>\<open>node.stop()\<close> closes the transport of the node.\<close>

definition shutdown :: "services \<Rightarrow> services" where
  "shutdown s =
     s\<lparr>sv_status := map_option http_stop (sv_status s), sv_discovery := map_option (\<lambda>(u, d). (udp_close u, d)) (sv_discovery s),
       sv_node := stop (sv_node s), sv_tcp := tcp_close (sv_tcp s)\<rparr>"

subsection \<open>Submitting a task\<close>

record submit_args =
  s_host :: string
  s_port :: int
  s_sender :: string
  s_task :: string
  s_payload :: string
  s_private :: "string option"
  s_target_key :: "string option"
  s_target :: string
  s_insecure :: bool

definition submit_security :: "submit_args \<Rightarrow> security_config" where
  "submit_security a = default_security_config\<lparr>enabled := \<not> s_insecure a\<rparr>"

definition submit_ring :: "ed25519 \<Rightarrow> key_pair \<Rightarrow> submit_args \<Rightarrow> key_ring result" where
  "submit_ring E key a =
     rbind (add_peer E [] (s_sender a) (KeyObject (public_key_of E key))) (\<lambda>ring.
       if s_insecure a then Inr ring
       else case s_target_key a of
              None \<Rightarrow> Inl ValueError
            | Some h \<Rightarrow> if h = [] then Inl ValueError else add_peer E ring (s_target a) (KeyHex h))"

definition submit_record :: "ed25519 \<Rightarrow> key_pair \<Rightarrow> submit_args \<Rightarrow> task_record result" where
  "submit_record E key a =
     (let r = new_record (s_task a) PENDING (utf8_encode (s_payload a)) None (FenceToken 0 []) 0
                (VectorClock [(s_sender a, 1)]) (s_sender a)
      in if enabled (submit_security a) then sign_task E key r (s_sender a) else Inr r)"

definition submit_message ::
  "ed25519 \<Rightarrow> (real \<Rightarrow> string) \<Rightarrow> key_pair \<Rightarrow> submit_args \<Rightarrow> task_record \<Rightarrow> real \<Rightarrow> string \<Rightarrow> message result" where
  "submit_message E fr key a r wall token =
     (let m = Message ''gossip'' (s_sender a) (gossip_payload [(s_task a, r)]) (protocol_version (submit_security a))
      in if enabled (submit_security a) then signed E fr key (Fin wall) token None m else Inr m)"

text \<open>What the network answers to the submission: the dialled stream, clock readings and nonces.\<close>

record exchange =
  ex_generated :: key_pair
  ex_wall :: real
  ex_token :: string
  ex_dialed :: dialed
  ex_send_wall :: real
  ex_ack_wall :: real
  ex_hello_token :: string
  ex_drained :: bool
  ex_drained_task :: bool

text \<open>The bytes written to the target; the transport is closed in any case.\<close>

definition submit_task_command :: "py_env \<Rightarrow> exchange \<Rightarrow> submit_args \<Rightarrow> bytes result" where
  "submit_task_command V x a =
     (let E = env_ed V
      in
      rbind (identity_of E (s_private a) (ex_generated x)) (\<lambda>key.
      rbind (submit_ring E key a) (\<lambda>ring.
      rbind (TcpTransport E (s_sender a) [(s_target a, s_host a, s_port a)] key ring (submit_security a)) (\<lambda>t.
      rbind (submit_record E key a) (\<lambda>r.
      rbind (submit_message E (env_repr V) key a r (ex_wall x) (ex_token x)) (\<lambda>m.
      rbind (fst (tcp_send E (env_repr V) (env_parse V) (\<lambda>_. False) (s_target a) m (ex_dialed x) (ex_send_wall x)
              (ex_ack_wall x) (ex_hello_token x) (ex_drained x) (ex_drained_task x) t)) (\<lambda>(writer, written).
        Inr written)))))))"

subsection \<open>Querying the status\<close>

datatype cli_outcome = Running services | Submitted bytes | Printed string | Exit int | Raised py_error

definition status_headers :: "string option \<Rightarrow> (string, string) dict" where
  "status_headers token =
     (case token of
        None \<Rightarrow> [(''User-Agent'', ''peerq-cli'')]
      | Some t \<Rightarrow>
          if t = [] then [(''User-Agent'', ''peerq-cli'')]
          else [(''User-Agent'', ''peerq-cli''), (''Authorization'', ''Bearer '' @ t)])"

text \<open>\<open>urlopen\<close> is the body of the HTTP client's response, or its exception. The keys are printed in the order read.\<close>

definition query_status_command ::
  "(real \<Rightarrow> string) \<Rightarrow> (string \<Rightarrow> pyfloat) \<Rightarrow> (string \<Rightarrow> (string, string) dict \<Rightarrow> bytes result) \<Rightarrow> string \<Rightarrow> string option \<Rightarrow> cli_outcome" where
  "query_status_command fr pf urlopen endpoint token =
     (case urlopen endpoint (status_headers token) of
        Inl e \<Rightarrow> Exit 1
      | Inr body \<Rightarrow>
          (case Option.bind (utf8_decode body) (loads pf) of
             None \<Rightarrow> Exit 1
           | Some j \<Rightarrow> if dumpable j then Printed (dump_indent fr 0 j) else Exit 1))"

subsection \<open>Dispatch\<close>

datatype command = NodeCommand node_args | SubmitCommand submit_args | StatusCommand string "string option"

text \<open>The end of \<^verbatim>\<open>main\<close>, with the arguments as \<^verbatim>\<open>argparse\<close> returns them.\<close>

fun main_command ::
  "py_env \<Rightarrow> world \<Rightarrow> exchange \<Rightarrow> (string \<Rightarrow> (string, string) dict \<Rightarrow> bytes result) \<Rightarrow> command \<Rightarrow> cli_outcome" where
  "main_command V w x urlopen (NodeCommand a) =
     (case run_node_command V w a of Inl e \<Rightarrow> Raised e | Inr s \<Rightarrow> Running s)"
| "main_command V w x urlopen (SubmitCommand a) =
     (case submit_task_command V x a of Inl e \<Rightarrow> Raised e | Inr b \<Rightarrow> Submitted b)"
| "main_command V w x urlopen (StatusCommand endpoint token) =
     query_status_command (env_repr V) (env_parse V) urlopen endpoint token"

subsection \<open>Peer lists\<close>

definition render_address :: "string \<times> string \<times> nat \<Rightarrow> string" where
  "render_address e = (case e of (nid, host, port) \<Rightarrow> nid @ ''='' @ host @ '':'' @ dec_nat port)"

definition stripped :: "string \<Rightarrow> bool" where
  "stripped s \<longleftrightarrow> s \<noteq> [] \<and> \<not> py_isspace (hd s) \<and> \<not> py_isspace (last s) \<and> CHR '','' \<notin> set s"

definition address_ok :: "string \<times> string \<times> nat \<Rightarrow> bool" where
  "address_ok e \<longleftrightarrow> (case e of (nid, host, port) \<Rightarrow>
     stripped nid \<and> CHR ''='' \<notin> set nid \<and> stripped host \<and> CHR '':'' \<notin> set host \<and> port < 65536)"

lemma dec_nat_absent: "\<not> is_digit c \<Longrightarrow> c \<notin> set (dec_nat n)"
  using dec_nat_digits by blast

lemma dec_nat_solid: "dec_nat n \<noteq> []" "\<not> py_isspace (hd (dec_nat n))" "\<not> py_isspace (last (dec_nat n))"
proof -
  show ne: "dec_nat n \<noteq> []" by (subst dec_nat.simps) simp
  have "\<not> py_isspace c" if "is_digit c" for c using that by (auto simp: py_isspace_def is_digit_def)
  then show "\<not> py_isspace (hd (dec_nat n))" "\<not> py_isspace (last (dec_nat n))"
    using ne dec_nat_digits [of _ n] by (meson list.set_sel(1) last_in_set)+
qed

lemma parse_address_render:
  assumes "address_ok (nid, host, port)"
  shows "parse_address (render_address (nid, host, port)) = Inr (nid, host, int port)"
    "list_all py_isspace l \<Longrightarrow> list_all py_isspace r \<Longrightarrow>
      strip_text (l @ render_address (nid, host, port) @ r) = render_address (nid, host, port)"
    "CHR '','' \<notin> set (render_address (nid, host, port))" "render_address (nid, host, port) \<noteq> []"
proof -
  note a = assms [unfolded address_ok_def prod.case stripped_def]
  have "length (dec_nat port) \<le> max_str_digits"
    using a dec_nat_length [of port 4] by (simp add: max_str_digits_def)
  then have "int_of_text (points (dec_nat port)) = Inr (int port)" by (rule int_of_text_dec_nat)
  with a show "parse_address (render_address (nid, host, port)) = Inr (nid, host, int port)"
    by (simp add: parse_address_def render_address_def strip_id dec_nat_solid)
  show "strip_text (l @ render_address (nid, host, port) @ r) = render_address (nid, host, port)"
    if "list_all py_isspace l" "list_all py_isspace r"
    using that a dec_nat_solid [of port] by (intro strip_pad) (simp_all add: render_address_def)
  show "CHR '','' \<notin> set (render_address (nid, host, port))"
    using a dec_nat_absent [of "CHR '',''" port] by (simp add: render_address_def is_digit_def)
  show "render_address (nid, host, port) \<noteq> []" using a by (simp add: render_address_def)
qed

text \<open>An entry with blanks around it.\<close>

definition padded :: "string \<times> (string \<times> string \<times> nat) \<times> string \<Rightarrow> string" where
  "padded x = (case x of (l, e, r) \<Rightarrow> l @ render_address e @ r)"

definition padded_ok :: "string \<times> (string \<times> string \<times> nat) \<times> string \<Rightarrow> bool" where
  "padded_ok x \<longleftrightarrow> (case x of (l, e, r) \<Rightarrow> list_all py_isspace l \<and> list_all py_isspace r \<and> address_ok e)"

definition entry_of_padded :: "string \<times> (string \<times> string \<times> nat) \<times> string \<Rightarrow> string \<times> string \<times> int" where
  "entry_of_padded x = (case x of (l, (nid, host, port), r) \<Rightarrow> (nid, host, int port))"

lemma parse_padded:
  assumes "padded_ok x"
  shows "strip_text (padded x) \<noteq> []" "parse_address (strip_text (padded x)) = Inr (entry_of_padded x)"
    "CHR '','' \<notin> set (padded x)"
proof -
  obtain l nid host port r where x: "x = (l, (nid, host, port), r)" by (metis prod.collapse)
  have ok: "address_ok (nid, host, port)" "list_all py_isspace l" "list_all py_isspace r"
    using assms x by (simp_all add: padded_ok_def)
  have "CHR '','' \<notin> set l" "CHR '','' \<notin> set r" using ok(2,3) by (auto simp: list_all_iff py_isspace_def)
  with parse_address_render [OF ok(1)] ok(2,3) x
  show "strip_text (padded x) \<noteq> []" "parse_address (strip_text (padded x)) = Inr (entry_of_padded x)"
    "CHR '','' \<notin> set (padded x)"
    by (simp_all add: padded_def entry_of_padded_def)
qed

lemma parse_entries_padded:
  assumes "\<forall>x \<in> set xs. padded_ok x" "distinct (keys d @ map (\<lambda>x. fst (entry_of_padded x)) xs)"
  shows "parse_address_entries (map padded xs) d = Inr (d @ map entry_of_padded xs)"
  using assms
proof (induction xs arbitrary: d)
  case (Cons x xs)
  obtain nid addr where x: "entry_of_padded x = (nid, addr)" by (cases "entry_of_padded x")
  have "AList.update nid addr d = d @ [(nid, addr)]" using Cons.prems(2) x by (intro update_new) (auto simp: has_key_iff)
  moreover have "distinct (keys (d @ [(nid, addr)]) @ map (\<lambda>x. fst (entry_of_padded x)) xs)"
    using Cons.prems(2) x by (auto simp: comp_def)
  ultimately show ?case using Cons.IH [of "d @ [(nid, addr)]"] Cons.prems(1) parse_padded [of x] x by simp
qed simp

lemma parse_peer_list:
  assumes "\<forall>x \<in> set xs. padded_ok x" "distinct (map (\<lambda>x. fst (entry_of_padded x)) xs)"
  shows "parse_peer_addresses (join '','' (map padded xs)) = Inr (map entry_of_padded xs)"
proof (cases "xs = []")
  case False
  then have s: "split_on (CHR '','') (join '','' (map padded xs)) = map padded xs"
    using assms(1) parse_padded(3) by (intro split_on_join) auto
  obtain x ys where xs: "xs = x # ys" using False by (cases xs) auto
  have "strip_text (join '','' (map padded xs)) \<noteq> []"
  proof
    assume "strip_text (join '','' (map padded xs)) = []"
    then have "list_all py_isspace (join '','' (map padded xs))" by (simp add: strip_Nil)
    then have "list_all py_isspace (padded x)" using xs by (cases ys) simp_all
    then have "strip_text (padded x) = []" by (simp add: strip_Nil)
    with parse_padded(1) [of x] assms(1) xs show False by simp
  qed
  with s parse_entries_padded [OF assms(1), of "[]"] assms(2)
  show ?thesis by (simp add: parse_peer_addresses_def)
qed (simp add: parse_peer_addresses_def strip_def)


subsection \<open>Start-up\<close>

text \<open>
  The command line refuses exactly the bindings that the HTTP server refuses, so that an unsafe
  dashboard is reported before any service of the node is started.
\<close>

theorem status_binding_equiv:
  "validate_status_binding host token = Inr () \<longleftrightarrow> (\<exists>srv. HttpServer host port handler security token = Inr srv)"
  by (auto simp: validate_status_binding_def HttpServer_def)

lemma missing_keys_Nil: "missing_keys ring addrs = [] \<longleftrightarrow> (\<forall>p \<in> set (keys addrs). has_peer ring p)"
proof -
  have "missing_keys ring addrs = [] \<longleftrightarrow> filter (\<lambda>p. \<not> has_peer ring p) (keys addrs) = []"
    unfolding missing_keys_def by (metis length_0_conv length_sort)
  then show ?thesis by (simp add: filter_empty_conv)
qed

lemma own_key_same:
  assumes "own_key E ring nid key = Inr ring'" "map_of ring nid = Some (public_key_of E key)"
  shows "ring' = ring"
  using assms by (simp add: own_key_def get_peer_key_def split: if_splits)

lemma add_peer_object:
  assumes "add_peer E ring nid (KeyObject k) = Inr ring'"
  shows "ring' = AList.update nid k ring" "map_of ring' nid = Some k"
  using assms by (auto simp: add_peer_def map_of_update split: if_splits)

lemma PeerNode_ring: "PeerNode E nid ps h l e q c wlog key ring sec mt = Inr n \<Longrightarrow> own_key E ring nid key = Inr (n_ring n)"
  by (auto simp: PeerNode_def rbind_Inr_iff Let_def)

lemma completed_Inr: "completed r = Inr x \<longleftrightarrow> r = (x, None)"
  by (cases r rule: completed.cases) auto

lemma start_keeps:
  assumes "start V n0 = (n, None)" "PeerNode E nid ps h l e q c wlog key ring sec mt = Inr n0"
  shows "node_inv n" "same_config n0 n"
proof -
  have step: "(node_step V)\<^sup>*\<^sup>* (n0, Idle) (n, Idle)" using node_step.Start [of V n0 Idle] assms(1) by auto
  have "shape.safe n0" using PeerNode_Inr(1) [OF assms(2)] by (simp add: shape.safe_def)
  from shape.reachable_safe [OF step this] show "node_inv n" "same_config n0 n" by (simp_all add: shape.safe_def)
qed

text \<open>What a successful start has gone through.\<close>

lemma run_node_commandE:
  assumes "run_node_command V w a = Inr s"
  obtains addrs key ring n0 wlog where
    "a_status_port a \<noteq> None \<Longrightarrow> validate_status_binding (a_status_host a) (a_status_token a) = Inr ()"
    "parse_peer_addresses (a_peers a) = Inr addrs"
    "identity_of (env_ed V) (a_private a) (wd_generated w) = Inr key"
    "map_of ring (a_id a) = Some (public_key_of (env_ed V) key)"
    "\<not> a_insecure a \<longrightarrow> missing_keys ring addrs = []"
    "TcpTransport (env_ed V) (a_id a) addrs key ring (default_security_config\<lparr>enabled := \<not> a_insecure a\<rparr>) = Inr (sv_tcp s)"
    "PeerNode (env_ed V) (a_id a) (keys addrs) True (a_lease a) (wd_lease w) 1000 20 wlog key (tcp_ring (sv_tcp s))
       (default_security_config\<lparr>enabled := \<not> a_insecure a\<rparr>) 10000 = Inr n0"
    "start V n0 = (sv_node s, None)"
    "start_discovery (env_ed V) w a (sv_tcp_port s) key (n_ring (sv_node s)) (default_security_config\<lparr>enabled := \<not> a_insecure a\<rparr>) = Inr (sv_discovery s)"
    "start_status V w a (sv_node s) (default_security_config\<lparr>enabled := \<not> a_insecure a\<rparr>) = Inr (sv_status s)"
proof -
  let ?sec = "default_security_config\<lparr>enabled := \<not> a_insecure a\<rparr>"
  obtain u addrs key given ring u' tcp port wlog n0 n disc status where
    r: "(if a_status_port a \<noteq> None then validate_status_binding (a_status_host a) (a_status_token a) else Inr ()) = Inr u"
      "parse_peer_addresses (a_peers a) = Inr addrs" "identity_of (env_ed V) (a_private a) (wd_generated w) = Inr key"
      "parse_peer_keys (env_ed V) (a_peer_keys a) = Inr given"
      "add_peer (env_ed V) given (a_id a) (KeyObject (public_key_of (env_ed V) key)) = Inr ring"
      "require (enabled ?sec \<longrightarrow> missing_keys ring addrs = []) ValueError = Inr u'"
      "TcpTransport (env_ed V) (a_id a) addrs key ring ?sec = Inr tcp" "wd_tcp w = Inr port" "open_wal w (a_wal a) = Inr wlog"
      "PeerNode (env_ed V) (a_id a) (keys addrs) True (a_lease a) (wd_lease w) 1000 20 wlog key (tcp_ring tcp) ?sec 10000 = Inr n0"
      "completed (start V n0) = Inr n" "start_discovery (env_ed V) w a port key (n_ring n) ?sec = Inr disc"
      "start_status V w a n ?sec = Inr status"
      "Inr \<lparr>sv_tcp = tcp, sv_tcp_port = port, sv_node = n, sv_discovery = disc, sv_status = status\<rparr> = (Inr s :: services result)"
    using assms unfolding run_node_command_def Let_def by (elim rbindE) (rule that, assumption+)
  from r(14) have s: "sv_tcp s = tcp" "sv_tcp_port s = port" "sv_node s = n" "sv_discovery s = disc" "sv_status s = status"
    by auto
  show ?thesis
    by (rule that [of addrs key ring wlog n0]) (use r add_peer_object(2) [OF r(5)] in \<open>simp_all add: s completed_Inr\<close>)
qed

text \<open>
  C21: a node starts securely. Unless it is started for development, every service enforces
  authentication with the same key ring, which binds the node's own key and has a key for every
  static peer; the node's state is well formed after recovery; and a dashboard that anyone but
  the host itself can reach demands a token of at least 32 characters.
\<close>

theorem secure_startup:
  assumes "run_node_command V w a = Inr s" "\<not> a_insecure a"
  shows "enabled (tcp_security (sv_tcp s)) \<and> enabled (n_security (sv_node s)) \<and>
    node_inv (sv_node s) \<and> n_ring (sv_node s) = tcp_ring (sv_tcp s) \<and>
    map_of (tcp_ring (sv_tcp s)) (a_id a) = Some (public_key_of (env_ed V) (n_identity (sv_node s))) \<and>
    (\<forall>p \<in> set (keys (tcp_addresses (sv_tcp s))) \<union> set (n_peers (sv_node s)). has_peer (tcp_ring (sv_tcp s)) p) \<and>
    (\<forall>(u, d) \<in> set_option (sv_discovery s). dc_ring d = tcp_ring (sv_tcp s) \<and> enabled (dc_security d)) \<and>
    (\<forall>srv \<in> set_option (sv_status s). (\<not> is_loopback_host (a_status_host a) \<longrightarrow> hs_token srv \<noteq> None) \<and>
       (\<forall>t. hs_token srv = Some t \<longrightarrow> 32 \<le> length t))"
proof (rule run_node_commandE [OF assms(1)])
  fix addrs key ring n0 wlog
  let ?sec = "default_security_config\<lparr>enabled := \<not> a_insecure a\<rparr>"
  assume r: "map_of ring (a_id a) = Some (public_key_of (env_ed V) key)" "\<not> a_insecure a \<longrightarrow> missing_keys ring addrs = []"
    and tcp: "TcpTransport (env_ed V) (a_id a) addrs key ring ?sec = Inr (sv_tcp s)"
    and n0: "PeerNode (env_ed V) (a_id a) (keys addrs) True (a_lease a) (wd_lease w) 1000 20 wlog key (tcp_ring (sv_tcp s)) ?sec 10000 = Inr n0"
    and n: "start V n0 = (sv_node s, None)"
    and d: "start_discovery (env_ed V) w a (sv_tcp_port s) key (n_ring (sv_node s)) ?sec = Inr (sv_discovery s)"
    and st: "start_status V w a (sv_node s) ?sec = Inr (sv_status s)"
  have "own_key (env_ed V) ring (a_id a) key = Inr (tcp_ring (sv_tcp s))"
    and t: "tcp_addresses (sv_tcp s) = addrs" "tcp_security (sv_tcp s) = ?sec"
    using tcp unfolding TcpTransport_def by (elim rbindE, metis sum.inject(2) tcp_transport.select_convs)+
  from own_key_same [OF this(1) r(1)] have tr: "tcp_ring (sv_tcp s) = ring" .
  note k = start_keeps [OF n n0] and c = PeerNode_Inr [OF n0]
  have ring: "n_ring (sv_node s) = ring"
    using own_key_same [OF PeerNode_ring [OF n0]] k(2) r(1) tr by (simp add: same_config_def)
  have miss: "has_peer ring p" if "p \<in> set (keys addrs)" for p
    using r(2) assms(2) that missing_keys_Nil by blast
  have "\<forall>p \<in> set (keys addrs) \<union> set (n_peers (sv_node s)). has_peer ring p"
    using c(10) k(2) miss by (auto simp: same_config_def dict_fromkeys_def)
  moreover have "\<forall>(u, d) \<in> set_option (sv_discovery s). dc_ring d = ring \<and> enabled (dc_security d)"
    using d own_key_same [OF _ r(1)] assms(2) unfolding ring
    by (auto simp: start_discovery_def rbind_Inr_iff PeerDiscovery_def split: if_splits)
  moreover have "\<forall>srv \<in> set_option (sv_status s). (\<not> is_loopback_host (a_status_host a) \<longrightarrow> hs_token srv \<noteq> None) \<and>
      (\<forall>t. hs_token srv = Some t \<longrightarrow> 32 \<le> length t)"
    using st by (auto simp: start_status_def rbind_Inr_iff StatusServer_def HttpServer_def http_start_def split: option.splits if_splits)
  moreover have "n_security (sv_node s) = ?sec" "n_identity (sv_node s) = key"
    using k(2) c(4,5) by (simp_all add: same_config_def)
  ultimately show ?thesis using k(1) r(1) assms(2) unfolding ring t tr by simp
qed

text \<open>After the shutdown no service is left that takes or sends anything.\<close>

lemma shutdown_silent:
  "\<not> n_running (sv_node (shutdown s)) \<and> tcp_closed (sv_tcp (shutdown s)) \<and>
   (\<forall>srv \<in> set_option (sv_status (shutdown s)). hs_closed srv \<and> \<not> hs_listening srv) \<and>
   (\<forall>(u, d) \<in> set_option (sv_discovery (shutdown s)).
      udp_datagram dat addr now u = u \<and> udp_send dat u \<noteq> Inr (Some x))"
  by (auto simp: shutdown_def stop_def tcp_close_def http_stop_def udp_close_def udp_datagram_def udp_send_def
      udp_send_broadcast_def rbind_Inr_iff split: if_splits)

subsection \<open>Submission\<close>

text \<open>What a submission that returns has written.\<close>

lemma submit_task_commandE:
  assumes "submit_task_command V x a = Inr written"
  obtains key r m hello b where
    "identity_of (env_ed V) (s_private a) (ex_generated x) = Inr key" "submit_record (env_ed V) key a = Inr r"
    "s_sender a \<noteq> []" "len (s_sender a) \<le> MAX_PEER_ID_LENGTH"
    "submit_message (env_ed V) (env_repr V) key a r (ex_wall x) (ex_token x) = Inr m"
    "to_bytes (env_repr V) (max_frame_size (submit_security a)) m = Inr b" "written = hello @ b"
proof -
  let ?E = "env_ed V" and ?fr = "env_repr V"
  obtain key ring t r m p where
    r: "identity_of ?E (s_private a) (ex_generated x) = Inr key" "submit_ring ?E key a = Inr ring"
      "TcpTransport ?E (s_sender a) [(s_target a, s_host a, s_port a)] key ring (submit_security a) = Inr t"
      "submit_record ?E key a = Inr r" "submit_message ?E ?fr key a r (ex_wall x) (ex_token x) = Inr m"
      "fst (tcp_send ?E ?fr (env_parse V) (\<lambda>_. False) (s_target a) m (ex_dialed x) (ex_send_wall x)
         (ex_ack_wall x) (ex_hello_token x) (ex_drained x) (ex_drained_task x) t) = Inr p"
      "(case p of (writer, written) \<Rightarrow> Inr written) = (Inr written :: bytes result)"
    using assms unfolding submit_task_command_def Let_def by (elim rbindE) (rule that, assumption+)
  have s: "s_sender a \<noteq> []" "len (s_sender a) \<le> MAX_PEER_ID_LENGTH"
    using r(2) by (auto simp: submit_ring_def rbind_Inr_iff add_peer_def split: if_splits)
  have sec: "tcp_security t = submit_security a" using r(3) unfolding TcpTransport_def by (elim rbindE) auto
  obtain w hello t1 where "get_or_connect ?E ?fr (env_parse V) (\<lambda>_. False) (s_target a) (ex_dialed x) (ex_send_wall x)
      (ex_ack_wall x) (ex_hello_token x) (ex_drained x) t = (Inr (w, hello), t1)"
    "rbind (tcp_write_frame ?fr (tcp_security t1) (ex_drained_task x) m) (\<lambda>b. Inr (w, hello @ b)) = Inr p"
    using r(6) by (auto simp: tcp_send_def split: if_splits sum.splits bool.splits prod.splits)
  moreover from this(1) have "tcp_security t1 = submit_security a"
    using leads_connect [of ?E ?fr t "env_parse V" "s_target a" "ex_dialed x" "ex_send_wall x" "ex_ack_wall x" "ex_hello_token x"
        "ex_drained x"] sec
    by (auto simp: get_or_connect_def leads_tcp_def tcp_config_def split: option.splits if_splits)
  ultimately obtain b where "to_bytes ?fr (max_frame_size (submit_security a)) m = Inr b" "p = (w, hello @ b)"
    by (auto simp: tcp_write_frame_def rbind_Inr_iff split: if_splits)
  with that [OF r(1,4) s r(5)] r(7) show ?thesis by auto
qed

lemma submit_record_fields:
  assumes "submit_record E key a = Inr r" "\<not> s_insecure a"
  shows "task_id r = s_task a" "state r = PENDING" "payload r = utf8_encode (s_payload a)" "signer_id r = Some (s_sender a)"
    "claimed_by r = None" "result r = None" "error r = None" "fence_token r = FenceToken 0 []" "updated_by r = s_sender a"
    "vector_clock r = VectorClock [(s_sender a, 1)]" "\<exists>d. signature r = Some (key_sign E key d)"
    "sign_task E key (new_record (s_task a) PENDING (utf8_encode (s_payload a)) None (FenceToken 0 []) 0
       (VectorClock [(s_sender a, 1)]) (s_sender a)) (s_sender a) = Inr r"
  using assms by (auto simp: submit_record_def submit_security_def sign_task_def Let_def rbind_Inr_iff new_record_def)

lemma submitted_handed_over:
  assumes "ed25519_correct (env_ed V)" "submit_record (env_ed V) key a = Inr r" "\<not> s_insecure a"
    and "s_sender a \<noteq> []" "len (s_sender a) \<le> MAX_PEER_ID_LENGTH" "s_task a \<noteq> []" "len (s_task a) \<le> MAX_TASK_ID_LENGTH"
    and "len (utf8_encode (s_payload a)) \<le> MAX_TASK_PAYLOAD" "map_of ring (s_sender a) = Some (public_key_of (env_ed V) key)"
  shows "handed_over V ring (s_sender a) r"
proof -
  note f = submit_record_fields [OF assms(2,3)]
  have "clock (vector_clock r) = [(s_sender a, 1)]" unfolding f(10) by (simp add: VectorClock_def)
  moreover have "wf_clock (vector_clock r)" unfolding f(10) by (rule wf_VectorClock) simp
  ultimately have c: "wf_clock (vector_clock r)" "clock_ok (vector_clock r)" using assms(4,5) by (simp_all add: clock_ok_def)
  have "\<forall>s \<in> set_option (signature r). length s = 64"
    using f(11) assms(1) by (auto simp: key_sign_def ed25519_correct_def)
  then have "record_ok r" using f c assms(4-8) by (auto simp: record_ok_def record_valid_def peer_ok_def MAX_PEER_ID_LENGTH_def)
  moreover have "verify_task_authorization (env_ed V) r ring = Inr True"
    using signed_record_ok [OF assms(1) f(12)] assms(9) by (simp add: get_peer_key_def new_record_def)
  ultimately show ?thesis using c f(4) by (simp add: handed_over_def)
qed

text \<open>A frame of a greeted peer reaches the inbox of the target.\<close>

lemma frame_reaches_inbox:
  assumes "map_of (tcp_handlers t) i = Some (Serving (Some sender))" "enabled (tcp_security t)"
    and "to_bytes fr mx m = Inr b" "mx \<le> max_frame_size (tcp_security t)" "0 \<le> max_json_items (tcp_security t)"
    and "wire_ok fr pf (tcp_security t) m" "msg_type m = ''gossip''" "msg_sender m = sender"
    and "verify_message E fr t (Some sender) (wire_image m) wall = Inr (True, t\<lparr>tcp_replay := c\<rparr>)"
    and "len (tcp_inbox t) < max_inbox_size (tcp_security t)"
  shows "tcp_inbox (handle_client E fr pf i (b @ rest) wall wall' token drained t) =
    tcp_inbox t @ [(sender, wire_image m)]"
proof -
  have f: "tcp_read_frame pf (tcp_security t) (b @ rest) = Inr (wire_image m, rest)"
    by (rule read_frame_append [OF assms(3-6)])
  have m: "msg_type (wire_image m) = ''gossip''" "msg_sender (wire_image m) = sender"
    using assms(7,8) by (simp_all add: wire_image_def)
  have "take_message E fr i (Some sender) (wire_image m) wall t =
      await_next i (Some sender) (inbox_put sender (wire_image m) (t\<lparr>tcp_replay := c\<rparr>))"
    using assms(2,9) m by (simp add: take_message_def)
  then show ?thesis using assms(1,10) f
    by (simp add: handle_client_def await_next_def inbox_put_def finish_client_def)
qed


subsection \<open>A concrete submission\<close>

definition cli_env :: py_env where
  "cli_env = sample_env\<lparr>env_ed := lenient_ed25519\<rparr>"

lemma cli_env_simps [simp]: "env_ed cli_env = lenient_ed25519" "env_repr cli_env = sample_repr" "env_parse cli_env = sample_parse"
  by (simp_all add: cli_env_def)

definition sample_submit :: submit_args where
  "sample_submit = \<lparr>s_host = ''h'', s_port = 1, s_sender = ''b'', s_task = ''t1'', s_payload = ''x'', s_private = None,
     s_target_key = Some (hex_of (replicate 32 0)), s_target = ''a'', s_insecure = False\<rparr>"

lemma sample_submit_simps [simp]:
  "s_sender sample_submit = ''b''" "s_task sample_submit = ''t1''" "s_payload sample_submit = ''x''"
  "s_private sample_submit = None" "s_target sample_submit = ''a''" "\<not> s_insecure sample_submit"
  "submit_security sample_submit = default_security_config"
  by (simp_all add: sample_submit_def submit_security_def default_security_config_def)

definition sample_exchange :: "bytes \<Rightarrow> exchange" where
  "sample_exchange f = \<lparr>ex_generated = KeyPair [9], ex_wall = 1 / 2, ex_token = ''m'',
     ex_dialed = \<lparr>dial_writer = Some 0, dial_stream = f\<rparr>, ex_send_wall = 1 / 2, ex_ack_wall = 1,
     ex_hello_token = ''n'', ex_drained = True, ex_drained_task = True\<rparr>"

definition sample_task :: "bytes \<Rightarrow> task_record" where
  "sample_task sg = (new_record ''t1'' PENDING [120] None (FenceToken 0 []) 0 (VectorClock [(''b'', 1)]) ''b'')
     \<lparr>signer_id := Some ''b'', signature := Some sg\<rparr>"

definition sample_task_message :: "bytes \<Rightarrow> bytes \<Rightarrow> message" where
  "sample_task_message sg sg' = (Message ''gossip'' ''b'' (gossip_payload [(''t1'', sample_task sg)]) 2)
     \<lparr>msg_timestamp := Some (Fin (1 / 2)), msg_nonce := Some ''m'', msg_signature := Some sg'\<rparr>"

definition sample_client :: tcp_transport where
  "sample_client = sample_tcp\<lparr>tcp_ring := [(''b'', PublicKey [9]), (''a'', PublicKey (replicate 32 0))]\<rparr>"

lemma lenient_correct: "ed25519_correct lenient_ed25519" "length (key_sign lenient_ed25519 k d) = 64"
  by (auto simp: ed25519_correct_def key_sign_def lenient_ed25519_def sample_ed25519_def sample_tag_def min_def)

lemma sample_client_new:
  "submit_ring lenient_ed25519 (KeyPair [9]) sample_submit = Inr (tcp_ring sample_client)"
  "TcpTransport lenient_ed25519 ''b'' [(''a'', s_host sample_submit, s_port sample_submit)] (KeyPair [9]) (tcp_ring sample_client)
     default_security_config = Inr sample_client"
proof -
  have "hex_of (replicate 32 0) \<noteq> []" by (simp flip: length_greater_0_conv)
  then show "submit_ring lenient_ed25519 (KeyPair [9]) sample_submit = Inr (tcp_ring sample_client)"
    "TcpTransport lenient_ed25519 ''b'' [(''a'', s_host sample_submit, s_port sample_submit)] (KeyPair [9]) (tcp_ring sample_client)
      default_security_config = Inr sample_client"
    by (simp_all add: submit_ring_def add_peer_def public_key_of_def lenient_ed25519_def sample_ed25519_def sample_submit_def
      MAX_PEER_ID_LENGTH_def public_from_hex_def public_from_bytes_def sample_client_def TcpTransport_def own_key_def
      get_peer_key_def public_to_bytes_def ReplayCache_def sample_tcp_def default_security_config_def)
qed

lemma sample_task_signed:
  "\<exists>sg. length sg = 64 \<and> submit_record lenient_ed25519 (KeyPair [9]) sample_submit = Inr (sample_task sg)"
proof -
  have "dumpable (canonical_doc ((sample_task [])\<lparr>signature := None\<rparr>))"
    by (simp add: canonical_doc_def sample_task_def new_record_def hex_json_def VectorClock_def max_str_digits_def dec_nat.simps)
  then obtain d where "canonical_task_bytes ((sample_task [])\<lparr>signature := None\<rparr>) = Inr d"
    using canonical_task_bytes_Inr by blast
  then have "submit_record lenient_ed25519 (KeyPair [9]) sample_submit = Inr (sample_task (key_sign lenient_ed25519 (KeyPair [9]) d))"
    by (simp add: submit_record_def sign_task_def sample_task_def new_record_def utf8_encode_def utf8_char_def default_security_config_def)
  then show ?thesis using lenient_correct(2) by blast
qed

lemma sample_task_fields [simp]:
  "msg_type (sample_task_message sg sg') = ''gossip''" "msg_sender (sample_task_message sg sg') = ''b''"
  "msg_payload (sample_task_message sg sg') = gossip_payload [(''t1'', sample_task sg)]"
  "msg_version (sample_task_message sg sg') = 2" "msg_timestamp (sample_task_message sg sg') = Some (Fin (1 / 2))"
  "msg_nonce (sample_task_message sg sg') = Some ''m''" "msg_signature (sample_task_message sg sg') = Some sg'"
  by (simp_all add: sample_task_message_def Message_def)

lemma sample_task_dict:
  "to_dict (sample_task sg) = JDict
     [(''task_id'', JStr ''t1''), (''state'', JStr ''pending''), (''payload'', hex_json [120]), (''result'', JNull),
      (''error'', JNull), (''claimed_by'', JNull), (''fence_token'', JDict [(''epoch'', JInt 0), (''peer_id'', JStr [])]),
      (''lease_expiry'', JFloat (Fin 0)), (''vector_clock'', JDict [(''b'', JInt 1)]), (''updated_by'', JStr ''b''),
      (''signature'', hex_json sg), (''signer_id'', JStr ''b'')]"
  by (simp add: to_dict_def sample_task_def new_record_def VectorClock_def)

lemma sample_task_wire_ok:
  assumes "length sg = 64" "length sg' = 64"
  shows "wire_ok sample_repr sample_parse default_security_config (sample_task_message sg sg')"
proof -
  have "length (utf8_encode (hex_of sg)) \<le> 2 * 128" "length (utf8_encode (hex_of sg')) \<le> 2 * 128"
    "length (utf8_encode (hex_of [120])) \<le> 2 * 2"
    using length_utf8_encode_le [of "hex_of sg"] length_utf8_encode_le [of "hex_of sg'"] length_utf8_encode_le [of "hex_of [120]"]
      assms by simp_all
  then have "validate_json_tree (config_limits default_security_config) (wire_document (sample_task_message sg sg')) = Inr ()"
    by (simp add: validate_Inr config_limits_def default_security_config_def wire_document_def unsigned_document_def
        gossip_payload_def sample_task_dict hex_json_def utf8_encode_def utf8_char_def)
  moreover have "printable sample_repr sample_parse (wire_document (sample_task_message sg sg'))"
    by (simp add: wire_document_def unsigned_document_def gossip_payload_def sample_task_dict printable_def hex_json_def
        sample_float_text_ok max_str_digits_def dec_nat.simps)
  ultimately show ?thesis using assms by (simp add: wire_ok_def)
qed

lemma sample_task_bytes:
  assumes "length sg = 64" "length sg' = 64"
  shows "\<exists>b. to_bytes sample_repr (max_frame_size default_security_config) (sample_task_message sg sg') = Inr b"
proof -
  let ?m = "sample_task_message sg sg'"
  let ?t = "dump sample_repr False (sort_json (wire_document ?m))"
  have "length ?t \<le> 5000"
    using length_quote [of False "hex_of sg"] length_quote [of False "hex_of sg'"] length_quote [of False "hex_of [120]"] assms
    by (simp add: wire_document_def unsigned_document_def gossip_payload_def sample_task_dict sort_key_simps hex_json_def
        sample_repr_def quote_def escape_char_def dec_int_def dec_nat.simps)
  then have "length (utf8_encode ?t) \<le> 10000" using length_utf8_encode_le [of ?t] by linarith
  moreover have "length (utf8_encode (hex_of sg)) \<le> 2 * 128" "length (utf8_encode (hex_of [120])) \<le> 2 * 2"
    using length_utf8_encode_le [of "hex_of sg"] length_utf8_encode_le [of "hex_of [120]"] assms by simp_all
  then have "validate_json_tree envelope_limits (JDict (msg_payload ?m)) = Inr ()"
    by (simp add: validate_Inr envelope_limits_def gossip_payload_def sample_task_dict hex_json_def utf8_encode_def utf8_char_def)
  moreover have "dumpable (wire_document ?m)"
    using sample_task_wire_ok [OF assms] by (simp add: printable_def wire_ok_def)
  ultimately show ?thesis
    by (auto simp: to_bytes_Inr canonical_json_bytes_Inr MAX_MESSAGE_TYPE_LENGTH_def MAX_PEER_ID_LENGTH_def
        default_security_config_def MAX_FRAME_SIZE_def)
qed

lemma sample_task_message_signed:
  assumes "length sg = 64"
  shows "\<exists>sg'. length sg' = 64 \<and> submit_message lenient_ed25519 sample_repr (KeyPair [9]) sample_submit (sample_task sg) (1 / 2) ''m'' =
    Inr (sample_task_message sg sg') \<and> verify_signature lenient_ed25519 sample_repr (sample_task_message sg sg') (tcp_ring sample_client) = Inr True"
proof -
  let ?m = "(sample_task_message sg [])\<lparr>msg_signature := None\<rparr>"
  have "dumpable (JDict (unsigned_document ?m))"
    by (simp add: unsigned_document_def gossip_payload_def sample_task_dict hex_json_def max_str_digits_def dec_nat.simps)
  then obtain d where "canonical_bytes sample_repr ?m = Inr d"
    by (auto simp: canonical_bytes_def canonical_json_bytes_def dumps_def)
  then have s: "submit_message lenient_ed25519 sample_repr (KeyPair [9]) sample_submit (sample_task sg) (1 / 2) ''m'' =
      Inr (sample_task_message sg (key_sign lenient_ed25519 (KeyPair [9]) d))"
    by (simp add: submit_message_def signed_def sample_task_message_def Message_def default_security_config_def PROTOCOL_VERSION_def)
  then have "signed lenient_ed25519 sample_repr (KeyPair [9]) (Fin (1 / 2)) ''m'' None
      (Message ''gossip'' ''b'' (gossip_payload [(''t1'', sample_task sg)]) (protocol_version default_security_config)) =
      Inr (sample_task_message sg (key_sign lenient_ed25519 (KeyPair [9]) d))"
    by (simp add: submit_message_def default_security_config_def)
  from signed_verifies [OF lenient_correct(1) this, of "tcp_ring sample_client"]
  have "verify_signature lenient_ed25519 sample_repr (sample_task_message sg (key_sign lenient_ed25519 (KeyPair [9]) d)) (tcp_ring sample_client) = Inr True"
    by (simp add: sample_client_def Message_def public_key_of_def lenient_ed25519_def sample_ed25519_def)
  with s lenient_correct(2) show ?thesis by blast
qed

lemma sample_ack_verified:
  "\<exists>c. verify_message lenient_ed25519 sample_repr sample_client (Some ''a'') (sample_greeting ''hello_ack'') 1 =
    Inr (True, sample_client\<lparr>tcp_replay := c\<rparr>)"
proof -
  let ?m = "sample_greeting ''hello_ack''"
  have "dumpable (JDict (unsigned_document ?m))"
    by (simp add: unsigned_document_def max_str_digits_def dec_nat.simps)
  then have "verify_signature lenient_ed25519 sample_repr ?m (tcp_ring sample_client) = Inr True"
    by (auto simp: verify_signature_True canonical_bytes_def canonical_json_bytes_Inr sample_client_def lenient_ed25519_def)
  moreover obtain c where "check_and_remember (tcp_replay sample_client) ''a'' ''hello_ack'' 1 (tcp_window sample_client) = (True, c)"
    using unseen_accepted [of "tcp_replay sample_client" "''a''" "''hello_ack''"] by (auto simp: sample_client_def sample_tcp_def has_key_def)
  ultimately show ?thesis
    by (intro exI [of _ c] verify_message_valid [where ts = "1 / 2"]) (simp_all add: sample_client_def sample_tcp_def tcp_window_def default_security_config_def
       PROTOCOL_VERSION_def)
qed

lemma sample_submitted_bytes:
  "\<exists>f written. submit_task_command cli_env (sample_exchange f) sample_submit = Inr written"
proof -
  obtain f where f: "tcp_read_frame sample_parse default_security_config f = Inr (sample_greeting ''hello_ack'', [])"
    using sample_frame [of "''hello_ack''"] by (metis append_Nil2 insertCI)
  have sec: "tcp_security sample_client = default_security_config" "enabled default_security_config"
    "protocol_version default_security_config = 2" "max_connections default_security_config = 64"
    by (simp_all add: sample_client_def sample_tcp_def default_security_config_def PROTOCOL_VERSION_def)
  obtain sg where r: "length sg = 64" "submit_record lenient_ed25519 (KeyPair [9]) sample_submit = Inr (sample_task sg)"
    using sample_task_signed by blast
  obtain sg' where m: "length sg' = 64"
    "submit_message lenient_ed25519 sample_repr (KeyPair [9]) sample_submit (sample_task sg) (1 / 2) ''m'' = Inr (sample_task_message sg sg')"
    "verify_signature lenient_ed25519 sample_repr (sample_task_message sg sg') (tcp_ring sample_client) = Inr True"
    using sample_task_message_signed [OF r(1)] by blast
  obtain b where b: "to_bytes sample_repr (max_frame_size default_security_config) (sample_task_message sg sg') = Inr b"
    using sample_task_bytes [OF r(1) m(1)] by blast
  have l: "verify_local_message lenient_ed25519 sample_repr sample_client (sample_task_message sg sg') (1 / 2) = Inr True"
    using m(3) sec by (simp add: verify_local_message_def tcp_window_def default_security_config_def) (simp add: sample_client_def sample_tcp_def)
  obtain h where h: "rbind (tcp_signed_message lenient_ed25519 sample_repr sample_client ''hello'' [(''protocol_version'', JInt 2)] (1 / 2) ''n'')
    (tcp_write_frame sample_repr default_security_config True) = Inr h"
    using own_greeting [of "''hello''" sample_client] by (auto simp: sample_client_def sample_tcp_def)
  obtain c where v: "verify_message lenient_ed25519 sample_repr sample_client (Some ''a'') (sample_greeting ''hello_ack'') 1 =
      Inr (True, sample_client\<lparr>tcp_replay := c\<rparr>)" using sample_ack_verified by blast
  have p: "has_key (tcp_addresses sample_client) ''a''" "tcp_connections sample_client = []" "\<not> tcp_closed sample_client"
    by (simp_all add: sample_client_def sample_tcp_def has_key_def)
  have "announces (sample_greeting ''hello_ack'') ''hello_ack'' 2" by (simp add: announces_def get_default_def)
  then obtain t1 where t1: "get_or_connect lenient_ed25519 sample_repr sample_parse (\<lambda>_. False) ''a'' (ex_dialed (sample_exchange f)) (1 / 2) 1 ''n'' True
      sample_client = (Inr (0, h), t1)" "tcp_security t1 = default_security_config"
    using v h f sec p by (simp add: get_or_connect_def connect_peer_def sample_exchange_def)
  then have "fst (tcp_send lenient_ed25519 sample_repr sample_parse (\<lambda>_. False) ''a'' (sample_task_message sg sg')
      (ex_dialed (sample_exchange f)) (1 / 2) 1 ''n'' True True sample_client) = Inr (0, h @ b)"
    using l b sec p by (simp add: tcp_send_def tcp_write_frame_def)
  then have "submit_task_command cli_env (sample_exchange f) sample_submit = Inr (h @ b)"
    using r m sample_client_new by (simp add: submit_task_command_def identity_of_def sample_exchange_def)
  then show ?thesis by blast
qed


subsection \<open>The status command\<close>

lemma parsed_headers_absent:
  assumes "\<forall>(k, v) \<in> set hdrs. lower (points k) \<noteq> n"
  shows "map_of (parsed_headers hdrs hs) n = map_of hs n"
  using assms
proof (induction hdrs arbitrary: hs)
  case (Cons kv hdrs)
  obtain k v where kv: "kv = (k, v)" by (cases kv)
  have "map_of (parsed_headers (kv # hdrs) hs) n = map_of (AList.update (lower (points k)) (points v) hs) n"
    using Cons.IH [of "AList.update (lower (points k)) (points v) hs"] Cons.prems kv by (simp add: parsed_headers_def)
  then show ?case using Cons.prems kv by (auto simp: map_of_update)
qed (simp add: parsed_headers_def)

definition reserved :: "string \<Rightarrow> bool" where
  "reserved k \<longleftrightarrow> lower (points k) = points ''content-length'' \<or> lower (points k) = points ''authorization''"

lemma status_headers_parsed:
  assumes "\<forall>(k, v) \<in> set extra. \<not> reserved k"
  shows "map_of (parsed_headers (extra @ status_headers token) []) (points ''content-length'') = None"
    "token = Some t \<Longrightarrow> t \<noteq> [] \<Longrightarrow>
      map_of (parsed_headers (extra @ status_headers token) []) (points ''authorization'') = Some (points (''Bearer '' @ t))"
proof -
  have a: "parsed_headers (extra @ hs) [] = parsed_headers hs (parsed_headers extra [])" for hs
    by (simp add: parsed_headers_def)
  have l: "lower (points ''User-Agent'') = points ''user-agent''" "lower (points ''Authorization'') = points ''authorization''"
    by (simp_all add: lower_def lower_point_def points_def)
  have ne: "points ''user-agent'' \<noteq> points ''content-length''" "points ''authorization'' \<noteq> points ''content-length''"
    by (simp_all add: points_def)
  have "map_of (parsed_headers extra []) (points ''content-length'') = None"
    using assms by (subst parsed_headers_absent) (auto simp: reserved_def)
  moreover have "\<forall>(k, v) \<in> set (status_headers token). lower (points k) \<noteq> points ''content-length''"
    using l ne by (auto simp: status_headers_def split: option.splits)
  ultimately show "map_of (parsed_headers (extra @ status_headers token) []) (points ''content-length'') = None"
    unfolding a by (simp add: parsed_headers_absent)
  show "map_of (parsed_headers (extra @ status_headers token) []) (points ''authorization'') = Some (points (''Bearer '' @ t))"
    if "token = Some t" "t \<noteq> []"
    using that l unfolding a by (simp add: status_headers_def parsed_headers_def map_of_update)
qed

lemma status_headers_ok:
  assumes "\<forall>t. token = Some t \<longrightarrow> list_all visible t"
  shows "list_all header_ok (status_headers token)"
proof (cases "token = None \<or> token = Some []")
  case False
  then obtain t where t: "token = Some t" "t \<noteq> []" by auto
  with assms have "visible (last t)" "list_all visible t" by (auto simp: list_all_iff)
  then have "header_ok (''Authorization'', ''Bearer '' @ t)" using t(2)
    by (auto simp: header_ok_def list_all_iff visible_def)
  moreover have "header_ok (''User-Agent'', ''peerq-cli'')" by (simp add: header_ok_def visible_def)
  ultimately show ?thesis using t by (simp add: status_headers_def)
qed (auto simp: status_headers_def header_ok_def visible_def)


subsection \<open>Further concrete instances\<close>

definition sample_peers :: "(string \<times> (string \<times> string \<times> nat) \<times> string) list" where
  "sample_peers = [('' '', (''b'', ''h'', 1), [])]"

lemma sample_peers_ok: "\<forall>x \<in> set sample_peers. padded_ok x" "distinct (map (\<lambda>x. fst (entry_of_padded x)) sample_peers)"
  by (simp_all add: sample_peers_def padded_ok_def address_ok_def stripped_def py_isspace_def)


definition sample_args :: node_args where
  "sample_args = \<lparr>a_id = ''a'', a_host = ''h'', a_port = 0, a_peers = join '','' (map padded sample_peers), a_wal = None,
     a_discovery = True, a_discovery_port = 19876, a_cluster = ''c'', a_status_port = Some 9102, a_lease = None, a_private = None,
     a_peer_keys = ''b=0000000000000000000000000000000000000000000000000000000000000000'', a_status_host = ''127.0.0.1'',
     a_status_token = Some sample_token, a_insecure = False\<rparr>"

definition sample_world :: world where
  "sample_world = \<lparr>wd_generated = KeyPair [7], wd_tcp = Inr 4000, wd_lease = None, wd_disk = (\<lambda>_. None), wd_udp = (\<lambda>_. None),
     wd_reuseport = True, wd_udp_port = 19876, wd_http = Inr (Some 9102), wd_now1 = 1, wd_now2 = 1\<rparr>"

lemma PeerNode_exists:
  assumes "nid \<noteq> []" "len nid \<le> MAX_PEER_ID_LENGTH" "\<forall>p \<in> set ps. p \<noteq> [] \<and> len p \<le> MAX_PEER_ID_LENGTH"
    and "own_key E ring nid key = Inr ring'" "0 < mt" "0 < replay_cache_size sec"
  shows "\<exists>n. PeerNode E nid ps h l e q c wlog key ring sec mt = Inr n"
proof -
  have "MetricsCollector 7 \<noteq> Inl e" for e
    by (simp add: MetricsCollector_def LogLinearHistogram_def Let_def)
  then obtain mc where "MetricsCollector 7 = Inr mc" by (cases "MetricsCollector 7") auto
  moreover have "\<forall>p \<in> set (dict_fromkeys (filter (\<lambda>p. p \<noteq> nid) ps)). p \<noteq> [] \<and> len p \<le> MAX_PEER_ID_LENGTH"
    using assms(3) by (auto simp: dict_fromkeys_def)
  ultimately show ?thesis using assms unfolding PeerNode_def Let_def by (simp add: ReplayCache_def)
qed

lemma sample_keys: "parse_peer_keys sample_ed25519 (a_peer_keys sample_args) = Inr [(''b'', PublicKey (replicate 32 0))]"
  by code_simp

lemma sample_started: "\<exists>s. run_node_command sample_env sample_world sample_args = Inr s"
proof -
  let ?E = sample_ed25519 and ?ring = "[(''b'', PublicKey (replicate 32 0)), (''a'', PublicKey [7])]"
  have p: "parse_peer_addresses (a_peers sample_args) = Inr [(''b'', ''h'', 1)]"
    using parse_peer_list [OF sample_peers_ok] by (simp add: sample_args_def sample_peers_def entry_of_padded_def)
  have o: "own_key ?E ?ring ''a'' (KeyPair [7]) = Inr ?ring"
    by (simp add: own_key_def get_peer_key_def public_to_bytes_def public_key_of_def sample_ed25519_def)
  have sec: "default_security_config\<lparr>enabled := True\<rparr> = default_security_config" "0 < replay_cache_size default_security_config"
    "enabled default_security_config" by (simp_all add: default_security_config_def)
  obtain t where t: "TcpTransport ?E ''a'' [(''b'', ''h'', 1)] (KeyPair [7]) ?ring default_security_config = Inr t" "tcp_ring t = ?ring"
    using o sec by (simp add: TcpTransport_def ReplayCache_def)
  obtain n0 where n0: "PeerNode ?E ''a'' [''b''] True None None 1000 20 None (KeyPair [7]) ?ring default_security_config 10000 = Inr n0"
    using PeerNode_exists [of "''a''" "[''b'']", OF _ _ _ o, of 10000 default_security_config True None None 1000 20 None] sec
    by (auto simp: MAX_PEER_ID_LENGTH_def)
  have n: "start sample_env n0 = (n0\<lparr>n_running := True\<rparr>, None)"
    using PeerNode_Inr(9,11) [OF n0] by (simp add: start_def)
  have "own_key ?E ?ring ''a'' (KeyPair [7]) = Inr (n_ring n0)" by (rule PeerNode_ring [OF n0])
  then have r: "n_ring n0 = ?ring" using o by simp
  have "\<exists>u'. completed (udp_start (\<lambda>_. None) True 19876 u) = Inr u'" for u
    using udp_start_result [of "\<lambda>_. None" True 19876 u] by (cases "udp_start (\<lambda>_. None) True 19876 u") simp
  then have d: "\<exists>d. start_discovery ?E sample_world sample_args 4000 (KeyPair [7]) ?ring default_security_config = Inr d"
    using o sec
    by (auto simp: start_discovery_def sample_args_def sample_world_def UdpBroadcastTransport_def RateLimiter_def
        default_security_config_def PeerDiscovery_def MAX_PEER_ID_LENGTH_def ReplayCache_def rbind_Inr_iff)
  have h: "\<exists>srv. start_status sample_env sample_world sample_args m default_security_config = Inr srv" for m
    by (simp add: start_status_def sample_args_def sample_world_def StatusServer_def HttpServer_def http_start_def sample_token_def)
  obtain disc where disc: "start_discovery ?E sample_world sample_args 4000 (KeyPair [7]) ?ring default_security_config = Inr disc"
    using d by blast
  obtain srv where srv: "start_status sample_env sample_world sample_args (n0\<lparr>n_running := True\<rparr>) default_security_config = Inr srv"
    using h by blast
  have a: "a_id sample_args = ''a''" "a_wal sample_args = None" "a_lease sample_args = None" "a_private sample_args = None"
    "a_insecure sample_args = False" "wd_generated sample_world = KeyPair [7]" "wd_lease sample_world = None" "wd_tcp sample_world = Inr 4000"
    "validate_status_binding (a_status_host sample_args) (a_status_token sample_args) = Inr ()"
    by (simp_all add: sample_args_def sample_world_def validate_status_binding_def sample_token_def)
  have k: "add_peer ?E [(''b'', PublicKey (replicate 32 0))] ''a'' (KeyObject (public_key_of ?E (KeyPair [7]))) = Inr ?ring"
    by (simp add: add_peer_def MAX_PEER_ID_LENGTH_def public_key_of_def sample_ed25519_def)
  have "missing_keys ?ring [(''b'', ''h'', 1)] = []" by (simp add: missing_keys_Nil has_peer_def has_key_def)
  then show ?thesis
    using t n0 n r disc srv
    by (simp add: run_node_command_def p sample_keys identity_of_def a k sec open_wal_def)
qed

theorem secure_startup_witness:
  "\<exists>s. run_node_command sample_env sample_world sample_args = Inr s \<and> enabled (n_security (sv_node s)) \<and>
    n_ring (sv_node s) = tcp_ring (sv_tcp s) \<and> has_peer (tcp_ring (sv_tcp s)) ''b''"
proof -
  obtain s where s: "run_node_command sample_env sample_world sample_args = Inr s" using sample_started by blast
  have "tcp_addresses (sv_tcp s) = [(''b'', ''h'', 1)]"
  proof (rule run_node_commandE [OF s])
    fix addrs key ring
    assume a: "parse_peer_addresses (a_peers sample_args) = Inr addrs"
      "TcpTransport (env_ed sample_env) (a_id sample_args) addrs key ring (default_security_config\<lparr>enabled := \<not> a_insecure sample_args\<rparr>) = Inr (sv_tcp s)"
    from a(1) have "addrs = [(''b'', ''h'', 1)]"
      using parse_peer_list [OF sample_peers_ok] by (simp add: sample_args_def sample_peers_def entry_of_padded_def)
    moreover have "tcp_addresses (sv_tcp s) = addrs" using a(2) unfolding TcpTransport_def by (elim rbindE) (metis sum.inject(2) tcp_transport.select_convs(5))
    ultimately show ?thesis by simp
  qed
  with secure_startup [OF s] s show ?thesis by (auto simp: sample_args_def)
qed

lemma write_response_inj:
  assumes "write_response (st, ct, b) = write_response (st, ct, b')"
  shows "b = b'"
proof -
  define p q where "p = utf8_encode (''HTTP/1.1 '' @ dec_int st @ '' '' @ status_reason st @ crlf @ ''Content-Type: '' @ ct @ crlf @ ''Content-Length: '')"
    and "q = utf8_encode (''Cache-Control: no-store'' @ crlf @ ''X-Content-Type-Options: nosniff'' @ crlf @
      ''Content-Security-Policy: '' @ security_policy @ crlf @
      (if st = 401 then ''WWW-Authenticate: Bearer realm=peerq'' @ crlf else []) @ ''Connection: close'' @ crlf @ crlf)"
  have w: "write_response (st, ct, b) = p @ utf8_encode (dec_nat (length b)) @ 13 # 10 # q @ b" for b
    unfolding write_response_def prod.case response_header_def p_def q_def utf8_encode_append append_assoc by simp
  have d: "13 \<notin> set (utf8_encode (dec_nat n))" for n
  proof -
    have "list_all (\<lambda>c. code c < 128) (dec_nat n)" "\<forall>c \<in> set (dec_nat n). code c \<noteq> 13"
      using dec_nat_digits [of _ n] by (fastforce simp: list_all_iff is_digit_def)+
    then show ?thesis using utf8_replace_encode(3) [of "dec_nat n" 13] by auto
  qed
  have "split_once 13 (utf8_encode (dec_nat (length b)) @ 13 # 10 # q @ b) = split_once 13 (utf8_encode (dec_nat (length b')) @ 13 # 10 # q @ b')"
    using assms unfolding w same_append_eq by simp
  then show ?thesis unfolding split_once_append [OF d] by simp
qed


end
