(* ===== verification/Spec2Isabelle.thy ===== *)
theory Spec2Isabelle
  imports Node_Recovery Sim_Network Cli
begin

text \<open>
  A verification development of peerq (\<^verbatim>\<open>src/peerq\<close>), a leaderless mesh of peers that run tasks.

  \<^bold>\<open>The program.\<close> Every peer is a \<^verbatim>\<open>PeerNode\<close> (\<^verbatim>\<open>node.py\<close>): a store of task records, a bounded
  priority queue of ready tasks (\<^verbatim>\<open>queue.py\<close>), a vector clock, a failure detector
  (\<^verbatim>\<open>failure.py\<close>), counters (\<^verbatim>\<open>metrics.py\<close>), credit windows per peer (\<^verbatim>\<open>queue.py\<close>), a replay cache
  (\<^verbatim>\<open>security.py\<close>) and a write-ahead log (\<^verbatim>\<open>wal.py\<close>). A task is submitted to one peer, logged,
  queued and gossiped. A worker claims it with a lease and a fencing token, runs it and
  commits the result. Two copies of a record are merged in a join-semilattice
  (\<^verbatim>\<open>consensus.py\<close>), and records and messages are signed with Ed25519 (\<^verbatim>\<open>crypto.py\<close>). Nodes talk
  through a transport (\<^verbatim>\<open>transport.py\<close>), either TCP with an authenticated handshake or a
  simulated network on a virtual clock (\<^verbatim>\<open>clock.py\<close>). They find each other by UDP beacons
  (\<^verbatim>\<open>discovery.py\<close>). An HTTP server (\<^verbatim>\<open>transport.py\<close>) shows the status of a node as JSON, as
  Prometheus text and as a dashboard (\<^verbatim>\<open>exporter.py\<close>), and the command line (\<^verbatim>\<open>cli.py\<close>) starts a
  node with these services, submits a task to one, or prints its status.

  \<^bold>\<open>Theories and sources\<close>, in the order of dependence:

  \<^item> \<open>Prelude\<close>: exceptions (\<open>py_error\<close>) and results \<open>py_error + 'a\<close>, Python floats, dictionaries as
    association lists in insertion order, the collections \<open>dict_simps\<close> and \<open>node_defs\<close>, lemmas on
    sorting and on the operations of dictionaries.
  \<^item> \<open>Heapq\<close>: the sift loops of the standard library's \<^verbatim>\<open>heapq\<close>, on which the clock and the queue
    rest, and the locale \<open>min_heap\<close> that the model interprets. The tie-breaking of the real heap
    decides the FIFO order of equal priorities, so it is modelled and not replaced by sorting.
  \<^item> \<open>Sim_Clock\<close>: \<^verbatim>\<open>SimClock\<close> (\<^verbatim>\<open>clock.py\<close>), its heap of sleepers and its steps.
  \<^item> \<open>Backpressure_Queue\<close>, \<open>Credit_Flow\<close>: \<^verbatim>\<open>BackpressurePriorityQueue\<close> with coroutines parked on its
    condition, and \<^verbatim>\<open>CreditFlowController\<close> (\<^verbatim>\<open>queue.py\<close>). The locale \<open>priority_fifo\<close> is the contract
    of the queue.
  \<^item> \<open>Json\<close>: \<^verbatim>\<open>json.dumps\<close>, \<^verbatim>\<open>json.loads\<close>, UTF-8 and hexadecimal texts, as far as peerq uses them.
  \<^item> \<open>Security\<close>: limits, \<^verbatim>\<open>SecurityConfig\<close>, \<^verbatim>\<open>canonical_json_bytes\<close>, \<^verbatim>\<open>validate_json_tree\<close>, \<^verbatim>\<open>ReplayCache\<close>,
    \<^verbatim>\<open>RateLimiter\<close> (\<^verbatim>\<open>security.py\<close>).
  \<^item> \<open>Semilattice\<close>: the locales \<open>join_semilattice\<close> (any order, grouping and duplication of updates
    gives the same result) and \<open>ranked_join\<close> (a maximum by a key whose ties agree, beside a part
    that is joined), with the sublocale from the second to the first.
  \<^item> \<open>Vector_Clock\<close>, \<open>Task_Record\<close>, \<open>Record_Merge\<close>: \<^verbatim>\<open>consensus.py\<close>; clocks interpret
    \<open>join_semilattice\<close>, records interpret \<open>ranked_join\<close>.
  \<^item> \<open>Crypto\<close>: key ring, canonical record bytes, signing and authorisation (\<^verbatim>\<open>crypto.py\<close>).
  \<^item> \<open>Wal\<close>, \<open>Metrics\<close>, \<open>Failure_Detector\<close>: \<^verbatim>\<open>wal.py\<close>, \<^verbatim>\<open>metrics.py\<close>, \<^verbatim>\<open>failure.py\<close>.
  \<^item> \<open>Message\<close>: the envelope \<^verbatim>\<open>Message\<close> and its wire format (\<^verbatim>\<open>transport.py\<close>).
  \<^item> \<open>Message_Guard\<close>: the locale \<open>message_guard\<close>, the contract of an admission check (genuine, fresh,
    not seen before). It is interpreted for the node (\<open>Node_Admission\<close>), the TCP transport
    (\<open>Tcp_Transport\<close>) and discovery (\<open>Discovery\<close>).
  \<^item> \<open>Peer_Node\<close>: the state and every handler and background loop of \<^verbatim>\<open>PeerNode\<close>. \<open>Node_Store\<close> has the
    step relation of the handlers, the invariant and the locale \<open>store_law\<close> (a property of
    records that sealing, admission and merging keep holds of the whole store), interpreted
    with the authenticity of records. \<open>Node_Admission\<close>, \<open>Node_Leases\<close>, \<open>Node_Gossip\<close> and
    \<open>Node_Recovery\<close> hold the properties of the node by subject.
  \<^item> \<open>Sim_Network\<close>: \<^verbatim>\<open>SimNetwork\<close>, \<^verbatim>\<open>InMemoryTransport\<close>, \<^verbatim>\<open>SimBroadcastTransport\<close> (\<^verbatim>\<open>transport.py\<close>), with the
    transports as objects in a store, since the registry, the nodes and messages in flight
    alias them.
  \<^item> \<open>Tcp_Transport\<close>: \<^verbatim>\<open>TcpTransport\<close> (\<^verbatim>\<open>transport.py\<close>). \<open>Discovery\<close>: \<^verbatim>\<open>PeerDiscovery\<close> (\<^verbatim>\<open>discovery.py\<close>) and
    the receive path of \<^verbatim>\<open>UdpBroadcastTransport\<close>.
  \<^item> \<open>Py_Text\<close>, \<open>Ip_Address\<close>: what the HTTP server uses of Python's texts (white space, lower case,
    \<^verbatim>\<open>int\<close>, \<^verbatim>\<open>split\<close>, decoding with replacement) and of the module \<^verbatim>\<open>ipaddress\<close>. \<open>Json_Indent\<close>: \<^verbatim>\<open>json.dumps\<close>
    with indentation.
  \<^item> \<open>Http_Server\<close>: \<^verbatim>\<open>HttpServer\<close> (\<^verbatim>\<open>transport.py\<close>). \<open>Udp_Transport\<close>: \<^verbatim>\<open>UdpBroadcastTransport\<close> (\<^verbatim>\<open>transport.py\<close>).
  \<^item> \<open>Dashboard_Page\<close>, \<open>Exporter\<close>: the page line by line, the Prometheus text, the status document
    and \<^verbatim>\<open>StatusServer\<close> (\<^verbatim>\<open>exporter.py\<close>).
  \<^item> \<open>Cli\<close>: the commands and their parsers (\<^verbatim>\<open>cli.py\<close>), put together from the components above.

  \<^bold>\<open>What is proved.\<close>

  \<^item> \<^emph>\<open>Replication.\<close> Merging is a join-semilattice and does not demote terminal records; gossip
    refines an abstract store that absorbs records by joins; replicas that receive the same
    records in any order converge; a gossip round replicates the records it carries to its
    receiver across the wire.
  \<^item> \<^emph>\<open>Authenticity.\<close> A signature binds a record and an envelope. All records in the store of a secure
    node are authorised up to their clocks, in every reachable state. Nodes, TCP inboxes and
    the discovery directory admit genuine and fresh messages only, and no nonce twice within
    the window. A dialled connection is recorded after an authenticated acknowledgement only.
  \<^item> \<^emph>\<open>Leases and fencing.\<close> A takeover respects unexpired leases of live peers and raises the token; an
    expired or superseded worker commits nothing; peers with the same view elect the same
    reclaimer.
  \<^item> \<^emph>\<open>Durability.\<close> The log replays what was appended, after a crash at any byte the complete frames;
    a node recovers store, clock and ready queue from the log of its submissions.
  \<^item> \<^emph>\<open>Wire formats.\<close> Records, messages and streams of frames survive encoding; decoders accept only
    values within the protocol limits and raise only the exceptions named.
  \<^item> \<^emph>\<open>Components.\<close> Order, capacity and absence of lost wakeups of the queue; wakeups of the virtual
    clock; credit windows; the sliding window of the rate limiter; the replay cache; the
    accuracy of quantiles; suspicion of silent peers; isolation by network partitions.
  \<^item> \<^emph>\<open>Status and commands.\<close> Pages need the token of the server; every client gets one response after a
    bounded amount of reading; the status document agrees with the node and the status command
    prints it; nothing shown on the dashboard is taken for markup. A node starts with
    authentication in every service and a key for every static peer, and a task submitted from
    the command line reaches the store of the target.
  \<^item> \<^emph>\<open>Limits.\<close> Some theorems show where the code falls short of its documents:
    \<open>stale_commit_accepted\<close>, \<open>merged_record_loses_authority\<close>, \<open>running_record_hides_successor\<close>,
    \<open>huge_lease_ends_receive_loop\<close>, \<open>future_dated_replayed\<close>, \<open>gossip_omits_later_tasks\<close>,
    \<open>moved_peer_not_announced\<close>, \<open>append_after_torn_header\<close>, \<open>block_policy_lost_wakeup\<close>,
    \<open>dashboard_boxes_zero\<close>, \<open>prometheus_label_injection\<close>.

  \<^bold>\<open>Conventions of the model.\<close>

  \<^item> \<^emph>\<open>Numbers.\<close> Python integers are \<open>int\<close>. Floats are reals, with infinities and NaN (\<open>pyfloat\<close>) where a
    decoder meets them; rounding of floating-point arithmetic is not modelled. A conversion
    from an integer overflows from the bound of the binary64 format on. The checksum of the log
    is computed on 32-bit words. Lease durations of a node are finite (the value of
    \<^verbatim>\<open>PEERQ_LEASE_DURATION\<close> is not checked by the code), and the counters of recovered clocks are
    integers.
  \<^item> \<^emph>\<open>Strings\<close> are HOL strings, so code points end at U+00FF; a decoder fails above them. Requests of
    HTTP clients, which are decoded with replacement, and the dashboard are lists of code points
    (\<open>unicode\<close>), with the tables of white space and digits of Unicode 14. Bytes are lists of 8-bit
    words.
  \<^item> \<^emph>\<open>Clocks of records\<close> keep their entries sorted by peer, which no operation of the code can
    distinguish from another order.
  \<^item> \<^emph>\<open>Exceptions\<close> are values. A handler that may fail after changing the state returns both.
  \<^item> \<^emph>\<open>Coroutines\<close> are cut at the suspensions that matter: a worker between taking, claiming, running
    and committing, a consumer parked on the condition, an incoming connection between frames,
    a message in its latency. The pieces interleave in any order. The sends of one broadcast are
    one step, since the code suppresses their failures and reads no state in between that
    another handler could change, the list of peers apart.
  \<^item> \<^emph>\<open>Parameters\<close> stand for code outside of the repository: Ed25519 (\<open>ed25519\<close>), \<^verbatim>\<open>repr\<close> and \<^verbatim>\<open>float\<close> on
    decimal texts, SHA-256, \<^verbatim>\<open>math.erfc\<close>, the parsers applied to the lease hint of a payload and to
    unsigned beacons, the task handler, random values and nonces, clock readings, and what the
    operating system does with sockets and files, and the HTTP client \<^verbatim>\<open>urlopen\<close>. What a theorem needs of them is among its hypotheses,
    and its witness has a concrete instance.
  \<^item> \<^emph>\<open>Fuel.\<close> The JSON parser takes fuel, twice the length of the text plus one; every nested value
    consumes a character within two calls, and \<open>parse_value_fuel\<close> shows that more fuel never
    changes the answer. The recursion limit of the interpreter is not modelled. The
    other loops are total functions with termination proofs.

  \<^bold>\<open>Not modelled.\<close> The declaration of options in \<^verbatim>\<open>main\<close> (\<^verbatim>\<open>cli.py\<close>), which \<^verbatim>\<open>argparse\<close> interprets, and what
  the commands print about their progress; \<^verbatim>\<open>RealClock\<close> (\<^verbatim>\<open>clock.py\<close>), which calls the standard library;
  background tasks as objects of the event loop (creation and cancellation; their bodies are
  modelled). The examples, benchmarks and scripts use the library and have no logic of their own.
\<close>

end
